(* ===== verification/Prelude.thy ===== *)
theory Prelude
  imports Main "HOL-Library.Word" "HOL-Library.Monad_Syntax"
begin

text \<open>
  What every component of the model shares: bytes and C strings, subbufs of a buffer, the bits of a
  flag word, and the fact collections that carry the component proofs.

  A byte of a C buffer is a HOL \<^typ>\<open>char\<close>: eight bits, so \<open>''HTTP''\<close> is a buffer of four bytes.
  \<open>byte\<close> is its value as \<open>(unsigned char) c\<close>.  A buffer is a \<^typ>\<open>char list\<close> and a pointer into it an
  offset.
\<close>

unbundle bit_operations_syntax

named_theorems macro_defs \<open>the C macros, unfolded\<close>
named_theorems case_defs \<open>the cases of the big switch, unfolded\<close>
named_theorems char_class \<open>character classes as conditions on the byte value\<close>

section \<open>Bytes\<close>

abbreviation byte :: "char \<Rightarrow> nat" where
  "byte c \<equiv> of_char c"

abbreviation NUL :: char where "NUL \<equiv> CHR 0x00"
abbreviation TAB :: char where "TAB \<equiv> CHR 0x09"
abbreviation LF :: char where "LF \<equiv> CHR 0x0A"
abbreviation FF :: char where "FF \<equiv> CHR 0x0C"
abbreviation CR :: char where "CR \<equiv> CHR 0x0D"

lemma byte_less_256: "byte c < (256::nat)"
  by simp

text \<open>A statement about every byte is checked on the list of the 256 bytes.\<close>

definition all_bytes :: "char list" where
  "all_bytes = [
    CHR 0x00, CHR 0x01, CHR 0x02, CHR 0x03, CHR 0x04, CHR 0x05, CHR 0x06, CHR 0x07,
    CHR 0x08, CHR 0x09, CHR 0x0A, CHR 0x0B, CHR 0x0C, CHR 0x0D, CHR 0x0E, CHR 0x0F,
    CHR 0x10, CHR 0x11, CHR 0x12, CHR 0x13, CHR 0x14, CHR 0x15, CHR 0x16, CHR 0x17,
    CHR 0x18, CHR 0x19, CHR 0x1A, CHR 0x1B, CHR 0x1C, CHR 0x1D, CHR 0x1E, CHR 0x1F,
    CHR 0x20, CHR 0x21, CHR 0x22, CHR 0x23, CHR 0x24, CHR 0x25, CHR 0x26, CHR 0x27,
    CHR 0x28, CHR 0x29, CHR 0x2A, CHR 0x2B, CHR 0x2C, CHR 0x2D, CHR 0x2E, CHR 0x2F,
    CHR 0x30, CHR 0x31, CHR 0x32, CHR 0x33, CHR 0x34, CHR 0x35, CHR 0x36, CHR 0x37,
    CHR 0x38, CHR 0x39, CHR 0x3A, CHR 0x3B, CHR 0x3C, CHR 0x3D, CHR 0x3E, CHR 0x3F,
    CHR 0x40, CHR 0x41, CHR 0x42, CHR 0x43, CHR 0x44, CHR 0x45, CHR 0x46, CHR 0x47,
    CHR 0x48, CHR 0x49, CHR 0x4A, CHR 0x4B, CHR 0x4C, CHR 0x4D, CHR 0x4E, CHR 0x4F,
    CHR 0x50, CHR 0x51, CHR 0x52, CHR 0x53, CHR 0x54, CHR 0x55, CHR 0x56, CHR 0x57,
    CHR 0x58, CHR 0x59, CHR 0x5A, CHR 0x5B, CHR 0x5C, CHR 0x5D, CHR 0x5E, CHR 0x5F,
    CHR 0x60, CHR 0x61, CHR 0x62, CHR 0x63, CHR 0x64, CHR 0x65, CHR 0x66, CHR 0x67,
    CHR 0x68, CHR 0x69, CHR 0x6A, CHR 0x6B, CHR 0x6C, CHR 0x6D, CHR 0x6E, CHR 0x6F,
    CHR 0x70, CHR 0x71, CHR 0x72, CHR 0x73, CHR 0x74, CHR 0x75, CHR 0x76, CHR 0x77,
    CHR 0x78, CHR 0x79, CHR 0x7A, CHR 0x7B, CHR 0x7C, CHR 0x7D, CHR 0x7E, CHR 0x7F,
    CHR 0x80, CHR 0x81, CHR 0x82, CHR 0x83, CHR 0x84, CHR 0x85, CHR 0x86, CHR 0x87,
    CHR 0x88, CHR 0x89, CHR 0x8A, CHR 0x8B, CHR 0x8C, CHR 0x8D, CHR 0x8E, CHR 0x8F,
    CHR 0x90, CHR 0x91, CHR 0x92, CHR 0x93, CHR 0x94, CHR 0x95, CHR 0x96, CHR 0x97,
    CHR 0x98, CHR 0x99, CHR 0x9A, CHR 0x9B, CHR 0x9C, CHR 0x9D, CHR 0x9E, CHR 0x9F,
    CHR 0xA0, CHR 0xA1, CHR 0xA2, CHR 0xA3, CHR 0xA4, CHR 0xA5, CHR 0xA6, CHR 0xA7,
    CHR 0xA8, CHR 0xA9, CHR 0xAA, CHR 0xAB, CHR 0xAC, CHR 0xAD, CHR 0xAE, CHR 0xAF,
    CHR 0xB0, CHR 0xB1, CHR 0xB2, CHR 0xB3, CHR 0xB4, CHR 0xB5, CHR 0xB6, CHR 0xB7,
    CHR 0xB8, CHR 0xB9, CHR 0xBA, CHR 0xBB, CHR 0xBC, CHR 0xBD, CHR 0xBE, CHR 0xBF,
    CHR 0xC0, CHR 0xC1, CHR 0xC2, CHR 0xC3, CHR 0xC4, CHR 0xC5, CHR 0xC6, CHR 0xC7,
    CHR 0xC8, CHR 0xC9, CHR 0xCA, CHR 0xCB, CHR 0xCC, CHR 0xCD, CHR 0xCE, CHR 0xCF,
    CHR 0xD0, CHR 0xD1, CHR 0xD2, CHR 0xD3, CHR 0xD4, CHR 0xD5, CHR 0xD6, CHR 0xD7,
    CHR 0xD8, CHR 0xD9, CHR 0xDA, CHR 0xDB, CHR 0xDC, CHR 0xDD, CHR 0xDE, CHR 0xDF,
    CHR 0xE0, CHR 0xE1, CHR 0xE2, CHR 0xE3, CHR 0xE4, CHR 0xE5, CHR 0xE6, CHR 0xE7,
    CHR 0xE8, CHR 0xE9, CHR 0xEA, CHR 0xEB, CHR 0xEC, CHR 0xED, CHR 0xEE, CHR 0xEF,
    CHR 0xF0, CHR 0xF1, CHR 0xF2, CHR 0xF3, CHR 0xF4, CHR 0xF5, CHR 0xF6, CHR 0xF7,
    CHR 0xF8, CHR 0xF9, CHR 0xFA, CHR 0xFB, CHR 0xFC, CHR 0xFD, CHR 0xFE, CHR 0xFF]"

lemma all_bytes_complete: "c \<in> set all_bytes"
proof (cases c)
  case (Char b0 b1 b2 b3 b4 b5 b6 b7)
  show ?thesis unfolding Char all_bytes_def
    by (cases b7; cases b6; cases b5; cases b4; cases b3; cases b2; cases b1; cases b0) simp_all
qed

lemma byte_induct: "list_all P all_bytes \<Longrightarrow> P c"
  using all_bytes_complete by (simp add: list_all_iff)

section \<open>Conditionals\<close>

text \<open>
  Membership and predicates go through a long \<open>if\<close> chain branch by branch (\<open>intro if_in\<close>): the
  simplifier would multiply the branches.
\<close>

lemma if_in: "(c \<Longrightarrow> a \<in> A) \<Longrightarrow> (\<not> c \<Longrightarrow> b \<in> A) \<Longrightarrow> (if c then a else b) \<in> A"
  by simp

section \<open>C strings and subbufs\<close>

text \<open>\<open>s[i]\<close> of the string literal \<open>s\<close>, its terminating NUL included; inside the array for \<open>i \<le> length s\<close>.\<close>

definition cstr_at :: "string \<Rightarrow> nat \<Rightarrow> char" where
  "cstr_at s i = (s @ [NUL]) ! i"

lemma cstr_at_less [simp]: "i < length s \<Longrightarrow> cstr_at s i = s ! i"
  by (simp add: cstr_at_def nth_append)

lemma cstr_at_end [simp]: "cstr_at s (length s) = NUL"
  by (simp add: cstr_at_def)

text \<open>The bytes of \<open>data\<close> from offset \<open>a\<close> up to, not including, offset \<open>b\<close>.\<close>

definition subbuf :: "'a list \<Rightarrow> nat \<Rightarrow> nat \<Rightarrow> 'a list" where
  "subbuf xs a b = take (b - a) (drop a xs)"

lemma subbuf_empty [simp]: "subbuf xs a a = []"
  by (simp add: subbuf_def)

lemma subbuf_all [simp]: "subbuf xs 0 (length xs) = xs"
  by (simp add: subbuf_def)

lemma length_subbuf [simp]: "b \<le> length xs \<Longrightarrow> length (subbuf xs a b) = b - a"
  by (simp add: subbuf_def)

lemma subbuf_append: "a \<le> b \<Longrightarrow> b \<le> c \<Longrightarrow> subbuf xs a b @ subbuf xs b c = subbuf xs a c"
proof -
  assume ab: "a \<le> b" and bc: "b \<le> c"
  have "take (c - a) (drop a xs) =
      take (b - a) (drop a xs) @ take ((c - a) - (b - a)) (drop (b - a) (drop a xs))"
    using ab bc by (metis diff_le_mono le_add_diff_inverse take_add)
  then show ?thesis
    using ab bc by (simp add: subbuf_def)
qed

lemma subbuf_Suc: "a \<le> b \<Longrightarrow> b < length xs \<Longrightarrow> subbuf xs a (Suc b) = subbuf xs a b @ [xs ! b]"
  using subbuf_append [of a b "Suc b" xs]
  by (simp add: subbuf_def Cons_nth_drop_Suc [symmetric])

lemma subbuf_shift: "subbuf (xs @ ys) (length xs + a) (length xs + b) = subbuf ys a b"
  by (simp add: subbuf_def)

section \<open>Flag words\<close>

text \<open>\<open>w & f\<close> as a C condition, and \<open>w |= f\<close>.\<close>

definition has_flag :: "8 word \<Rightarrow> 8 word \<Rightarrow> bool" where
  "has_flag w f \<longleftrightarrow> w AND f \<noteq> 0"

lemma has_flag_bit: "n < 8 \<Longrightarrow> has_flag w (2 ^ n) \<longleftrightarrow> bit w n"
proof -
  assume n: "n < 8"
  have "bit (w AND 2 ^ n) i \<longleftrightarrow> i = n \<and> bit w n" for i
    using n by (auto simp: bit_simps)
  then show ?thesis
    unfolding has_flag_def by (metis bit_0_eq bot_apply bot_bool_def bit_eq_iff)
qed

lemma has_flag_0 [simp]: "\<not> has_flag 0 f"
  by (simp add: has_flag_def)

lemma bit_or_flag: "m < 8 \<Longrightarrow> bit (w OR 2 ^ m) n \<longleftrightarrow> bit (w :: 8 word) n \<or> n = m"
  by (auto simp: bit_simps)

end
