(* ===== verification/Http_Types.thy ===== *)
theory Http_Types
  imports Prelude
begin

text \<open>
  The data of \<open>http_parser/http_parser.h\<close> and the enumerations of \<open>http_parser.c\<close>: methods, error
  codes, parser states, header states, the parser struct, and the operations on it that are not
  the parsing loop (\<open>http_parser_init\<close>, \<open>http_parser_pause\<close>, \<open>http_message_needs_eof\<close>,
  \<open>http_should_keep_alive\<close>, the string tables, the version).

  A C enumeration is a datatype and the integer it stands for is its \<open>_num\<close>; a bit-field of width
  \<open>w\<close> that counts is a \<open>w word\<close>.
\<close>

section \<open>Request methods\<close>

datatype (plugins only: code size) http_method =
    HTTP_DELETE | HTTP_GET | HTTP_HEAD | HTTP_POST | HTTP_PUT | HTTP_CONNECT
   | HTTP_OPTIONS | HTTP_TRACE | HTTP_COPY | HTTP_LOCK | HTTP_MKCOL | HTTP_MOVE
   | HTTP_PROPFIND | HTTP_PROPPATCH | HTTP_SEARCH | HTTP_UNLOCK | HTTP_BIND | HTTP_REBIND
   | HTTP_UNBIND | HTTP_ACL | HTTP_REPORT | HTTP_MKACTIVITY | HTTP_CHECKOUT | HTTP_MERGE
   | HTTP_MSEARCH | HTTP_NOTIFY | HTTP_SUBSCRIBE | HTTP_UNSUBSCRIBE | HTTP_PATCH | HTTP_PURGE
   | HTTP_MKCALENDAR | HTTP_LINK | HTTP_UNLINK

primrec method_num :: "http_method \<Rightarrow> nat" where
  "method_num HTTP_DELETE = 0"
| "method_num HTTP_GET = 1"
| "method_num HTTP_HEAD = 2"
| "method_num HTTP_POST = 3"
| "method_num HTTP_PUT = 4"
| "method_num HTTP_CONNECT = 5"
| "method_num HTTP_OPTIONS = 6"
| "method_num HTTP_TRACE = 7"
| "method_num HTTP_COPY = 8"
| "method_num HTTP_LOCK = 9"
| "method_num HTTP_MKCOL = 10"
| "method_num HTTP_MOVE = 11"
| "method_num HTTP_PROPFIND = 12"
| "method_num HTTP_PROPPATCH = 13"
| "method_num HTTP_SEARCH = 14"
| "method_num HTTP_UNLOCK = 15"
| "method_num HTTP_BIND = 16"
| "method_num HTTP_REBIND = 17"
| "method_num HTTP_UNBIND = 18"
| "method_num HTTP_ACL = 19"
| "method_num HTTP_REPORT = 20"
| "method_num HTTP_MKACTIVITY = 21"
| "method_num HTTP_CHECKOUT = 22"
| "method_num HTTP_MERGE = 23"
| "method_num HTTP_MSEARCH = 24"
| "method_num HTTP_NOTIFY = 25"
| "method_num HTTP_SUBSCRIBE = 26"
| "method_num HTTP_UNSUBSCRIBE = 27"
| "method_num HTTP_PATCH = 28"
| "method_num HTTP_PURGE = 29"
| "method_num HTTP_MKCALENDAR = 30"
| "method_num HTTP_LINK = 31"
| "method_num HTTP_UNLINK = 32"

definition method_strings :: "string list" where
  "method_strings = [
    ''DELETE'', ''GET'', ''HEAD'', ''POST'', ''PUT'', ''CONNECT''
 , ''OPTIONS'', ''TRACE'', ''COPY'', ''LOCK'', ''MKCOL'', ''MOVE''
 , ''PROPFIND'', ''PROPPATCH'', ''SEARCH'', ''UNLOCK'', ''BIND'', ''REBIND''
 , ''UNBIND'', ''ACL'', ''REPORT'', ''MKACTIVITY'', ''CHECKOUT'', ''MERGE''
 , ''M-SEARCH'', ''NOTIFY'', ''SUBSCRIBE'', ''UNSUBSCRIBE'', ''PATCH'', ''PURGE''
 , ''MKCALENDAR'', ''LINK'', ''UNLINK'']"

definition http_method_str :: "nat \<Rightarrow> string" where
  "http_method_str m = (if m < length method_strings then method_strings ! m else ''<unknown>'')"

section \<open>Error codes\<close>

datatype (plugins only: code size) http_errno =
    HPE_OK | HPE_CB_message_begin | HPE_CB_url | HPE_CB_header_field
   | HPE_CB_header_value | HPE_CB_headers_complete | HPE_CB_body | HPE_CB_message_complete
   | HPE_CB_status | HPE_CB_chunk_header | HPE_CB_chunk_complete | HPE_INVALID_EOF_STATE
   | HPE_HEADER_OVERFLOW | HPE_CLOSED_CONNECTION | HPE_INVALID_VERSION | HPE_INVALID_STATUS
   | HPE_INVALID_METHOD | HPE_INVALID_URL | HPE_INVALID_HOST | HPE_INVALID_PORT
   | HPE_INVALID_PATH | HPE_INVALID_QUERY_STRING | HPE_INVALID_FRAGMENT | HPE_LF_EXPECTED
   | HPE_INVALID_HEADER_TOKEN | HPE_INVALID_CONTENT_LENGTH | HPE_UNEXPECTED_CONTENT_LENGTH | HPE_INVALID_CHUNK_SIZE
   | HPE_INVALID_CONSTANT | HPE_INVALID_INTERNAL_STATE | HPE_STRICT | HPE_PAUSED
   | HPE_UNKNOWN

primrec errno_num :: "http_errno \<Rightarrow> nat" where
  "errno_num HPE_OK = 0"
| "errno_num HPE_CB_message_begin = 1"
| "errno_num HPE_CB_url = 2"
| "errno_num HPE_CB_header_field = 3"
| "errno_num HPE_CB_header_value = 4"
| "errno_num HPE_CB_headers_complete = 5"
| "errno_num HPE_CB_body = 6"
| "errno_num HPE_CB_message_complete = 7"
| "errno_num HPE_CB_status = 8"
| "errno_num HPE_CB_chunk_header = 9"
| "errno_num HPE_CB_chunk_complete = 10"
| "errno_num HPE_INVALID_EOF_STATE = 11"
| "errno_num HPE_HEADER_OVERFLOW = 12"
| "errno_num HPE_CLOSED_CONNECTION = 13"
| "errno_num HPE_INVALID_VERSION = 14"
| "errno_num HPE_INVALID_STATUS = 15"
| "errno_num HPE_INVALID_METHOD = 16"
| "errno_num HPE_INVALID_URL = 17"
| "errno_num HPE_INVALID_HOST = 18"
| "errno_num HPE_INVALID_PORT = 19"
| "errno_num HPE_INVALID_PATH = 20"
| "errno_num HPE_INVALID_QUERY_STRING = 21"
| "errno_num HPE_INVALID_FRAGMENT = 22"
| "errno_num HPE_LF_EXPECTED = 23"
| "errno_num HPE_INVALID_HEADER_TOKEN = 24"
| "errno_num HPE_INVALID_CONTENT_LENGTH = 25"
| "errno_num HPE_UNEXPECTED_CONTENT_LENGTH = 26"
| "errno_num HPE_INVALID_CHUNK_SIZE = 27"
| "errno_num HPE_INVALID_CONSTANT = 28"
| "errno_num HPE_INVALID_INTERNAL_STATE = 29"
| "errno_num HPE_STRICT = 30"
| "errno_num HPE_PAUSED = 31"
| "errno_num HPE_UNKNOWN = 32"

definition http_strerror_tab :: "(string \<times> string) list" where
  "http_strerror_tab = [
    (''HPE_OK'', ''success''),
    (''HPE_CB_message_begin'', ''the on_message_begin callback failed''),
    (''HPE_CB_url'', ''the on_url callback failed''),
    (''HPE_CB_header_field'', ''the on_header_field callback failed''),
    (''HPE_CB_header_value'', ''the on_header_value callback failed''),
    (''HPE_CB_headers_complete'', ''the on_headers_complete callback failed''),
    (''HPE_CB_body'', ''the on_body callback failed''),
    (''HPE_CB_message_complete'', ''the on_message_complete callback failed''),
    (''HPE_CB_status'', ''the on_status callback failed''),
    (''HPE_CB_chunk_header'', ''the on_chunk_header callback failed''),
    (''HPE_CB_chunk_complete'', ''the on_chunk_complete callback failed''),
    (''HPE_INVALID_EOF_STATE'', ''stream ended at an unexpected time''),
    (''HPE_HEADER_OVERFLOW'', ''too many header bytes seen; overflow detected''),
    (''HPE_CLOSED_CONNECTION'', ''data received after completed connection: close message''),
    (''HPE_INVALID_VERSION'', ''invalid HTTP version''),
    (''HPE_INVALID_STATUS'', ''invalid HTTP status code''),
    (''HPE_INVALID_METHOD'', ''invalid HTTP method''),
    (''HPE_INVALID_URL'', ''invalid URL''),
    (''HPE_INVALID_HOST'', ''invalid host''),
    (''HPE_INVALID_PORT'', ''invalid port''),
    (''HPE_INVALID_PATH'', ''invalid path''),
    (''HPE_INVALID_QUERY_STRING'', ''invalid query string''),
    (''HPE_INVALID_FRAGMENT'', ''invalid fragment''),
    (''HPE_LF_EXPECTED'', ''LF character expected''),
    (''HPE_INVALID_HEADER_TOKEN'', ''invalid character in header''),
    (''HPE_INVALID_CONTENT_LENGTH'', ''invalid character in content-length header''),
    (''HPE_UNEXPECTED_CONTENT_LENGTH'', ''unexpected content-length header''),
    (''HPE_INVALID_CHUNK_SIZE'', ''invalid character in chunk size header''),
    (''HPE_INVALID_CONSTANT'', ''invalid constant string''),
    (''HPE_INVALID_INTERNAL_STATE'', ''encountered unexpected internal state''),
    (''HPE_STRICT'', ''strict mode assertion failed''),
    (''HPE_PAUSED'', ''parser is paused''),
    (''HPE_UNKNOWN'', ''an unknown error occurred'')]"

text \<open>
  Both functions take any enumeration value and assert that it indexes the table; \<open>None\<close> is the
  failed assertion.
\<close>

definition http_errno_name :: "nat \<Rightarrow> string option" where
  "http_errno_name err =
    (if err < length http_strerror_tab then Some (fst (http_strerror_tab ! err)) else None)"

definition http_errno_description :: "nat \<Rightarrow> string option" where
  "http_errno_description err =
    (if err < length http_strerror_tab then Some (snd (http_strerror_tab ! err)) else None)"

section \<open>States of the parser\<close>

datatype (plugins only: size) state =
    s_dead | s_start_req_or_res | s_res_or_resp_H | s_start_res
   | s_res_H | s_res_HT | s_res_HTT | s_res_HTTP
   | s_res_http_major | s_res_http_dot | s_res_http_minor | s_res_http_end
   | s_res_first_status_code | s_res_status_code | s_res_status_start | s_res_status
   | s_res_line_almost_done | s_start_req | s_req_method | s_req_spaces_before_url
   | s_req_schema | s_req_schema_slash | s_req_schema_slash_slash | s_req_server_start
   | s_req_server | s_req_server_with_at | s_req_path | s_req_query_string_start
   | s_req_query_string | s_req_fragment_start | s_req_fragment | s_req_http_start
   | s_req_http_H | s_req_http_HT | s_req_http_HTT | s_req_http_HTTP
   | s_req_http_major | s_req_http_dot | s_req_http_minor | s_req_http_end
   | s_req_line_almost_done | s_header_field_start | s_header_field | s_header_value_discard_ws
   | s_header_value_discard_ws_almost_done | s_header_value_discard_lws | s_header_value_start | s_header_value
   | s_header_value_lws | s_header_almost_done | s_chunk_size_start | s_chunk_size
   | s_chunk_parameters | s_chunk_size_almost_done | s_headers_almost_done | s_headers_done
   | s_chunk_data | s_chunk_data_almost_done | s_chunk_data_done | s_body_identity
   | s_body_identity_eof | s_message_done

primrec state_num :: "state \<Rightarrow> nat" where
  "state_num s_dead = 1"
| "state_num s_start_req_or_res = 2"
| "state_num s_res_or_resp_H = 3"
| "state_num s_start_res = 4"
| "state_num s_res_H = 5"
| "state_num s_res_HT = 6"
| "state_num s_res_HTT = 7"
| "state_num s_res_HTTP = 8"
| "state_num s_res_http_major = 9"
| "state_num s_res_http_dot = 10"
| "state_num s_res_http_minor = 11"
| "state_num s_res_http_end = 12"
| "state_num s_res_first_status_code = 13"
| "state_num s_res_status_code = 14"
| "state_num s_res_status_start = 15"
| "state_num s_res_status = 16"
| "state_num s_res_line_almost_done = 17"
| "state_num s_start_req = 18"
| "state_num s_req_method = 19"
| "state_num s_req_spaces_before_url = 20"
| "state_num s_req_schema = 21"
| "state_num s_req_schema_slash = 22"
| "state_num s_req_schema_slash_slash = 23"
| "state_num s_req_server_start = 24"
| "state_num s_req_server = 25"
| "state_num s_req_server_with_at = 26"
| "state_num s_req_path = 27"
| "state_num s_req_query_string_start = 28"
| "state_num s_req_query_string = 29"
| "state_num s_req_fragment_start = 30"
| "state_num s_req_fragment = 31"
| "state_num s_req_http_start = 32"
| "state_num s_req_http_H = 33"
| "state_num s_req_http_HT = 34"
| "state_num s_req_http_HTT = 35"
| "state_num s_req_http_HTTP = 36"
| "state_num s_req_http_major = 37"
| "state_num s_req_http_dot = 38"
| "state_num s_req_http_minor = 39"
| "state_num s_req_http_end = 40"
| "state_num s_req_line_almost_done = 41"
| "state_num s_header_field_start = 42"
| "state_num s_header_field = 43"
| "state_num s_header_value_discard_ws = 44"
| "state_num s_header_value_discard_ws_almost_done = 45"
| "state_num s_header_value_discard_lws = 46"
| "state_num s_header_value_start = 47"
| "state_num s_header_value = 48"
| "state_num s_header_value_lws = 49"
| "state_num s_header_almost_done = 50"
| "state_num s_chunk_size_start = 51"
| "state_num s_chunk_size = 52"
| "state_num s_chunk_parameters = 53"
| "state_num s_chunk_size_almost_done = 54"
| "state_num s_headers_almost_done = 55"
| "state_num s_headers_done = 56"
| "state_num s_chunk_data = 57"
| "state_num s_chunk_data_almost_done = 58"
| "state_num s_chunk_data_done = 59"
| "state_num s_body_identity = 60"
| "state_num s_body_identity_eof = 61"
| "state_num s_message_done = 62"

definition state_list :: "state list" where
  "state_list = [
    s_dead, s_start_req_or_res, s_res_or_resp_H, s_start_res,
    s_res_H, s_res_HT, s_res_HTT, s_res_HTTP,
    s_res_http_major, s_res_http_dot, s_res_http_minor, s_res_http_end,
    s_res_first_status_code, s_res_status_code, s_res_status_start, s_res_status,
    s_res_line_almost_done, s_start_req, s_req_method, s_req_spaces_before_url,
    s_req_schema, s_req_schema_slash, s_req_schema_slash_slash, s_req_server_start,
    s_req_server, s_req_server_with_at, s_req_path, s_req_query_string_start,
    s_req_query_string, s_req_fragment_start, s_req_fragment, s_req_http_start,
    s_req_http_H, s_req_http_HT, s_req_http_HTT, s_req_http_HTTP,
    s_req_http_major, s_req_http_dot, s_req_http_minor, s_req_http_end,
    s_req_line_almost_done, s_header_field_start, s_header_field, s_header_value_discard_ws,
    s_header_value_discard_ws_almost_done, s_header_value_discard_lws, s_header_value_start, s_header_value,
    s_header_value_lws, s_header_almost_done, s_chunk_size_start, s_chunk_size,
    s_chunk_parameters, s_chunk_size_almost_done, s_headers_almost_done, s_headers_done,
    s_chunk_data, s_chunk_data_almost_done, s_chunk_data_done, s_body_identity,
    s_body_identity_eof, s_message_done]"

lemma state_list_num: "state_list ! (state_num s - 1) = s"
  by (cases s) (simp_all add: state_list_def)

text \<open>
  The states are ordered by their number, as the enumeration is; \<open>PARSING_HEADER\<close> depends on it.
\<close>

instantiation state :: equal
begin

definition equal_state :: "state \<Rightarrow> state \<Rightarrow> bool" where
  "equal_state s t \<longleftrightarrow> state_num s = state_num t"

instance
proof
  fix s t :: state
  have "inj state_num"
    by (rule inj_on_inverseI [where g = "\<lambda>n. state_list ! (n - 1)"]) (rule state_list_num)
  then show "HOL.equal s t \<longleftrightarrow> s = t"
    by (auto simp: equal_state_def dest: injD)
qed

end

instantiation state :: linorder
begin

definition less_eq_state :: "state \<Rightarrow> state \<Rightarrow> bool" where
  "less_eq_state s t \<longleftrightarrow> state_num s \<le> state_num t"

definition less_state :: "state \<Rightarrow> state \<Rightarrow> bool" where
  "less_state s t \<longleftrightarrow> state_num s < state_num t"

instance
proof
  fix s t :: state
  assume "s \<le> t" "t \<le> s"
  then have "HOL.equal s t"
    by (simp add: less_eq_state_def equal_state_def)
  then show "s = t"
    by (simp only: equal_eq)
qed (auto simp: less_eq_state_def less_state_def)

end

definition PARSING_HEADER :: "state \<Rightarrow> bool" where
  "PARSING_HEADER s \<longleftrightarrow> s \<le> s_headers_done"

declare state.case [code]

datatype (plugins only: code size) header_states =
    h_general | h_C | h_CO | h_CON
   | h_matching_connection | h_matching_proxy_connection | h_matching_content_length | h_matching_transfer_encoding
   | h_matching_upgrade | h_connection | h_content_length | h_transfer_encoding
   | h_upgrade | h_matching_transfer_encoding_chunked | h_matching_connection_token_start | h_matching_connection_keep_alive
   | h_matching_connection_close | h_matching_connection_upgrade | h_matching_connection_token | h_transfer_encoding_chunked
   | h_connection_keep_alive | h_connection_close | h_connection_upgrade

section \<open>The parser struct\<close>

datatype http_parser_type = HTTP_REQUEST | HTTP_RESPONSE | HTTP_BOTH

text \<open>The values of \<open>enum flags\<close>, each a bit of the 8-bit field.\<close>

definition F_CHUNKED :: "8 word" where "F_CHUNKED = 2 ^ 0"
definition F_CONNECTION_KEEP_ALIVE :: "8 word" where "F_CONNECTION_KEEP_ALIVE = 2 ^ 1"
definition F_CONNECTION_CLOSE :: "8 word" where "F_CONNECTION_CLOSE = 2 ^ 2"
definition F_CONNECTION_UPGRADE :: "8 word" where "F_CONNECTION_UPGRADE = 2 ^ 3"
definition F_TRAILING :: "8 word" where "F_TRAILING = 2 ^ 4"
definition F_UPGRADE :: "8 word" where "F_UPGRADE = 2 ^ 5"
definition F_SKIPBODY :: "8 word" where "F_SKIPBODY = 2 ^ 6"
definition F_CONTENTLENGTH :: "8 word" where "F_CONTENTLENGTH = 2 ^ 7"

lemmas F_defs = F_CHUNKED_def F_CONNECTION_KEEP_ALIVE_def F_CONNECTION_CLOSE_def
  F_CONNECTION_UPGRADE_def F_TRAILING_def F_UPGRADE_def F_SKIPBODY_def F_CONTENTLENGTH_def

text \<open>A flag test is a test of its bit, and setting a flag changes that bit alone.\<close>

lemma small_nats: "(0::nat) < 8" "(1::nat) < 8" "(2::nat) < 8" "(3::nat) < 8" "(4::nat) < 8"
    "(5::nat) < 8" "(6::nat) < 8" "(7::nat) < 8"
  by simp_all

lemma has_flag_F:
  "has_flag w F_CHUNKED \<longleftrightarrow> bit w 0"
  "has_flag w F_CONNECTION_KEEP_ALIVE \<longleftrightarrow> bit w 1"
  "has_flag w F_CONNECTION_CLOSE \<longleftrightarrow> bit w 2"
  "has_flag w F_CONNECTION_UPGRADE \<longleftrightarrow> bit w 3"
  "has_flag w F_TRAILING \<longleftrightarrow> bit w 4"
  "has_flag w F_UPGRADE \<longleftrightarrow> bit w 5"
  "has_flag w F_SKIPBODY \<longleftrightarrow> bit w 6"
  "has_flag w F_CONTENTLENGTH \<longleftrightarrow> bit w 7"
  by (simp_all only: F_defs has_flag_bit [of 0] has_flag_bit [of 1] has_flag_bit [of 2]
      has_flag_bit [of 3] has_flag_bit [of 4] has_flag_bit [of 5] has_flag_bit [of 6]
      has_flag_bit [of 7] small_nats)

lemma bit_or_F:
  "bit (w OR F_CHUNKED) n \<longleftrightarrow> bit w n \<or> n = 0"
  "bit (w OR F_CONNECTION_KEEP_ALIVE) n \<longleftrightarrow> bit w n \<or> n = 1"
  "bit (w OR F_CONNECTION_CLOSE) n \<longleftrightarrow> bit w n \<or> n = 2"
  "bit (w OR F_CONNECTION_UPGRADE) n \<longleftrightarrow> bit w n \<or> n = 3"
  "bit (w OR F_TRAILING) n \<longleftrightarrow> bit w n \<or> n = 4"
  "bit (w OR F_UPGRADE) n \<longleftrightarrow> bit w n \<or> n = 5"
  "bit (w OR F_SKIPBODY) n \<longleftrightarrow> bit w n \<or> n = 6"
  "bit (w OR F_CONTENTLENGTH) n \<longleftrightarrow> bit w n \<or> n = 7"
  by (simp_all only: F_defs bit_or_flag [of 0] bit_or_flag [of 1] bit_or_flag [of 2]
      bit_or_flag [of 3] bit_or_flag [of 4] bit_or_flag [of 5] bit_or_flag [of 6]
      bit_or_flag [of 7] small_nats)

lemmas flag_simps = has_flag_F bit_or_F

text \<open>
  \<open>struct http_parser\<close>.  The fields \<open>type\<close>, \<open>method\<close>, \<open>data\<close> of the source are \<open>parser_type\<close>,
  \<open>parser_method\<close> and \<open>parser_data\<close> (the address of the application's object).
\<close>

record http_parser =
  parser_type :: http_parser_type
  flags :: "8 word"
  state :: state
  header_state :: header_states
  index :: "7 word"
  lenient_http_headers :: bool
  nread :: "32 word"
  content_length :: "64 word"
  http_major :: "16 word"
  http_minor :: "16 word"
  status_code :: "16 word"
  parser_method :: http_method
  http_errno :: http_errno
  upgrade :: bool
  parser_data :: "64 word"

definition ULLONG_MAX :: "64 word" where "ULLONG_MAX = - 1"

definition HTTP_MAX_HEADER_SIZE :: nat where "HTTP_MAX_HEADER_SIZE = 80 * 1024"

definition start_state :: "http_parser \<Rightarrow> state" where
  "start_state pr = (if parser_type pr = HTTP_REQUEST then s_start_req else s_start_res)"

text \<open>\<open>memset\<close> to zero, then the type, the start state and \<open>HPE_OK\<close>; \<open>data\<close> is kept.\<close>

definition http_parser_init :: "http_parser \<Rightarrow> http_parser_type \<Rightarrow> http_parser" where
  "http_parser_init pr t =
    \<lparr>parser_type = t, flags = 0,
     state = (if t = HTTP_REQUEST then s_start_req
              else if t = HTTP_RESPONSE then s_start_res else s_start_req_or_res),
     header_state = h_general, index = 0, lenient_http_headers = False, nread = 0,
     content_length = 0, http_major = 0, http_minor = 0, status_code = 0,
     parser_method = HTTP_DELETE, http_errno = HPE_OK, upgrade = False,
     parser_data = parser_data pr\<rparr>"

text \<open>
  A value-initialised parser object, all fields zero: \<open>m_parser()\<close> of \<open>http_client_connection\<close>.  (The
  state 0 is no state of the enumeration; \<open>s_dead\<close> stands for it here, and \<open>http_parser_init\<close>, called
  next, overwrites it.)
\<close>

definition zero_parser :: http_parser where
  "zero_parser =
    \<lparr>parser_type = HTTP_REQUEST, flags = 0, state = s_dead, header_state = h_general, index = 0,
     lenient_http_headers = False, nread = 0, content_length = 0, http_major = 0, http_minor = 0,
     status_code = 0, parser_method = HTTP_DELETE, http_errno = HPE_OK, upgrade = False,
     parser_data = 0\<rparr>"

text \<open>\<open>None\<close> is the failed assertion of \<open>http_parser_pause\<close> on a parser in an error state.\<close>

definition http_parser_pause :: "http_parser \<Rightarrow> bool \<Rightarrow> http_parser option" where
  "http_parser_pause pr paused =
    (if http_errno pr = HPE_OK \<or> http_errno pr = HPE_PAUSED
     then Some (pr\<lparr>http_errno := (if paused then HPE_PAUSED else HPE_OK)\<rparr>)
     else None)"

definition http_body_is_final :: "http_parser \<Rightarrow> bool" where
  "http_body_is_final pr \<longleftrightarrow> state pr = s_message_done"

definition http_parser_version :: nat where
  "http_parser_version = 2 * 0x10000 OR 7 * 0x00100 OR 1 * 0x00001"

section \<open>Message framing\<close>

definition http_message_needs_eof :: "http_parser \<Rightarrow> bool" where
  "http_message_needs_eof pr =
    (if parser_type pr = HTTP_REQUEST then False
     else if unat (status_code pr) div 100 = 1 \<or> status_code pr = 204 \<or> status_code pr = 304
             \<or> has_flag (flags pr) F_SKIPBODY then False
     else if has_flag (flags pr) F_CHUNKED \<or> content_length pr \<noteq> ULLONG_MAX then False
     else True)"

definition http_should_keep_alive :: "http_parser \<Rightarrow> bool" where
  "http_should_keep_alive pr =
    (if http_major pr > 0 \<and> http_minor pr > 0
     then if has_flag (flags pr) F_CONNECTION_CLOSE then False else \<not> http_message_needs_eof pr
     else if \<not> has_flag (flags pr) F_CONNECTION_KEEP_ALIVE then False
     else \<not> http_message_needs_eof pr)"

text \<open>\<open>NEW_MESSAGE()\<close> of the strict build (\<open>HTTP_PARSER_STRICT\<close> defaults to 1 and no build file changes it).\<close>

definition NEW_MESSAGE :: "http_parser \<Rightarrow> state" where
  "NEW_MESSAGE pr = (if http_should_keep_alive pr then start_state pr else s_dead)"

end
