(* ===== verification/Http_Chars.thy ===== *)
theory Http_Chars
  imports Http_Types
begin

text \<open>
  The byte tables of \<open>http_parser.c\<close> and the character-class macros, in the strict build.  The
  tables are written as the source writes them: the initialiser, then the zeros C fills the rest
  of the array with.  Each macro is then characterised on the byte value (\<open>char_class\<close>), which is
  what the proofs use; the table itself is read only where a byte is concrete.
\<close>

section \<open>Tables\<close>

definition tokens :: "char list" where
  "tokens = [
    NUL, NUL, NUL, NUL, NUL, NUL, NUL, NUL,
    NUL, NUL, NUL, NUL, NUL, NUL, NUL, NUL,
    NUL, NUL, NUL, NUL, NUL, NUL, NUL, NUL,
    NUL, NUL, NUL, NUL, NUL, NUL, NUL, NUL,
    NUL, CHR ''!'', NUL, CHR ''#'', CHR ''$'', CHR ''%'', CHR ''&'', CHR 0x27,
    NUL, NUL, CHR ''*'', CHR ''+'', NUL, CHR ''-'', CHR ''.'', NUL,
    CHR ''0'', CHR ''1'', CHR ''2'', CHR ''3'', CHR ''4'', CHR 0x35, CHR ''6'', CHR ''7'',
    CHR ''8'', CHR ''9'', NUL, NUL, NUL, NUL, NUL, NUL,
    NUL, CHR ''a'', CHR ''b'', CHR ''c'', CHR ''d'', CHR ''e'', CHR ''f'', CHR ''g'',
    CHR ''h'', CHR ''i'', CHR ''j'', CHR ''k'', CHR ''l'', CHR ''m'', CHR ''n'', CHR ''o'',
    CHR ''p'', CHR ''q'', CHR ''r'', CHR ''s'', CHR ''t'', CHR ''u'', CHR ''v'', CHR ''w'',
    CHR ''x'', CHR ''y'', CHR ''z'', NUL, NUL, NUL, CHR ''^'', CHR ''_'',
    CHR 0x60, CHR ''a'', CHR ''b'', CHR ''c'', CHR ''d'', CHR ''e'', CHR ''f'', CHR ''g'',
    CHR ''h'', CHR ''i'', CHR ''j'', CHR ''k'', CHR ''l'', CHR ''m'', CHR ''n'', CHR ''o'',
    CHR ''p'', CHR ''q'', CHR ''r'', CHR ''s'', CHR ''t'', CHR ''u'', CHR ''v'', CHR ''w'',
    CHR ''x'', CHR ''y'', CHR ''z'', NUL, CHR ''|'', NUL, CHR ''~'', NUL] @ replicate 128 NUL"

definition unhex :: "int list" where
  "unhex = [
    - 1, - 1, - 1, - 1, - 1, - 1, - 1, - 1, - 1, - 1, - 1, - 1, - 1, - 1, - 1, - 1,
    - 1, - 1, - 1, - 1, - 1, - 1, - 1, - 1, - 1, - 1, - 1, - 1, - 1, - 1, - 1, - 1,
    - 1, - 1, - 1, - 1, - 1, - 1, - 1, - 1, - 1, - 1, - 1, - 1, - 1, - 1, - 1, - 1,
    0, 1, 2, 3, 4, 5, 6, 7, 8, 9, - 1, - 1, - 1, - 1, - 1, - 1,
    - 1, 10, 11, 12, 13, 14, 15, - 1, - 1, - 1, - 1, - 1, - 1, - 1, - 1, - 1,
    - 1, - 1, - 1, - 1, - 1, - 1, - 1, - 1, - 1, - 1, - 1, - 1, - 1, - 1, - 1, - 1,
    - 1, 10, 11, 12, 13, 14, 15, - 1, - 1, - 1, - 1, - 1, - 1, - 1, - 1, - 1,
    - 1, - 1, - 1, - 1, - 1, - 1, - 1, - 1, - 1, - 1, - 1, - 1, - 1, - 1, - 1, - 1] @ replicate 128 0"

text \<open>\<open>T(v)\<close> is 0 in the strict build, so tab and form feed are not URL characters.\<close>

definition normal_url_char :: "8 word list" where
  "normal_url_char = [
    0 OR 0 OR 0 OR 0 OR 0 OR 0 OR 0 OR 0,
    0 OR 0 OR 0 OR 0 OR 0 OR 0 OR 0 OR 0,
    0 OR 0 OR 0 OR 0 OR 0 OR 0 OR 0 OR 0,
    0 OR 0 OR 0 OR 0 OR 0 OR 0 OR 0 OR 0,
    0 OR 2 OR 4 OR 0 OR 16 OR 32 OR 64 OR 128,
    1 OR 2 OR 4 OR 8 OR 16 OR 32 OR 64 OR 128,
    1 OR 2 OR 4 OR 8 OR 16 OR 32 OR 64 OR 128,
    1 OR 2 OR 4 OR 8 OR 16 OR 32 OR 64 OR 0,
    1 OR 2 OR 4 OR 8 OR 16 OR 32 OR 64 OR 128,
    1 OR 2 OR 4 OR 8 OR 16 OR 32 OR 64 OR 128,
    1 OR 2 OR 4 OR 8 OR 16 OR 32 OR 64 OR 128,
    1 OR 2 OR 4 OR 8 OR 16 OR 32 OR 64 OR 128,
    1 OR 2 OR 4 OR 8 OR 16 OR 32 OR 64 OR 128,
    1 OR 2 OR 4 OR 8 OR 16 OR 32 OR 64 OR 128,
    1 OR 2 OR 4 OR 8 OR 16 OR 32 OR 64 OR 128,
    1 OR 2 OR 4 OR 8 OR 16 OR 32 OR 64 OR 0] @ replicate 16 0"

section \<open>Macros\<close>

text \<open>\<open>c | 0x20\<close> on a byte.\<close>

primrec LOWER :: "char \<Rightarrow> char" where
  "LOWER (Char b0 b1 b2 b3 b4 b5 b6 b7) = Char b0 b1 b2 b3 b4 True b6 b7"

definition IS_ALPHA :: "char \<Rightarrow> bool" where
  "IS_ALPHA c \<longleftrightarrow> byte (LOWER c) \<ge> (97::nat) \<and> byte (LOWER c) \<le> (122::nat)"

definition IS_NUM :: "char \<Rightarrow> bool" where
  "IS_NUM c \<longleftrightarrow> byte c \<ge> (48::nat) \<and> byte c \<le> (57::nat)"

definition IS_ALPHANUM :: "char \<Rightarrow> bool" where
  "IS_ALPHANUM c \<longleftrightarrow> IS_ALPHA c \<or> IS_NUM c"

definition IS_HEX :: "char \<Rightarrow> bool" where
  "IS_HEX c \<longleftrightarrow> IS_NUM c \<or> (byte (LOWER c) \<ge> (97::nat) \<and> byte (LOWER c) \<le> (102::nat))"

definition IS_MARK :: "char \<Rightarrow> bool" where
  "IS_MARK c \<longleftrightarrow> c = CHR ''-'' \<or> c = CHR ''_'' \<or> c = CHR ''.'' \<or> c = CHR ''!'' \<or> c = CHR ''~'' \<or>
     c = CHR ''*'' \<or> c = CHR 0x27 \<or> c = CHR ''('' \<or> c = CHR '')''"

definition IS_USERINFO_CHAR :: "char \<Rightarrow> bool" where
  "IS_USERINFO_CHAR c \<longleftrightarrow> IS_ALPHANUM c \<or> IS_MARK c \<or> c = CHR ''%'' \<or> c = CHR '';'' \<or> c = CHR '':'' \<or>
     c = CHR ''&'' \<or> c = CHR ''='' \<or> c = CHR ''+'' \<or> c = CHR ''$'' \<or> c = CHR '',''"

definition STRICT_TOKEN :: "char \<Rightarrow> char" where
  "STRICT_TOKEN c = tokens ! byte c"

definition TOKEN :: "char \<Rightarrow> char" where
  "TOKEN c = tokens ! byte c"

text \<open>\<open>BIT_AT(a, i)\<close>: \<open>!!(a[i >> 3] & (1 << (i & 7)))\<close>.\<close>

definition BIT_AT :: "8 word list \<Rightarrow> nat \<Rightarrow> bool" where
  "BIT_AT a i \<longleftrightarrow> (a ! (i div 8)) AND (2 ^ (i mod 8)) \<noteq> 0"

definition IS_URL_CHAR :: "char \<Rightarrow> bool" where
  "IS_URL_CHAR c \<longleftrightarrow> BIT_AT normal_url_char (byte c)"

definition IS_HOST_CHAR :: "char \<Rightarrow> bool" where
  "IS_HOST_CHAR c \<longleftrightarrow> IS_ALPHANUM c \<or> c = CHR ''.'' \<or> c = CHR ''-''"

definition IS_HEADER_CHAR :: "char \<Rightarrow> bool" where
  "IS_HEADER_CHAR c \<longleftrightarrow> c = CR \<or> c = LF \<or> c = TAB \<or> (byte c > (31::nat) \<and> c \<noteq> CHR 0x7F)"

text \<open>\<open>ch - '0'\<close> for a digit.\<close>

definition digit_val :: "char \<Rightarrow> nat" where
  "digit_val c = byte c - 48"

section \<open>The classes on the byte value\<close>

text \<open>
  RFC 2616, section 2.2: a token character is any US-ASCII character but controls and separators.
\<close>

definition rfc_separators :: string where
  "rfc_separators = [CHR ''('', CHR '')'', CHR ''<'', CHR ''>'', CHR ''@'', CHR '','', CHR '';'',
    CHR '':'', CHR 0x5C, CHR 0x22, CHR ''/'', CHR ''['', CHR '']'', CHR ''?'', CHR ''='', CHR ''{'',
    CHR ''}'', CHR '' '', TAB]"

definition rfc_token_char :: "char \<Rightarrow> bool" where
  "rfc_token_char c \<longleftrightarrow> byte c > (31::nat) \<and> byte c < (127::nat) \<and> c \<notin> set rfc_separators"

definition ascii_tolower :: "char \<Rightarrow> char" where
  "ascii_tolower c = (if byte c \<ge> (65::nat) \<and> byte c \<le> (90::nat) then LOWER c else c)"

lemma TOKEN_table: "TOKEN c = (if rfc_token_char c then ascii_tolower c else NUL)"
  by (induct c rule: byte_induct)
    (simp add: all_bytes_def TOKEN_def tokens_def rfc_token_char_def rfc_separators_def
      ascii_tolower_def)

lemma unhex_table:
  "unhex ! byte c =
    (if byte c \<ge> (128::nat) then 0 else if IS_NUM c then int (byte c) - 48
     else if IS_HEX c then int (byte (LOWER c)) - 87 else - 1)"
  by (induct c rule: byte_induct) (simp add: all_bytes_def unhex_def IS_NUM_def IS_HEX_def)

lemma IS_URL_CHAR_byte [char_class]:
  "IS_URL_CHAR c \<longleftrightarrow> byte c > (32::nat) \<and> byte c < (127::nat) \<and> c \<noteq> CHR ''#'' \<and> c \<noteq> CHR ''?''"
  by (induct c rule: byte_induct)
    (simp add: all_bytes_def IS_URL_CHAR_def BIT_AT_def normal_url_char_def)

lemma IS_ALPHA_byte [char_class]:
  "IS_ALPHA c \<longleftrightarrow>
    byte c \<ge> (65::nat) \<and> byte c \<le> (90::nat) \<or> byte c \<ge> (97::nat) \<and> byte c \<le> (122::nat)"
  by (induct c rule: byte_induct) (simp add: all_bytes_def IS_ALPHA_def)

lemma STRICT_TOKEN_TOKEN: "STRICT_TOKEN = TOKEN"
  by (simp add: fun_eq_iff STRICT_TOKEN_def TOKEN_def)

lemma unhex_range: "- 1 \<le> unhex ! byte c \<and> unhex ! byte c \<le> 15"
  by (induct c rule: byte_induct) (simp add: all_bytes_def unhex_def)

lemma digit_val_le: "IS_NUM c \<Longrightarrow> digit_val c \<le> 9"
  unfolding IS_NUM_def digit_val_def by linarith

lemma not_NUM [simp]: "\<not> IS_NUM CR" "\<not> IS_NUM LF" "\<not> IS_NUM CHR '' ''" "\<not> IS_NUM TAB"
  by (simp_all add: IS_NUM_def)

lemma TOKEN_delim [simp]:
  "TOKEN CR = NUL" "TOKEN LF = NUL" "TOKEN CHR '' '' = NUL" "TOKEN CHR '':'' = NUL" "TOKEN TAB = NUL"
  by (simp_all add: TOKEN_def tokens_def)

end
