(* ===== verification/Parser_Macros.thy ===== *)
theory Parser_Macros
  imports Http_Chars
begin

text \<open>
  The frame of \<open>http_parser_execute\<close> (\<open>http_parser.c\<close>): the callbacks and settings, the local
  variables of the function, how one pass through its \<open>switch\<close> ends, and the macros the cases are
  written with.

  A callback is a function of the parser and of the application's memory (\<open>'w\<close>): it returns the C
  result, the parser it leaves (the struct is not \<open>const\<close>, and calling \<open>http_parser_pause\<close> from a
  callback is documented) and the new memory.  A data callback also gets the bytes it is handed.
  A null pointer is \<open>None\<close>.
\<close>

type_synonym 'w http_cb = "http_parser \<Rightarrow> 'w \<Rightarrow> int \<times> http_parser \<times> 'w"
type_synonym 'w http_data_cb = "http_parser \<Rightarrow> char list \<Rightarrow> 'w \<Rightarrow> int \<times> http_parser \<times> 'w"

record 'w http_parser_settings =
  on_message_begin :: "'w http_cb option"
  on_url :: "'w http_data_cb option"
  on_status :: "'w http_data_cb option"
  on_header_field :: "'w http_data_cb option"
  on_header_value :: "'w http_data_cb option"
  on_headers_complete :: "'w http_cb option"
  on_body :: "'w http_data_cb option"
  on_message_complete :: "'w http_cb option"
  on_chunk_header :: "'w http_cb option"
  on_chunk_complete :: "'w http_cb option"

definition http_parser_settings_init :: "'w http_parser_settings" where
  "http_parser_settings_init =
    \<lparr>on_message_begin = None, on_url = None, on_status = None, on_header_field = None,
     on_header_value = None, on_headers_complete = None, on_body = None,
     on_message_complete = None, on_chunk_header = None, on_chunk_complete = None\<rparr>"

text \<open>
  The locals that live across the cases: the parser and the memory it points to, \<open>ch\<close>, \<open>p\<close> (as the
  offset \<open>p - data\<close>), \<open>p_state\<close>, the five marks (as offsets) and the constant \<open>lenient\<close>.
\<close>

record 'w locals =
  parser :: http_parser
  app :: 'w
  cur_ch :: char
  cur_p :: nat
  p_state :: state
  header_field_mark :: "nat option"
  header_value_mark :: "nat option"
  url_mark :: "nat option"
  body_mark :: "nat option"
  status_mark :: "nat option"
  lenient :: bool

text \<open>
  How a pass through the \<open>switch\<close> ends: \<open>break\<close> (the \<open>for\<close> loop advances \<open>p\<close>), \<open>goto reexecute\<close>,
  \<open>goto error\<close>, a \<open>return\<close> with its value, or \<open>Abort\<close>: an \<open>assert\<close> that fails, or an access outside
  the buffer or a string table.
\<close>

datatype 'w flow =
    Break "'w locals"
  | Reexecute "'w locals"
  | Goto_error "'w locals"
  | Return nat "'w locals"
  | Abort

section \<open>Assignments\<close>

definition set_errno :: "http_errno \<Rightarrow> 'w locals \<Rightarrow> 'w locals" where
  [macro_defs]: "set_errno e l = l\<lparr>parser := (parser l)\<lparr>http_errno := e\<rparr>\<rparr>"

definition goto_error :: "http_errno \<Rightarrow> 'w locals \<Rightarrow> 'w flow" where
  [macro_defs]: "goto_error e l = Goto_error (set_errno e l)"

definition update_state :: "state \<Rightarrow> 'w locals \<Rightarrow> 'w locals" where
  [macro_defs]: "update_state v l = l\<lparr>p_state := v\<rparr>"

definition upd_parser :: "(http_parser \<Rightarrow> http_parser) \<Rightarrow> 'w locals \<Rightarrow> 'w locals" where
  [macro_defs]: "upd_parser f l = l\<lparr>parser := f (parser l)\<rparr>"

text \<open>\<open>RETURN(V)\<close>: the state goes back into the parser.\<close>

definition do_return :: "nat \<Rightarrow> 'w locals \<Rightarrow> 'w flow" where
  [macro_defs]: "do_return v l = Return v (l\<lparr>parser := (parser l)\<lparr>state := p_state l\<rparr>\<rparr>)"

definition strict_check :: "bool \<Rightarrow> 'w locals \<Rightarrow> ('w locals \<Rightarrow> 'w flow) \<Rightarrow> 'w flow" where
  [macro_defs]: "strict_check cond l k = (if cond then goto_error HPE_STRICT l else k l)"

text \<open>\<open>parser->nread\<close> is 32 bits wide and \<open>V\<close> is converted to it.\<close>

definition count_header_size :: "nat \<Rightarrow> 'w locals \<Rightarrow> ('w locals \<Rightarrow> 'w flow) \<Rightarrow> 'w flow" where
  [macro_defs]: "count_header_size v l k =
    (let l' = upd_parser (\<lambda>pr. pr\<lparr>nread := nread pr + of_nat v\<rparr>) l
     in if unat (nread (parser l')) > HTTP_MAX_HEADER_SIZE
        then goto_error HPE_HEADER_OVERFLOW l' else k l')"

section \<open>Marks\<close>

definition mark_at :: "nat \<Rightarrow> nat option \<Rightarrow> nat option" where
  [macro_defs]: "mark_at q m = (case m of None \<Rightarrow> Some q | Some r \<Rightarrow> Some r)"

definition mark_header_field :: "'w locals \<Rightarrow> 'w locals" where
  [macro_defs]: "mark_header_field l =
    l\<lparr>header_field_mark := mark_at (cur_p l) (header_field_mark l)\<rparr>"

definition mark_header_value :: "'w locals \<Rightarrow> 'w locals" where
  [macro_defs]: "mark_header_value l =
    l\<lparr>header_value_mark := mark_at (cur_p l) (header_value_mark l)\<rparr>"

definition mark_url :: "'w locals \<Rightarrow> 'w locals" where
  [macro_defs]: "mark_url l = l\<lparr>url_mark := mark_at (cur_p l) (url_mark l)\<rparr>"

definition mark_body :: "'w locals \<Rightarrow> 'w locals" where
  [macro_defs]: "mark_body l = l\<lparr>body_mark := mark_at (cur_p l) (body_mark l)\<rparr>"

definition mark_status :: "'w locals \<Rightarrow> 'w locals" where
  [macro_defs]: "mark_status l = l\<lparr>status_mark := mark_at (cur_p l) (status_mark l)\<rparr>"

section \<open>Callbacks\<close>

text \<open>
  What follows the call of a callback that returned \<open>r\<close>: \<open>SET_ERRNO(e)\<close> when \<open>r\<close> is not 0, then
  \<open>UPDATE_STATE(parser->state)\<close>.
\<close>

definition after_callback :: "http_errno \<Rightarrow> int \<times> http_parser \<times> 'w \<Rightarrow> 'w locals \<Rightarrow> 'w locals" where
  "after_callback e res l =
    (case res of (r, pr, w) \<Rightarrow>
      let pr' = (if r \<noteq> 0 then pr\<lparr>http_errno := e\<rparr> else pr)
      in l\<lparr>parser := pr', app := w, p_state := state pr'\<rparr>)"

text \<open>\<open>CALLBACK_NOTIFY_(FOR, ER)\<close>, followed by \<open>k\<close>.\<close>

definition callback_notify ::
  "'w http_cb option \<Rightarrow> http_errno \<Rightarrow> nat \<Rightarrow> 'w locals \<Rightarrow> ('w locals \<Rightarrow> 'w flow) \<Rightarrow> 'w flow" where
  "callback_notify cb e er l k =
    (if http_errno (parser l) \<noteq> HPE_OK then Abort
     else case cb of None \<Rightarrow> k l
     | Some f \<Rightarrow>
         let l' = after_callback e (f ((parser l)\<lparr>state := p_state l\<rparr>) (app l)) l
         in if http_errno (parser l') \<noteq> HPE_OK then Return er l' else k l')"

text \<open>
  \<open>CALLBACK_DATA_(FOR, LEN, ER)\<close>, followed by \<open>k\<close>: \<open>mark\<close> is the mark, \<open>clear\<close> resets it, \<open>q\<close>
  is the offset of the end of the bytes handed over (\<open>mark + LEN\<close>).  Handing over bytes that are
  not inside the buffer is \<open>Abort\<close>.
\<close>

definition callback_data ::
  "nat option \<Rightarrow> ('w locals \<Rightarrow> 'w locals) \<Rightarrow> 'w http_data_cb option \<Rightarrow> http_errno \<Rightarrow> char list \<Rightarrow>
    nat \<Rightarrow> nat \<Rightarrow> 'w locals \<Rightarrow> ('w locals \<Rightarrow> 'w flow) \<Rightarrow> 'w flow" where
  "callback_data mark clear cb e buf q er l k =
    (if http_errno (parser l) \<noteq> HPE_OK then Abort
     else case mark of None \<Rightarrow> k l
     | Some m \<Rightarrow>
        (case cb of None \<Rightarrow> k (clear l)
         | Some f \<Rightarrow>
            if m \<le> q \<and> q \<le> length buf then
              let l' = after_callback e
                    (f ((parser l)\<lparr>state := p_state l\<rparr>) (subbuf buf m q) (app l)) l
              in if http_errno (parser l') \<noteq> HPE_OK then Return er l' else k (clear l')
            else Abort))"

definition callback_header_field ::
  "'w http_parser_settings \<Rightarrow> char list \<Rightarrow> nat \<Rightarrow> nat \<Rightarrow> 'w locals \<Rightarrow> ('w locals \<Rightarrow> 'w flow) \<Rightarrow> 'w flow"
  where
  "callback_header_field st buf q er l k =
    callback_data (header_field_mark l) (\<lambda>l. l\<lparr>header_field_mark := None\<rparr>)
      (on_header_field st) HPE_CB_header_field buf q er l k"

definition callback_header_value ::
  "'w http_parser_settings \<Rightarrow> char list \<Rightarrow> nat \<Rightarrow> nat \<Rightarrow> 'w locals \<Rightarrow> ('w locals \<Rightarrow> 'w flow) \<Rightarrow> 'w flow"
  where
  "callback_header_value st buf q er l k =
    callback_data (header_value_mark l) (\<lambda>l. l\<lparr>header_value_mark := None\<rparr>)
      (on_header_value st) HPE_CB_header_value buf q er l k"

definition callback_url ::
  "'w http_parser_settings \<Rightarrow> char list \<Rightarrow> nat \<Rightarrow> nat \<Rightarrow> 'w locals \<Rightarrow> ('w locals \<Rightarrow> 'w flow) \<Rightarrow> 'w flow"
  where
  "callback_url st buf q er l k =
    callback_data (url_mark l) (\<lambda>l. l\<lparr>url_mark := None\<rparr>) (on_url st) HPE_CB_url buf q er l k"

definition callback_body ::
  "'w http_parser_settings \<Rightarrow> char list \<Rightarrow> nat \<Rightarrow> nat \<Rightarrow> 'w locals \<Rightarrow> ('w locals \<Rightarrow> 'w flow) \<Rightarrow> 'w flow"
  where
  "callback_body st buf q er l k =
    callback_data (body_mark l) (\<lambda>l. l\<lparr>body_mark := None\<rparr>) (on_body st) HPE_CB_body buf q er l k"

definition callback_status ::
  "'w http_parser_settings \<Rightarrow> char list \<Rightarrow> nat \<Rightarrow> nat \<Rightarrow> 'w locals \<Rightarrow> ('w locals \<Rightarrow> 'w flow) \<Rightarrow> 'w flow"
  where
  "callback_status st buf q er l k =
    callback_data (status_mark l) (\<lambda>l. l\<lparr>status_mark := None\<rparr>)
      (on_status st) HPE_CB_status buf q er l k"

end
