(* ===== verification/Url_Chars.thy ===== *)
theory Url_Chars
  imports Http_Chars
begin

text \<open>
  The two byte-wise automata of the URL parser in \<open>http_parser.c\<close>: \<open>parse_url_char\<close>, which
  \<open>http_parser_execute\<close> shares with \<open>http_parser_parse_url\<close>, and \<open>http_parse_host_char\<close>.  A
  \<open>case\<close> that falls through is written with the cases it falls into.
\<close>

section \<open>The URL automaton\<close>

definition url_server_char :: "char \<Rightarrow> state" where
  "url_server_char ch =
    (if ch = CHR ''/'' then s_req_path
     else if ch = CHR ''?'' then s_req_query_string_start
     else if ch = CHR ''@'' then s_req_server_with_at
     else if IS_USERINFO_CHAR ch \<or> ch = CHR ''['' \<or> ch = CHR '']'' then s_req_server
     else s_dead)"

definition parse_url_char :: "state \<Rightarrow> char \<Rightarrow> state" where
  "parse_url_char s ch =
    (if ch = CHR '' '' \<or> ch = CR \<or> ch = LF then s_dead
     else if ch = TAB \<or> ch = FF then s_dead
     else if s = s_req_spaces_before_url then
       if ch = CHR ''/'' \<or> ch = CHR ''*'' then s_req_path
       else if IS_ALPHA ch then s_req_schema
       else s_dead
     else if s = s_req_schema then
       if IS_ALPHA ch then s
       else if ch = CHR '':'' then s_req_schema_slash
       else s_dead
     else if s = s_req_schema_slash then
       if ch = CHR ''/'' then s_req_schema_slash_slash else s_dead
     else if s = s_req_schema_slash_slash then
       if ch = CHR ''/'' then s_req_server_start else s_dead
     else if s = s_req_server_with_at then
       if ch = CHR ''@'' then s_dead else url_server_char ch
     else if s = s_req_server_start \<or> s = s_req_server then url_server_char ch
     else if s = s_req_path then
       if IS_URL_CHAR ch then s
       else if ch = CHR ''?'' then s_req_query_string_start
       else if ch = CHR ''#'' then s_req_fragment_start
       else s_dead
     else if s = s_req_query_string_start \<or> s = s_req_query_string then
       if IS_URL_CHAR ch then s_req_query_string
       else if ch = CHR ''?'' then s_req_query_string
       else if ch = CHR ''#'' then s_req_fragment_start
       else s_dead
     else if s = s_req_fragment_start then
       if IS_URL_CHAR ch then s_req_fragment
       else if ch = CHR ''?'' then s_req_fragment
       else if ch = CHR ''#'' then s
       else s_dead
     else if s = s_req_fragment then
       if IS_URL_CHAR ch then s
       else if ch = CHR ''?'' \<or> ch = CHR ''#'' then s
       else s_dead
     else s_dead)"

text \<open>The states in which \<open>http_parser_execute\<close> is inside a URL; its marks follow them.\<close>

definition url_states :: "state set" where
  "url_states = {s_req_path, s_req_schema, s_req_schema_slash, s_req_schema_slash_slash,
    s_req_server_start, s_req_server, s_req_server_with_at, s_req_query_string_start,
    s_req_query_string, s_req_fragment_start, s_req_fragment}"

lemma url_server_char_range: "url_server_char ch \<in> insert s_dead url_states"
  unfolding url_server_char_def by (intro if_in) (simp_all add: url_states_def)

lemma parse_url_char_range: "parse_url_char s ch \<in> insert s_dead url_states"
  unfolding parse_url_char_def
  by (intro if_in url_server_char_range) (simp_all add: url_states_def)

lemma parse_url_char_dead [simp]: "parse_url_char s_dead ch = s_dead"
  by (simp add: parse_url_char_def)

section \<open>The host automaton\<close>

datatype (plugins only: code size) http_host_state =
    s_http_host_dead | s_http_userinfo_start | s_http_userinfo | s_http_host_start
  | s_http_host_v6_start | s_http_host | s_http_host_v6 | s_http_host_v6_end
  | s_http_host_v6_zone_start | s_http_host_v6_zone | s_http_host_port_start | s_http_host_port

definition http_parse_host_char :: "http_host_state \<Rightarrow> char \<Rightarrow> http_host_state" where
  "http_parse_host_char s ch =
    (case s of
       s_http_userinfo_start \<Rightarrow>
         if ch = CHR ''@'' then s_http_host_start
         else if IS_USERINFO_CHAR ch then s_http_userinfo else s_http_host_dead
     | s_http_userinfo \<Rightarrow>
         if ch = CHR ''@'' then s_http_host_start
         else if IS_USERINFO_CHAR ch then s_http_userinfo else s_http_host_dead
     | s_http_host_start \<Rightarrow>
         if ch = CHR ''['' then s_http_host_v6_start
         else if IS_HOST_CHAR ch then s_http_host else s_http_host_dead
     | s_http_host \<Rightarrow>
         if IS_HOST_CHAR ch then s_http_host
         else if ch = CHR '':'' then s_http_host_port_start else s_http_host_dead
     | s_http_host_v6_end \<Rightarrow>
         if ch = CHR '':'' then s_http_host_port_start else s_http_host_dead
     | s_http_host_v6 \<Rightarrow>
         if ch = CHR '']'' then s_http_host_v6_end
         else if IS_HEX ch \<or> ch = CHR '':'' \<or> ch = CHR ''.'' then s_http_host_v6
         else if ch = CHR ''%'' then s_http_host_v6_zone_start else s_http_host_dead
     | s_http_host_v6_start \<Rightarrow>
         if IS_HEX ch \<or> ch = CHR '':'' \<or> ch = CHR ''.'' then s_http_host_v6
         else s_http_host_dead
     | s_http_host_v6_zone \<Rightarrow>
         if ch = CHR '']'' then s_http_host_v6_end
         else if IS_ALPHANUM ch \<or> ch = CHR ''%'' \<or> ch = CHR ''.'' \<or> ch = CHR ''-'' \<or>
                 ch = CHR ''_'' \<or> ch = CHR ''~'' then s_http_host_v6_zone
         else s_http_host_dead
     | s_http_host_v6_zone_start \<Rightarrow>
         if IS_ALPHANUM ch \<or> ch = CHR ''%'' \<or> ch = CHR ''.'' \<or> ch = CHR ''-'' \<or>
            ch = CHR ''_'' \<or> ch = CHR ''~'' then s_http_host_v6_zone
         else s_http_host_dead
     | s_http_host_port \<Rightarrow> if IS_NUM ch then s_http_host_port else s_http_host_dead
     | s_http_host_port_start \<Rightarrow> if IS_NUM ch then s_http_host_port else s_http_host_dead
     | s_http_host_dead \<Rightarrow> s_http_host_dead)"

end
