(* ===== verification/Start_Line.thy ===== *)
theory Start_Line
  imports Parser_Macros Url_Chars
begin

text \<open>
  The cases of the \<open>switch\<close> of \<open>http_parser_execute\<close> that read the first line of a message:
  the response line (from \<open>s_start_res\<close> to \<open>s_res_line_almost_done\<close>) and the request line (from
  \<open>s_start_req\<close> to \<open>s_req_line_almost_done\<close>), with the method matcher and the URL bytes.
\<close>

section \<open>Between messages\<close>

definition case_dead :: "'w locals \<Rightarrow> 'w flow" where
  [case_defs]: "case_dead l =
    (if cur_ch l = CR \<or> cur_ch l = LF then Break l else goto_error HPE_CLOSED_CONNECTION l)"

text \<open>The reset at the start of a message.\<close>

definition reset_message :: "'w locals \<Rightarrow> 'w locals" where
  [macro_defs]: "reset_message l = upd_parser (\<lambda>pr. pr\<lparr>flags := 0, content_length := ULLONG_MAX\<rparr>) l"

definition case_start_req_or_res :: "'w http_parser_settings \<Rightarrow> 'w locals \<Rightarrow> 'w flow" where
  [case_defs]: "case_start_req_or_res st l =
    (if cur_ch l = CR \<or> cur_ch l = LF then Break l
     else let l = reset_message l in
       if cur_ch l = CHR ''H'' then
         callback_notify (on_message_begin st) HPE_CB_message_begin (cur_p l + 1)
           (update_state s_res_or_resp_H l) Break
       else Reexecute (update_state s_start_req
              (upd_parser (\<lambda>pr. pr\<lparr>parser_type := HTTP_REQUEST\<rparr>) l)))"

definition case_res_or_resp_H :: "'w locals \<Rightarrow> 'w flow" where
  [case_defs]: "case_res_or_resp_H l =
    (if cur_ch l = CHR ''T'' then
       Break (update_state s_res_HT (upd_parser (\<lambda>pr. pr\<lparr>parser_type := HTTP_RESPONSE\<rparr>) l))
     else if cur_ch l \<noteq> CHR ''E'' then goto_error HPE_INVALID_CONSTANT l
     else Break (update_state s_req_method (upd_parser
            (\<lambda>pr. pr\<lparr>parser_type := HTTP_REQUEST, parser_method := HTTP_HEAD, index := 2\<rparr>) l)))"

section \<open>Response line\<close>

definition case_start_res :: "'w http_parser_settings \<Rightarrow> 'w locals \<Rightarrow> 'w flow" where
  [case_defs]: "case_start_res st l =
    (let l = reset_message l;
         begin_message = (\<lambda>l. callback_notify (on_message_begin st) HPE_CB_message_begin
                               (cur_p l + 1) l Break)
     in if cur_ch l = CHR ''H'' then begin_message (update_state s_res_H l)
        else if cur_ch l = CR \<or> cur_ch l = LF then begin_message l
        else goto_error HPE_INVALID_CONSTANT l)"

definition case_res_H :: "'w locals \<Rightarrow> 'w flow" where
  [case_defs]: "case_res_H l =
    strict_check (cur_ch l \<noteq> CHR ''T'') l (\<lambda>l. Break (update_state s_res_HT l))"

definition case_res_HT :: "'w locals \<Rightarrow> 'w flow" where
  [case_defs]: "case_res_HT l =
    strict_check (cur_ch l \<noteq> CHR ''T'') l (\<lambda>l. Break (update_state s_res_HTT l))"

definition case_res_HTT :: "'w locals \<Rightarrow> 'w flow" where
  [case_defs]: "case_res_HTT l =
    strict_check (cur_ch l \<noteq> CHR ''P'') l (\<lambda>l. Break (update_state s_res_HTTP l))"

definition case_res_HTTP :: "'w locals \<Rightarrow> 'w flow" where
  [case_defs]: "case_res_HTTP l =
    strict_check (cur_ch l \<noteq> CHR ''/'') l (\<lambda>l. Break (update_state s_res_http_major l))"

definition case_res_http_major :: "'w locals \<Rightarrow> 'w flow" where
  [case_defs]: "case_res_http_major l =
    (if \<not> IS_NUM (cur_ch l) then goto_error HPE_INVALID_VERSION l
     else Break (update_state s_res_http_dot
            (upd_parser (\<lambda>pr. pr\<lparr>http_major := of_nat (digit_val (cur_ch l))\<rparr>) l)))"

definition case_res_http_dot :: "'w locals \<Rightarrow> 'w flow" where
  [case_defs]: "case_res_http_dot l =
    (if cur_ch l \<noteq> CHR ''.'' then goto_error HPE_INVALID_VERSION l
     else Break (update_state s_res_http_minor l))"

definition case_res_http_minor :: "'w locals \<Rightarrow> 'w flow" where
  [case_defs]: "case_res_http_minor l =
    (if \<not> IS_NUM (cur_ch l) then goto_error HPE_INVALID_VERSION l
     else Break (update_state s_res_http_end
            (upd_parser (\<lambda>pr. pr\<lparr>http_minor := of_nat (digit_val (cur_ch l))\<rparr>) l)))"

definition case_res_http_end :: "'w locals \<Rightarrow> 'w flow" where
  [case_defs]: "case_res_http_end l =
    (if cur_ch l \<noteq> CHR '' '' then goto_error HPE_INVALID_VERSION l
     else Break (update_state s_res_first_status_code l))"

definition case_res_first_status_code :: "'w locals \<Rightarrow> 'w flow" where
  [case_defs]: "case_res_first_status_code l =
    (if \<not> IS_NUM (cur_ch l) then
       if cur_ch l = CHR '' '' then Break l else goto_error HPE_INVALID_STATUS l
     else Break (update_state s_res_status_code
            (upd_parser (\<lambda>pr. pr\<lparr>status_code := of_nat (digit_val (cur_ch l))\<rparr>) l)))"

definition case_res_status_code :: "'w locals \<Rightarrow> 'w flow" where
  [case_defs]: "case_res_status_code l =
    (if \<not> IS_NUM (cur_ch l) then
       if cur_ch l = CHR '' '' then Break (update_state s_res_status_start l)
       else if cur_ch l = CR \<or> cur_ch l = LF then Reexecute (update_state s_res_status_start l)
       else goto_error HPE_INVALID_STATUS l
     else
       let l' = upd_parser (\<lambda>pr. pr\<lparr>status_code :=
                  status_code pr * 10 + of_nat (digit_val (cur_ch l))\<rparr>) l
       in if unat (status_code (parser l')) > 999 then goto_error HPE_INVALID_STATUS l'
          else Break l')"

definition case_res_status_start :: "'w locals \<Rightarrow> 'w flow" where
  [case_defs]: "case_res_status_start l =
    (let l' = upd_parser (\<lambda>pr. pr\<lparr>index := 0\<rparr>) (update_state s_res_status (mark_status l))
     in if cur_ch l = CR \<or> cur_ch l = LF then Reexecute l' else Break l')"

definition case_res_status :: "'w http_parser_settings \<Rightarrow> char list \<Rightarrow> 'w locals \<Rightarrow> 'w flow" where
  [case_defs]: "case_res_status st buf l =
    (if cur_ch l = CR then
       callback_status st buf (cur_p l) (cur_p l + 1) (update_state s_res_line_almost_done l) Break
     else if cur_ch l = LF then
       callback_status st buf (cur_p l) (cur_p l + 1) (update_state s_header_field_start l) Break
     else Break l)"

definition case_res_line_almost_done :: "'w locals \<Rightarrow> 'w flow" where
  [case_defs]: "case_res_line_almost_done l =
    strict_check (cur_ch l \<noteq> LF) l (\<lambda>l. Break (update_state s_header_field_start l))"

section \<open>Method\<close>

text \<open>The first letter picks the method whose string is matched.\<close>

definition method_letters :: "(char \<times> http_method) list" where
  "method_letters = [
    (CHR ''A'', HTTP_ACL), (CHR ''B'', HTTP_BIND), (CHR ''C'', HTTP_CONNECT),
    (CHR ''D'', HTTP_DELETE), (CHR ''G'', HTTP_GET), (CHR ''H'', HTTP_HEAD),
    (CHR ''L'', HTTP_LOCK), (CHR ''M'', HTTP_MKCOL), (CHR ''N'', HTTP_NOTIFY),
    (CHR ''O'', HTTP_OPTIONS), (CHR ''P'', HTTP_POST), (CHR ''R'', HTTP_REPORT),
    (CHR ''S'', HTTP_SUBSCRIBE), (CHR ''T'', HTTP_TRACE), (CHR ''U'', HTTP_UNLOCK)]"

definition method_of_letter :: "char \<Rightarrow> http_method option" where
  "method_of_letter ch = map_of method_letters ch"

definition case_start_req :: "'w http_parser_settings \<Rightarrow> 'w locals \<Rightarrow> 'w flow" where
  [case_defs]: "case_start_req st l =
    (if cur_ch l = CR \<or> cur_ch l = LF then Break l
     else let l = reset_message l in
       if \<not> IS_ALPHA (cur_ch l) then goto_error HPE_INVALID_METHOD l
       else let l = upd_parser (\<lambda>pr. pr\<lparr>parser_method := HTTP_DELETE, index := 1\<rparr>) l in
         (case method_of_letter (cur_ch l) of
            None \<Rightarrow> goto_error HPE_INVALID_METHOD l
          | Some m \<Rightarrow>
              callback_notify (on_message_begin st) HPE_CB_message_begin (cur_p l + 1)
                (update_state s_req_method (upd_parser (\<lambda>pr. pr\<lparr>parser_method := m\<rparr>) l)) Break))"

text \<open>
  The \<open>switch\<close> on \<open>method << 16 | index << 8 | ch\<close>: the three parts do not overlap (the index has
  seven bits and \<open>ch\<close> is a capital letter or a dash), so it is a switch on the triple.
\<close>

definition method_switch :: "((http_method \<times> nat \<times> char) \<times> http_method) list" where
  "method_switch = [
    ((HTTP_POST, 1, CHR ''U''), HTTP_PUT),
    ((HTTP_POST, 1, CHR ''A''), HTTP_PATCH),
    ((HTTP_POST, 1, CHR ''R''), HTTP_PROPFIND),
    ((HTTP_PUT, 2, CHR ''R''), HTTP_PURGE),
    ((HTTP_CONNECT, 1, CHR ''H''), HTTP_CHECKOUT),
    ((HTTP_CONNECT, 2, CHR ''P''), HTTP_COPY),
    ((HTTP_MKCOL, 1, CHR ''O''), HTTP_MOVE),
    ((HTTP_MKCOL, 1, CHR ''E''), HTTP_MERGE),
    ((HTTP_MKCOL, 1, CHR ''-''), HTTP_MSEARCH),
    ((HTTP_MKCOL, 2, CHR ''A''), HTTP_MKACTIVITY),
    ((HTTP_MKCOL, 3, CHR ''A''), HTTP_MKCALENDAR),
    ((HTTP_SUBSCRIBE, 1, CHR ''E''), HTTP_SEARCH),
    ((HTTP_REPORT, 2, CHR ''B''), HTTP_REBIND),
    ((HTTP_PROPFIND, 4, CHR ''P''), HTTP_PROPPATCH),
    ((HTTP_LOCK, 1, CHR ''I''), HTTP_LINK),
    ((HTTP_UNLOCK, 2, CHR ''S''), HTTP_UNSUBSCRIBE),
    ((HTTP_UNLOCK, 2, CHR ''B''), HTTP_UNBIND),
    ((HTTP_UNLOCK, 3, CHR ''I''), HTTP_UNLINK)]"

definition case_req_method :: "'w locals \<Rightarrow> 'w flow" where
  [case_defs]: "case_req_method l =
    (let ch = cur_ch l; pr = parser l;
         matcher = method_strings ! method_num (parser_method pr);
         i = unat (index pr);
         next_index = upd_parser (\<lambda>pr. pr\<lparr>index := index pr + 1\<rparr>)
     in if ch = NUL then goto_error HPE_INVALID_METHOD l
        else if i > length matcher then Abort
        else if ch = CHR '' '' \<and> cstr_at matcher i = NUL then
          Break (next_index (update_state s_req_spaces_before_url l))
        else if ch = cstr_at matcher i then Break (next_index l)
        else if byte ch \<ge> (65::nat) \<and> byte ch \<le> (90::nat) \<or> ch = CHR ''-'' then
          (case map_of method_switch (parser_method pr, i, ch) of
             Some m \<Rightarrow> Break (next_index (upd_parser (\<lambda>pr. pr\<lparr>parser_method := m\<rparr>) l))
           | None \<Rightarrow> goto_error HPE_INVALID_METHOD l)
        else goto_error HPE_INVALID_METHOD l)"

section \<open>URL\<close>

text \<open>\<open>UPDATE_STATE(parse_url_char(CURRENT_STATE(), ch))\<close> and the check that follows it.\<close>

definition url_step :: "'w locals \<Rightarrow> 'w flow" where
  [case_defs]: "url_step l =
    (let l' = update_state (parse_url_char (p_state l) (cur_ch l)) l
     in if p_state l' = s_dead then goto_error HPE_INVALID_URL l' else Break l')"

definition case_req_spaces_before_url :: "'w locals \<Rightarrow> 'w flow" where
  [case_defs]: "case_req_spaces_before_url l =
    (if cur_ch l = CHR '' '' then Break l
     else let l = mark_url l in
       url_step (if parser_method (parser l) = HTTP_CONNECT
                 then update_state s_req_server_start l else l))"

definition case_req_schema :: "'w locals \<Rightarrow> 'w flow" where
  [case_defs]: "case_req_schema l =
    (if cur_ch l = CHR '' '' \<or> cur_ch l = CR \<or> cur_ch l = LF
     then goto_error HPE_INVALID_URL l else url_step l)"

definition case_req_url :: "'w http_parser_settings \<Rightarrow> char list \<Rightarrow> 'w locals \<Rightarrow> 'w flow" where
  [case_defs]: "case_req_url st buf l =
    (if cur_ch l = CHR '' '' then
       callback_url st buf (cur_p l) (cur_p l + 1) (update_state s_req_http_start l) Break
     else if cur_ch l = CR \<or> cur_ch l = LF then
       callback_url st buf (cur_p l) (cur_p l + 1)
         (update_state (if cur_ch l = CR then s_req_line_almost_done else s_header_field_start)
           (upd_parser (\<lambda>pr. pr\<lparr>http_major := 0, http_minor := 9\<rparr>) l)) Break
     else url_step l)"

section \<open>Request version\<close>

definition case_req_http_start :: "'w locals \<Rightarrow> 'w flow" where
  [case_defs]: "case_req_http_start l =
    (if cur_ch l = CHR ''H'' then Break (update_state s_req_http_H l)
     else if cur_ch l = CHR '' '' then Break l
     else goto_error HPE_INVALID_CONSTANT l)"

definition case_req_http_H :: "'w locals \<Rightarrow> 'w flow" where
  [case_defs]: "case_req_http_H l =
    strict_check (cur_ch l \<noteq> CHR ''T'') l (\<lambda>l. Break (update_state s_req_http_HT l))"

definition case_req_http_HT :: "'w locals \<Rightarrow> 'w flow" where
  [case_defs]: "case_req_http_HT l =
    strict_check (cur_ch l \<noteq> CHR ''T'') l (\<lambda>l. Break (update_state s_req_http_HTT l))"

definition case_req_http_HTT :: "'w locals \<Rightarrow> 'w flow" where
  [case_defs]: "case_req_http_HTT l =
    strict_check (cur_ch l \<noteq> CHR ''P'') l (\<lambda>l. Break (update_state s_req_http_HTTP l))"

definition case_req_http_HTTP :: "'w locals \<Rightarrow> 'w flow" where
  [case_defs]: "case_req_http_HTTP l =
    strict_check (cur_ch l \<noteq> CHR ''/'') l (\<lambda>l. Break (update_state s_req_http_major l))"

definition case_req_http_major :: "'w locals \<Rightarrow> 'w flow" where
  [case_defs]: "case_req_http_major l =
    (if \<not> IS_NUM (cur_ch l) then goto_error HPE_INVALID_VERSION l
     else Break (update_state s_req_http_dot
            (upd_parser (\<lambda>pr. pr\<lparr>http_major := of_nat (digit_val (cur_ch l))\<rparr>) l)))"

definition case_req_http_dot :: "'w locals \<Rightarrow> 'w flow" where
  [case_defs]: "case_req_http_dot l =
    (if cur_ch l \<noteq> CHR ''.'' then goto_error HPE_INVALID_VERSION l
     else Break (update_state s_req_http_minor l))"

definition case_req_http_minor :: "'w locals \<Rightarrow> 'w flow" where
  [case_defs]: "case_req_http_minor l =
    (if \<not> IS_NUM (cur_ch l) then goto_error HPE_INVALID_VERSION l
     else Break (update_state s_req_http_end
            (upd_parser (\<lambda>pr. pr\<lparr>http_minor := of_nat (digit_val (cur_ch l))\<rparr>) l)))"

definition case_req_http_end :: "'w locals \<Rightarrow> 'w flow" where
  [case_defs]: "case_req_http_end l =
    (if cur_ch l = CR then Break (update_state s_req_line_almost_done l)
     else if cur_ch l = LF then Break (update_state s_header_field_start l)
     else goto_error HPE_INVALID_VERSION l)"

definition case_req_line_almost_done :: "'w locals \<Rightarrow> 'w flow" where
  [case_defs]: "case_req_line_almost_done l =
    (if cur_ch l \<noteq> LF then goto_error HPE_LF_EXPECTED l
     else Break (update_state s_header_field_start l))"

end
