(* ===== verification/Header_Lines.thy ===== *)
theory Header_Lines
  imports Parser_Macros
begin

text \<open>
  The cases of the \<open>switch\<close> of \<open>http_parser_execute\<close> that read header lines, from
  \<open>s_header_field_start\<close> to \<open>s_header_value_lws\<close>.  The two inner \<open>for\<close> loops (\<open>s_header_field\<close>,
  \<open>s_header_value\<close>) are functions on the rest of the buffer that return how far they went.
\<close>

section \<open>Field names\<close>

text \<open>\<open>PROXY_CONNECTION\<close> and its siblings.\<close>

definition CONNECTION :: string where "CONNECTION = ''connection''"
definition PROXY_CONNECTION :: string where "PROXY_CONNECTION = ''proxy-connection''"
definition CONTENT_LENGTH :: string where "CONTENT_LENGTH = ''content-length''"
definition TRANSFER_ENCODING :: string where "TRANSFER_ENCODING = ''transfer-encoding''"
definition UPGRADE :: string where "UPGRADE = ''upgrade''"
definition CHUNKED :: string where "CHUNKED = ''chunked''"
definition KEEP_ALIVE :: string where "KEEP_ALIVE = ''keep-alive''"
definition CLOSE :: string where "CLOSE = ''close''"

text \<open>
  One step of a matcher, for the string \<open>s\<close> and the index already advanced to \<open>i\<close>:
  \<open>sizeof(s) - 1\<close> is \<open>length s\<close>.
\<close>

definition match_step ::
  "string \<Rightarrow> nat \<Rightarrow> char \<Rightarrow> header_states \<Rightarrow> header_states \<Rightarrow> header_states \<Rightarrow> header_states" where
  "match_step s i c failed finished current =
    (if i > length s \<or> c \<noteq> cstr_at s i then failed
     else if i = length s - 1 then finished else current)"

definition case_header_field_start :: "'w locals \<Rightarrow> 'w flow" where
  [case_defs]: "case_header_field_start l =
    (if cur_ch l = CR then Break (update_state s_headers_almost_done l)
     else if cur_ch l = LF then Reexecute (update_state s_headers_almost_done l)
     else let c = TOKEN (cur_ch l) in
       if c = NUL then goto_error HPE_INVALID_HEADER_TOKEN l
       else Break (upd_parser (\<lambda>pr. pr\<lparr>index := 0, header_state :=
              (if c = CHR ''c'' then h_C
               else if c = CHR ''p'' then h_matching_proxy_connection
               else if c = CHR ''t'' then h_matching_transfer_encoding
               else if c = CHR ''u'' then h_matching_upgrade
               else h_general)\<rparr>)
              (update_state s_header_field (mark_header_field l))))"

text \<open>
  The \<open>switch\<close> on \<open>parser->header_state\<close> for one byte \<open>ch\<close> whose token is \<open>c\<close>; \<open>None\<close> is the failed
  assertion of its default case.
\<close>

definition header_field_char :: "http_parser \<Rightarrow> char \<Rightarrow> char \<Rightarrow> http_parser option" where
  "header_field_char pr ch c =
    (let pr' = pr\<lparr>index := index pr + 1\<rparr>; i = unat (index pr');
         matching = (\<lambda>s finished. Some (pr'\<lparr>header_state :=
                       match_step s i c h_general finished (header_state pr)\<rparr>))
     in case header_state pr of
          h_general \<Rightarrow> Some pr
        | h_C \<Rightarrow> Some (pr'\<lparr>header_state := (if c = CHR ''o'' then h_CO else h_general)\<rparr>)
        | h_CO \<Rightarrow> Some (pr'\<lparr>header_state := (if c = CHR ''n'' then h_CON else h_general)\<rparr>)
        | h_CON \<Rightarrow> Some (pr'\<lparr>header_state :=
             (if c = CHR ''n'' then h_matching_connection
              else if c = CHR ''t'' then h_matching_content_length else h_general)\<rparr>)
        | h_matching_connection \<Rightarrow> matching CONNECTION h_connection
        | h_matching_proxy_connection \<Rightarrow> matching PROXY_CONNECTION h_connection
        | h_matching_content_length \<Rightarrow> matching CONTENT_LENGTH h_content_length
        | h_matching_transfer_encoding \<Rightarrow> matching TRANSFER_ENCODING h_transfer_encoding
        | h_matching_upgrade \<Rightarrow> matching UPGRADE h_upgrade
        | h_connection \<Rightarrow> Some (if ch \<noteq> CHR '' '' then pr\<lparr>header_state := h_general\<rparr> else pr)
        | h_content_length \<Rightarrow> Some (if ch \<noteq> CHR '' '' then pr\<lparr>header_state := h_general\<rparr> else pr)
        | h_transfer_encoding \<Rightarrow> Some (if ch \<noteq> CHR '' '' then pr\<lparr>header_state := h_general\<rparr> else pr)
        | h_upgrade \<Rightarrow> Some (if ch \<noteq> CHR '' '' then pr\<lparr>header_state := h_general\<rparr> else pr)
        | _ \<Rightarrow> None)"

text \<open>
  The loop from \<open>p\<close> on: the parser, the last byte read and the number of bytes passed; it stops at
  the end of the buffer or at a byte that is no token.
\<close>

fun header_field_loop ::
  "http_parser \<Rightarrow> char \<Rightarrow> char list \<Rightarrow> nat \<Rightarrow> (http_parser \<times> char \<times> nat) option" where
  "header_field_loop pr ch [] n = Some (pr, ch, n)"
| "header_field_loop pr ch (x # xs) n =
    (if TOKEN x = NUL then Some (pr, x, n)
     else case header_field_char pr x (TOKEN x) of
       None \<Rightarrow> None
     | Some pr' \<Rightarrow> header_field_loop pr' x xs (Suc n))"

definition case_header_field :: "'w http_parser_settings \<Rightarrow> char list \<Rightarrow> 'w locals \<Rightarrow> 'w flow" where
  [case_defs]: "case_header_field st buf l =
    (case header_field_loop (parser l) (cur_ch l) (drop (cur_p l) buf) 0 of
       None \<Rightarrow> Abort
     | Some (pr, ch, n) \<Rightarrow>
         count_header_size n (l\<lparr>parser := pr, cur_ch := ch, cur_p := cur_p l + n\<rparr>)
           (\<lambda>l. if cur_p l = length buf then Break (l\<lparr>cur_p := cur_p l - 1\<rparr>)
                else if cur_ch l = CHR '':'' then
                  callback_header_field st buf (cur_p l) (cur_p l + 1)
                    (update_state s_header_value_discard_ws l) Break
                else goto_error HPE_INVALID_HEADER_TOKEN l))"

section \<open>Start of a value\<close>

definition case_header_value_start :: "'w locals \<Rightarrow> 'w flow" where
  [case_defs]: "case_header_value_start l =
    (let l = upd_parser (\<lambda>pr. pr\<lparr>index := 0\<rparr>) (update_state s_header_value (mark_header_value l));
         ch = cur_ch l; c = LOWER ch; pr = parser l;
         set_hs = (\<lambda>h. Break (upd_parser (\<lambda>pr. pr\<lparr>header_state := h\<rparr>) l))
     in case header_state pr of
          h_upgrade \<Rightarrow> Break (upd_parser
             (\<lambda>pr. pr\<lparr>flags := flags pr OR F_UPGRADE, header_state := h_general\<rparr>) l)
        | h_transfer_encoding \<Rightarrow>
            set_hs (if c = CHR ''c'' then h_matching_transfer_encoding_chunked else h_general)
        | h_content_length \<Rightarrow>
            if \<not> IS_NUM ch then goto_error HPE_INVALID_CONTENT_LENGTH l
            else if has_flag (flags pr) F_CONTENTLENGTH then
              goto_error HPE_UNEXPECTED_CONTENT_LENGTH l
            else Break (upd_parser (\<lambda>pr. pr\<lparr>flags := flags pr OR F_CONTENTLENGTH,
                                             content_length := of_nat (digit_val ch)\<rparr>) l)
        | h_connection \<Rightarrow>
            set_hs (if c = CHR ''k'' then h_matching_connection_keep_alive
                    else if c = CHR ''c'' then h_matching_connection_close
                    else if c = CHR ''u'' then h_matching_connection_upgrade
                    else h_matching_connection_token)
        | h_matching_connection_token_start \<Rightarrow> Break l
        | _ \<Rightarrow> set_hs h_general)"

definition case_header_value_discard_ws :: "'w locals \<Rightarrow> 'w flow" where
  [case_defs]: "case_header_value_discard_ws l =
    (if cur_ch l = CHR '' '' \<or> cur_ch l = TAB then Break l
     else if cur_ch l = CR then Break (update_state s_header_value_discard_ws_almost_done l)
     else if cur_ch l = LF then Break (update_state s_header_value_discard_lws l)
     else case_header_value_start l)"

section \<open>Values\<close>

text \<open>\<open>memchr(p, c, n)\<close>, as an offset from \<open>p\<close>.\<close>

definition memchr :: "char \<Rightarrow> char list \<Rightarrow> nat option" where
  "memchr c xs = (if c \<in> set xs then Some (length (takeWhile (\<lambda>x. x \<noteq> c) xs)) else None)"

text \<open>
  The fast path of \<open>h_general\<close>: how far \<open>p\<close> moves, the \<open>--p\<close> and the \<open>p++\<close> of the loop cancelling.
\<close>

definition general_skip :: "char list \<Rightarrow> nat" where
  "general_skip rest =
    (let window = take (min (length rest) HTTP_MAX_HEADER_SIZE) rest
     in case memchr CR window of
          Some cr \<Rightarrow> (case memchr LF window of
                        Some lf \<Rightarrow> if cr \<ge> lf then lf else cr
                      | None \<Rightarrow> cr)
        | None \<Rightarrow> (case memchr LF window of Some lf \<Rightarrow> lf | None \<Rightarrow> length rest))"

text \<open>
  How one byte of a value ends: the next byte with the new parser and \<open>h_state\<close>, an error (with
  \<open>h_state\<close> stored back), or a failed assertion.
\<close>

datatype value_step =
    Next_byte http_parser header_states
  | Value_error http_errno
  | Value_assert

definition decimal_step :: "http_parser \<Rightarrow> header_states \<Rightarrow> char \<Rightarrow> value_step" where
  "decimal_step pr h_state ch =
    (if ch = CHR '' '' then Next_byte pr h_state
     else if \<not> IS_NUM ch then Value_error HPE_INVALID_CONTENT_LENGTH
     else let t = content_length pr * 10 + of_nat (digit_val ch)
       in if (ULLONG_MAX - 10) div 10 < content_length pr
          then Value_error HPE_INVALID_CONTENT_LENGTH
          else Next_byte (pr\<lparr>content_length := t\<rparr>) h_state)"

definition connection_token_start :: "char \<Rightarrow> header_states" where
  "connection_token_start c =
    (if c = CHR ''k'' then h_matching_connection_keep_alive
     else if c = CHR ''c'' then h_matching_connection_close
     else if c = CHR ''u'' then h_matching_connection_upgrade
     else if STRICT_TOKEN c \<noteq> NUL then h_matching_connection_token
     else if c = CHR '' '' \<or> c = TAB then h_matching_connection_token_start
     else h_general)"

text \<open>The flag of a \<open>Connection\<close> option that has been read to its end.\<close>

definition connection_flag :: "header_states \<Rightarrow> 8 word" where
  "connection_flag h =
    (if h = h_connection_keep_alive then F_CONNECTION_KEEP_ALIVE
     else if h = h_connection_close then F_CONNECTION_CLOSE
     else if h = h_connection_upgrade then F_CONNECTION_UPGRADE else 0)"

text \<open>The \<open>switch\<close> on \<open>h_state\<close>, but for its \<open>h_general\<close> case, which moves \<open>p\<close>.  (Its default
  case also writes \<open>s_header_value\<close> to \<open>p_state\<close>, which holds it already.)\<close>

definition header_value_char :: "http_parser \<Rightarrow> header_states \<Rightarrow> char \<Rightarrow> value_step" where
  "header_value_char pr h_state ch =
    (let c = LOWER ch;
         pr' = pr\<lparr>index := index pr + 1\<rparr>; i = unat (index pr');
         matching = (\<lambda>s failed finished.
           Next_byte pr' (match_step s i c failed finished h_state));
         option_end =
           (if ch = CHR '','' then
              Next_byte (pr\<lparr>flags := flags pr OR connection_flag h_state, index := 0\<rparr>)
                h_matching_connection_token_start
            else Next_byte pr (if ch \<noteq> CHR '' '' then h_matching_connection_token else h_state))
     in case h_state of
          h_connection \<Rightarrow> Value_assert
        | h_transfer_encoding \<Rightarrow> Value_assert
        | h_content_length \<Rightarrow> decimal_step pr h_state ch
        | h_matching_transfer_encoding_chunked \<Rightarrow>
            matching CHUNKED h_general h_transfer_encoding_chunked
        | h_matching_connection_token_start \<Rightarrow> Next_byte pr (connection_token_start c)
        | h_matching_connection_keep_alive \<Rightarrow>
            matching KEEP_ALIVE h_matching_connection_token h_connection_keep_alive
        | h_matching_connection_close \<Rightarrow>
            matching CLOSE h_matching_connection_token h_connection_close
        | h_matching_connection_upgrade \<Rightarrow>
            matching UPGRADE h_matching_connection_token h_connection_upgrade
        | h_matching_connection_token \<Rightarrow>
            if ch = CHR '','' then
              Next_byte (pr\<lparr>index := 0\<rparr>) h_matching_connection_token_start
            else Next_byte pr h_state
        | h_transfer_encoding_chunked \<Rightarrow>
            Next_byte pr (if ch \<noteq> CHR '' '' then h_general else h_state)
        | h_connection_keep_alive \<Rightarrow> option_end
        | h_connection_close \<Rightarrow> option_end
        | h_connection_upgrade \<Rightarrow> option_end
        | _ \<Rightarrow> Next_byte pr h_general)"

lemma memchr_hd: "x \<noteq> c \<Longrightarrow> memchr c (x # xs) = Some k \<Longrightarrow> 0 < k"
  by (auto simp: memchr_def split: if_splits)

lemma general_skip_pos: "x \<noteq> CR \<Longrightarrow> x \<noteq> LF \<Longrightarrow> 0 < general_skip (x # xs)"
proof -
  assume x: "x \<noteq> CR" "x \<noteq> LF"
  define window where "window = take (min (length xs) (HTTP_MAX_HEADER_SIZE - 1)) xs"
  have w: "take (min (length (x # xs)) HTTP_MAX_HEADER_SIZE) (x # xs) = x # window"
    unfolding window_def HTTP_MAX_HEADER_SIZE_def by (simp add: take_Cons' min_def)
  show ?thesis
    unfolding general_skip_def Let_def w
    using memchr_hd [OF x(1), of window] memchr_hd [OF x(2), of window]
    by (auto split: option.splits)
qed

text \<open>How the loop over a value stops, with the parser, \<open>h_state\<close>, \<open>ch\<close> and the bytes passed.\<close>

datatype value_stop = Stop_end | Stop_CR | Stop_LF | Stop_bad_char | Stop_error http_errno | Stop_assert

function header_value_loop ::
  "bool \<Rightarrow> http_parser \<Rightarrow> header_states \<Rightarrow> char \<Rightarrow> char list \<Rightarrow> nat \<Rightarrow>
    value_stop \<times> http_parser \<times> header_states \<times> char \<times> nat" where
  "header_value_loop lnt pr h_state ch [] n = (Stop_end, pr, h_state, ch, n)"
| "header_value_loop lnt pr h_state ch (x # xs) n =
    (if x = CR then (Stop_CR, pr, h_state, x, n)
     else if x = LF then (Stop_LF, pr, h_state, x, n)
     else if \<not> lnt \<and> \<not> IS_HEADER_CHAR x then (Stop_bad_char, pr, h_state, x, n)
     else if h_state = h_general then
       header_value_loop lnt pr h_state x (drop (general_skip (x # xs)) (x # xs))
         (n + general_skip (x # xs))
     else case header_value_char pr h_state x of
         Next_byte pr' h' \<Rightarrow> header_value_loop lnt pr' h' x xs (Suc n)
       | Value_error e \<Rightarrow> (Stop_error e, pr, h_state, x, n)
       | Value_assert \<Rightarrow> (Stop_assert, pr, h_state, x, n))"
  by pat_completeness auto
termination
  by (relation "measure (\<lambda>(lnt, pr, h, ch, xs, n). length xs)") (simp_all add: general_skip_pos)

definition case_header_value :: "'w http_parser_settings \<Rightarrow> char list \<Rightarrow> 'w locals \<Rightarrow> 'w flow" where
  [case_defs]: "case_header_value st buf l =
    (case header_value_loop (lenient l) (parser l) (header_state (parser l)) (cur_ch l)
            (drop (cur_p l) buf) 0 of
       (stop, pr, h_state, ch, n) \<Rightarrow>
         let l' = l\<lparr>parser := pr, cur_ch := ch, cur_p := cur_p l + n\<rparr>;
             save = upd_parser (\<lambda>pr. pr\<lparr>header_state := h_state\<rparr>);
             after_loop = (\<lambda>l. count_header_size n (save l)
               (\<lambda>l. Break (if cur_p l = length buf then l\<lparr>cur_p := cur_p l - 1\<rparr> else l)))
         in (case stop of
              Stop_CR \<Rightarrow>
                callback_header_value st buf (cur_p l') (cur_p l' + 1)
                  (save (update_state s_header_almost_done l')) after_loop
            | Stop_LF \<Rightarrow>
                count_header_size n (update_state s_header_almost_done l')
                  (\<lambda>l. callback_header_value st buf (cur_p l) (cur_p l) (save l) Reexecute)
            | Stop_bad_char \<Rightarrow> goto_error HPE_INVALID_HEADER_TOKEN l'
            | Stop_error e \<Rightarrow> Goto_error (save (set_errno e l'))
            | Stop_assert \<Rightarrow> Abort
            | Stop_end \<Rightarrow> after_loop l'))"

section \<open>End of a value\<close>

definition case_header_almost_done :: "'w locals \<Rightarrow> 'w flow" where
  [case_defs]: "case_header_almost_done l =
    (if cur_ch l \<noteq> LF then goto_error HPE_LF_EXPECTED l
     else Break (update_state s_header_value_lws l))"

text \<open>The \<open>switch\<close> that turns the header state at the end of a header into a flag.\<close>

definition finish_header :: "http_parser \<Rightarrow> http_parser" where
  "finish_header pr =
    (case header_state pr of
       h_connection_keep_alive \<Rightarrow> pr\<lparr>flags := flags pr OR F_CONNECTION_KEEP_ALIVE\<rparr>
     | h_connection_close \<Rightarrow> pr\<lparr>flags := flags pr OR F_CONNECTION_CLOSE\<rparr>
     | h_transfer_encoding_chunked \<Rightarrow> pr\<lparr>flags := flags pr OR F_CHUNKED\<rparr>
     | h_connection_upgrade \<Rightarrow> pr\<lparr>flags := flags pr OR F_CONNECTION_UPGRADE\<rparr>
     | _ \<Rightarrow> pr)"

definition case_header_value_lws :: "'w locals \<Rightarrow> 'w flow" where
  [case_defs]: "case_header_value_lws l =
    (if cur_ch l = CHR '' '' \<or> cur_ch l = TAB then Reexecute (update_state s_header_value_start l)
     else Reexecute (update_state s_header_field_start (upd_parser finish_header l)))"

definition case_header_value_discard_ws_almost_done :: "'w locals \<Rightarrow> 'w flow" where
  [case_defs]: "case_header_value_discard_ws_almost_done l =
    strict_check (cur_ch l \<noteq> LF) l (\<lambda>l. Break (update_state s_header_value_discard_lws l))"

definition case_header_value_discard_lws ::
  "'w http_parser_settings \<Rightarrow> char list \<Rightarrow> 'w locals \<Rightarrow> 'w flow" where
  [case_defs]: "case_header_value_discard_lws st buf l =
    (if cur_ch l = CHR '' '' \<or> cur_ch l = TAB then
       Break (update_state s_header_value_discard_ws l)
     else callback_header_value st buf (cur_p l) (cur_p l)
            (update_state s_header_field_start (mark_header_value (upd_parser finish_header l)))
            Reexecute)"

end
