(* ===== verification/Message_Body.thy ===== *)
theory Message_Body
  imports Parser_Macros
begin

text \<open>
  The cases of the \<open>switch\<close> of \<open>http_parser_execute\<close> from the end of the headers on: the decision
  how the body is framed (\<open>s_headers_almost_done\<close>, \<open>s_headers_done\<close>), bodies with a length or up to
  the end of the stream, chunks, and the end of a message.
\<close>

section \<open>End of the headers\<close>

text \<open>
  \<open>on_headers_complete\<close> is called without storing the state first, and its result is read by a
  \<open>switch\<close> of its own.
\<close>

definition call_headers_complete :: "'w http_parser_settings \<Rightarrow> 'w locals \<Rightarrow> 'w flow" where
  [macro_defs]: "call_headers_complete st l =
    (let finish = (\<lambda>l. if http_errno (parser l) \<noteq> HPE_OK then do_return (cur_p l) l else Reexecute l);
         skip_body = upd_parser (\<lambda>pr. pr\<lparr>flags := flags pr OR F_SKIPBODY\<rparr>)
     in (case on_headers_complete st of
           None \<Rightarrow> finish l
         | Some f \<Rightarrow>
             (case f (parser l) (app l) of
                (r, pr, w) \<Rightarrow>
                  let l' = l\<lparr>parser := pr, app := w\<rparr>
                  in if r = 0 then finish l'
                     else if r = 2 then finish (skip_body (upd_parser (\<lambda>pr. pr\<lparr>upgrade := True\<rparr>) l'))
                     else if r = 1 then finish (skip_body l')
                     else do_return (cur_p l') (set_errno HPE_CB_headers_complete l'))))"

definition case_headers_almost_done :: "'w http_parser_settings \<Rightarrow> 'w locals \<Rightarrow> 'w flow" where
  [case_defs]: "case_headers_almost_done st l =
    strict_check (cur_ch l \<noteq> LF) l (\<lambda>l.
      let pr = parser l in
      if has_flag (flags pr) F_TRAILING then
        callback_notify (on_chunk_complete st) HPE_CB_chunk_complete (cur_p l)
          (update_state s_message_done l) Reexecute
      else if has_flag (flags pr) F_CHUNKED \<and> has_flag (flags pr) F_CONTENTLENGTH then
        goto_error HPE_UNEXPECTED_CONTENT_LENGTH l
      else
        call_headers_complete st
          (upd_parser (\<lambda>pr. pr\<lparr>upgrade :=
              (if has_flag (flags pr) F_UPGRADE \<and> has_flag (flags pr) F_CONNECTION_UPGRADE
               then parser_type pr = HTTP_REQUEST \<or> status_code pr = 101
               else parser_method pr = HTTP_CONNECT)\<rparr>)
            (update_state s_headers_done l)))"

text \<open>\<open>UPDATE_STATE(NEW_MESSAGE()); CALLBACK_NOTIFY(message_complete);\<close>, followed by \<open>k\<close>.\<close>

definition message_complete ::
  "'w http_parser_settings \<Rightarrow> 'w locals \<Rightarrow> ('w locals \<Rightarrow> 'w flow) \<Rightarrow> 'w flow" where
  [macro_defs]: "message_complete st l k =
    callback_notify (on_message_complete st) HPE_CB_message_complete (cur_p l + 1)
      (update_state (NEW_MESSAGE (parser l)) l) k"

definition case_headers_done :: "'w http_parser_settings \<Rightarrow> 'w locals \<Rightarrow> 'w flow" where
  [case_defs]: "case_headers_done st l =
    strict_check (cur_ch l \<noteq> LF) l (\<lambda>l.
      let l = upd_parser (\<lambda>pr. pr\<lparr>nread := 0\<rparr>) l;
          pr = parser l;
          hasBody = (has_flag (flags pr) F_CHUNKED \<or>
                     content_length pr > 0 \<and> content_length pr \<noteq> ULLONG_MAX)
      in if upgrade pr \<and>
            (parser_method pr = HTTP_CONNECT \<or> has_flag (flags pr) F_SKIPBODY \<or> \<not> hasBody)
         then message_complete st l (\<lambda>l. do_return (cur_p l + 1) l)
         else if has_flag (flags pr) F_SKIPBODY then message_complete st l Break
         else if has_flag (flags pr) F_CHUNKED then Break (update_state s_chunk_size_start l)
         else if content_length pr = 0 then message_complete st l Break
         else if content_length pr \<noteq> ULLONG_MAX then Break (update_state s_body_identity l)
         else if \<not> http_message_needs_eof pr then message_complete st l Break
         else Break (update_state s_body_identity_eof l))"

section \<open>Bodies\<close>

text \<open>\<open>MIN(parser->content_length, (uint64_t) ((data + len) - p))\<close>.\<close>

definition to_read :: "char list \<Rightarrow> 'w locals \<Rightarrow> 64 word" where
  "to_read buf l = min (content_length (parser l)) (of_nat (length buf - cur_p l))"

text \<open>\<open>MARK(body); parser->content_length -= to_read; p += to_read - 1;\<close>\<close>

definition take_body :: "char list \<Rightarrow> 'w locals \<Rightarrow> 'w locals" where
  [macro_defs]: "take_body buf l =
    (let n = to_read buf l;
         l' = upd_parser (\<lambda>pr. pr\<lparr>content_length := content_length pr - n\<rparr>) (mark_body l)
     in l'\<lparr>cur_p := cur_p l' + unat n - 1\<rparr>)"

definition case_body_identity :: "'w http_parser_settings \<Rightarrow> char list \<Rightarrow> 'w locals \<Rightarrow> 'w flow" where
  [case_defs]: "case_body_identity st buf l =
    (if content_length (parser l) = 0 \<or> content_length (parser l) = ULLONG_MAX then Abort
     else let l' = take_body buf l in
       if content_length (parser l') = 0 then
         callback_body st buf (cur_p l' + 1) (cur_p l') (update_state s_message_done l') Reexecute
       else Break l')"

definition case_body_identity_eof :: "char list \<Rightarrow> 'w locals \<Rightarrow> 'w flow" where
  [case_defs]: "case_body_identity_eof buf l = Break ((mark_body l)\<lparr>cur_p := length buf - 1\<rparr>)"

definition case_message_done :: "'w http_parser_settings \<Rightarrow> 'w locals \<Rightarrow> 'w flow" where
  [case_defs]: "case_message_done st l =
    message_complete st l
      (\<lambda>l. if upgrade (parser l) then do_return (cur_p l + 1) l else Break l)"

section \<open>Chunks\<close>

definition case_chunk_size_start :: "'w locals \<Rightarrow> 'w flow" where
  [case_defs]: "case_chunk_size_start l =
    (let pr = parser l; unhex_val = unhex ! byte (cur_ch l)
     in if nread pr \<noteq> 1 \<or> \<not> has_flag (flags pr) F_CHUNKED then Abort
        else if unhex_val = - 1 then goto_error HPE_INVALID_CHUNK_SIZE l
        else Break (update_state s_chunk_size
               (upd_parser (\<lambda>pr. pr\<lparr>content_length := of_int unhex_val\<rparr>) l)))"

definition case_chunk_size :: "'w locals \<Rightarrow> 'w flow" where
  [case_defs]: "case_chunk_size l =
    (let pr = parser l; ch = cur_ch l; unhex_val = unhex ! byte ch
     in if \<not> has_flag (flags pr) F_CHUNKED then Abort
        else if ch = CR then Break (update_state s_chunk_size_almost_done l)
        else if unhex_val = - 1 then
          if ch = CHR '';'' \<or> ch = CHR '' '' then Break (update_state s_chunk_parameters l)
          else goto_error HPE_INVALID_CHUNK_SIZE l
        else let t = content_length pr * 16 + of_int unhex_val
          in if (ULLONG_MAX - 16) div 16 < content_length pr
             then goto_error HPE_INVALID_CONTENT_LENGTH l
             else Break (upd_parser (\<lambda>pr. pr\<lparr>content_length := t\<rparr>) l))"

definition case_chunk_parameters :: "'w locals \<Rightarrow> 'w flow" where
  [case_defs]: "case_chunk_parameters l =
    (if \<not> has_flag (flags (parser l)) F_CHUNKED then Abort
     else if cur_ch l = CR then Break (update_state s_chunk_size_almost_done l)
     else Break l)"

definition case_chunk_size_almost_done :: "'w http_parser_settings \<Rightarrow> 'w locals \<Rightarrow> 'w flow" where
  [case_defs]: "case_chunk_size_almost_done st l =
    (if \<not> has_flag (flags (parser l)) F_CHUNKED then Abort
     else strict_check (cur_ch l \<noteq> LF) l (\<lambda>l.
       let l = upd_parser (\<lambda>pr. pr\<lparr>nread := 0\<rparr>) l
       in callback_notify (on_chunk_header st) HPE_CB_chunk_header (cur_p l + 1)
            (if content_length (parser l) = 0
             then update_state s_header_field_start
                    (upd_parser (\<lambda>pr. pr\<lparr>flags := flags pr OR F_TRAILING\<rparr>) l)
             else update_state s_chunk_data l) Break))"

definition case_chunk_data :: "char list \<Rightarrow> 'w locals \<Rightarrow> 'w flow" where
  [case_defs]: "case_chunk_data buf l =
    (if \<not> has_flag (flags (parser l)) F_CHUNKED \<or> content_length (parser l) = 0 \<or>
        content_length (parser l) = ULLONG_MAX then Abort
     else let l' = take_body buf l
       in Break (if content_length (parser l') = 0
                 then update_state s_chunk_data_almost_done l' else l'))"

definition case_chunk_data_almost_done ::
  "'w http_parser_settings \<Rightarrow> char list \<Rightarrow> 'w locals \<Rightarrow> 'w flow" where
  [case_defs]: "case_chunk_data_almost_done st buf l =
    (if \<not> has_flag (flags (parser l)) F_CHUNKED \<or> content_length (parser l) \<noteq> 0 then Abort
     else strict_check (cur_ch l \<noteq> CR) l (\<lambda>l.
       callback_body st buf (cur_p l) (cur_p l + 1) (update_state s_chunk_data_done l) Break))"

definition case_chunk_data_done :: "'w http_parser_settings \<Rightarrow> 'w locals \<Rightarrow> 'w flow" where
  [case_defs]: "case_chunk_data_done st l =
    (if \<not> has_flag (flags (parser l)) F_CHUNKED then Abort
     else strict_check (cur_ch l \<noteq> LF) l (\<lambda>l.
       callback_notify (on_chunk_complete st) HPE_CB_chunk_complete (cur_p l + 1)
         (update_state s_chunk_size_start (upd_parser (\<lambda>pr. pr\<lparr>nread := 0\<rparr>) l)) Break))"

end
