(* ===== verification/Parser_Execute.thy ===== *)
theory Parser_Execute
  imports Start_Line Header_Lines Message_Body
begin

text \<open>
  \<open>http_parser_execute\<close> itself (\<open>http_parser.c\<close>): the entry checks, the initial marks, the \<open>for\<close>
  loop with its \<open>reexecute\<close> label, the callbacks for the marks left at the end of the buffer, and
  the \<open>error\<close> label.

  Nothing in the text of the loop bounds the number of \<open>goto reexecute\<close>: a callback may rewrite the
  parser.  The loop is therefore a partial function, with \<open>None\<close> for "does not return"; that it
  returns is a theorem on the callbacks the documentation allows.
\<close>

section \<open>The switch\<close>

definition exec_switch :: "'w http_parser_settings \<Rightarrow> char list \<Rightarrow> 'w locals \<Rightarrow> 'w flow" where
  "exec_switch st buf l =
    (case p_state l of
       s_dead \<Rightarrow> case_dead l
     | s_start_req_or_res \<Rightarrow> case_start_req_or_res st l
     | s_res_or_resp_H \<Rightarrow> case_res_or_resp_H l
     | s_start_res \<Rightarrow> case_start_res st l
     | s_res_H \<Rightarrow> case_res_H l
     | s_res_HT \<Rightarrow> case_res_HT l
     | s_res_HTT \<Rightarrow> case_res_HTT l
     | s_res_HTTP \<Rightarrow> case_res_HTTP l
     | s_res_http_major \<Rightarrow> case_res_http_major l
     | s_res_http_dot \<Rightarrow> case_res_http_dot l
     | s_res_http_minor \<Rightarrow> case_res_http_minor l
     | s_res_http_end \<Rightarrow> case_res_http_end l
     | s_res_first_status_code \<Rightarrow> case_res_first_status_code l
     | s_res_status_code \<Rightarrow> case_res_status_code l
     | s_res_status_start \<Rightarrow> case_res_status_start l
     | s_res_status \<Rightarrow> case_res_status st buf l
     | s_res_line_almost_done \<Rightarrow> case_res_line_almost_done l
     | s_start_req \<Rightarrow> case_start_req st l
     | s_req_method \<Rightarrow> case_req_method l
     | s_req_spaces_before_url \<Rightarrow> case_req_spaces_before_url l
     | s_req_schema \<Rightarrow> case_req_schema l
     | s_req_schema_slash \<Rightarrow> case_req_schema l
     | s_req_schema_slash_slash \<Rightarrow> case_req_schema l
     | s_req_server_start \<Rightarrow> case_req_schema l
     | s_req_server \<Rightarrow> case_req_url st buf l
     | s_req_server_with_at \<Rightarrow> case_req_url st buf l
     | s_req_path \<Rightarrow> case_req_url st buf l
     | s_req_query_string_start \<Rightarrow> case_req_url st buf l
     | s_req_query_string \<Rightarrow> case_req_url st buf l
     | s_req_fragment_start \<Rightarrow> case_req_url st buf l
     | s_req_fragment \<Rightarrow> case_req_url st buf l
     | s_req_http_start \<Rightarrow> case_req_http_start l
     | s_req_http_H \<Rightarrow> case_req_http_H l
     | s_req_http_HT \<Rightarrow> case_req_http_HT l
     | s_req_http_HTT \<Rightarrow> case_req_http_HTT l
     | s_req_http_HTTP \<Rightarrow> case_req_http_HTTP l
     | s_req_http_major \<Rightarrow> case_req_http_major l
     | s_req_http_dot \<Rightarrow> case_req_http_dot l
     | s_req_http_minor \<Rightarrow> case_req_http_minor l
     | s_req_http_end \<Rightarrow> case_req_http_end l
     | s_req_line_almost_done \<Rightarrow> case_req_line_almost_done l
     | s_header_field_start \<Rightarrow> case_header_field_start l
     | s_header_field \<Rightarrow> case_header_field st buf l
     | s_header_value_discard_ws \<Rightarrow> case_header_value_discard_ws l
     | s_header_value_discard_ws_almost_done \<Rightarrow> case_header_value_discard_ws_almost_done l
     | s_header_value_discard_lws \<Rightarrow> case_header_value_discard_lws st buf l
     | s_header_value_start \<Rightarrow> case_header_value_start l
     | s_header_value \<Rightarrow> case_header_value st buf l
     | s_header_value_lws \<Rightarrow> case_header_value_lws l
     | s_header_almost_done \<Rightarrow> case_header_almost_done l
     | s_chunk_size_start \<Rightarrow> case_chunk_size_start l
     | s_chunk_size \<Rightarrow> case_chunk_size l
     | s_chunk_parameters \<Rightarrow> case_chunk_parameters l
     | s_chunk_size_almost_done \<Rightarrow> case_chunk_size_almost_done st l
     | s_headers_almost_done \<Rightarrow> case_headers_almost_done st l
     | s_headers_done \<Rightarrow> case_headers_done st l
     | s_chunk_data \<Rightarrow> case_chunk_data buf l
     | s_chunk_data_almost_done \<Rightarrow> case_chunk_data_almost_done st buf l
     | s_chunk_data_done \<Rightarrow> case_chunk_data_done st l
     | s_body_identity \<Rightarrow> case_body_identity st buf l
     | s_body_identity_eof \<Rightarrow> case_body_identity_eof buf l
     | s_message_done \<Rightarrow> case_message_done st l)"

section \<open>The loop\<close>

text \<open>The value of the call: the bytes parsed, the parser and the application's memory.\<close>

datatype 'w exec_result = Returned nat http_parser 'w | Aborted

text \<open>The \<open>error\<close> label.\<close>

definition exec_error :: "'w locals \<Rightarrow> 'w flow" where
  "exec_error l =
    do_return (cur_p l)
      (if http_errno (parser l) = HPE_OK then set_errno HPE_UNKNOWN l else l)"

text \<open>The head of the loop: \<open>ch = *p\<close> and the header size count.\<close>

definition exec_fetch :: "char list \<Rightarrow> 'w locals \<Rightarrow> 'w flow" where
  "exec_fetch buf l =
    (if cur_p l \<ge> length buf then Abort
     else let l = l\<lparr>cur_ch := buf ! cur_p l\<rparr>
       in if PARSING_HEADER (p_state l) then count_header_size 1 l Reexecute else Reexecute l)"

text \<open>After the loop: at most one mark is left, and it is reported.\<close>

definition marks_left :: "'w locals \<Rightarrow> nat" where
  "marks_left l =
    length (filter (\<lambda>m. m \<noteq> None)
      [header_field_mark l, header_value_mark l, url_mark l, body_mark l, status_mark l])"

definition exec_finish :: "'w http_parser_settings \<Rightarrow> char list \<Rightarrow> 'w locals \<Rightarrow> 'w flow" where
  "exec_finish st buf l =
    (let p = cur_p l in
     if marks_left l > 1 then Abort
     else callback_header_field st buf p p l (\<lambda>l.
          callback_header_value st buf p p l (\<lambda>l.
          callback_url st buf p p l (\<lambda>l.
          callback_body st buf p p l (\<lambda>l.
          callback_status st buf p p l (\<lambda>l.
            do_return (length buf) l))))))"

definition flow_result :: "'w flow \<Rightarrow> 'w exec_result" where
  "flow_result fl = (case fl of Return n l \<Rightarrow> Returned n (parser l) (app l) | _ \<Rightarrow> Aborted)"

text \<open>
  \<open>exec_run st buf re l\<close>: the loop from its head (\<open>re\<close> false) or from the label \<open>reexecute\<close> (\<open>re\<close> true).
\<close>

partial_function (option) exec_run ::
  "'w http_parser_settings \<Rightarrow> char list \<Rightarrow> bool \<Rightarrow> 'w locals \<Rightarrow> 'w exec_result option" where
  "exec_run st buf re l =
    (if \<not> re \<and> cur_p l = length buf then Some (flow_result (exec_finish st buf l))
     else case (if re then exec_switch st buf l else exec_fetch buf l) of
         Break l' \<Rightarrow> exec_run st buf False (l'\<lparr>cur_p := cur_p l' + 1\<rparr>)
       | Reexecute l' \<Rightarrow> exec_run st buf True l'
       | Goto_error l' \<Rightarrow> Some (flow_result (exec_error l'))
       | Return n l' \<Rightarrow> Some (flow_result (Return n l'))
       | Abort \<Rightarrow> Some Aborted)"

lemma exec_run_end:
  "cur_p l = length buf \<Longrightarrow> exec_run st buf False l = Some (flow_result (exec_finish st buf l))"
  by (subst exec_run.simps) simp

lemma exec_run_fetch:
  "cur_p l \<noteq> length buf \<Longrightarrow> exec_run st buf False l =
    (case exec_fetch buf l of
         Break l' \<Rightarrow> exec_run st buf False (l'\<lparr>cur_p := cur_p l' + 1\<rparr>)
       | Reexecute l' \<Rightarrow> exec_run st buf True l'
       | Goto_error l' \<Rightarrow> Some (flow_result (exec_error l'))
       | Return n l' \<Rightarrow> Some (flow_result (Return n l'))
       | Abort \<Rightarrow> Some Aborted)"
  by (subst exec_run.simps) simp

lemma exec_run_switch:
  "exec_run st buf True l =
    (case exec_switch st buf l of
         Break l' \<Rightarrow> exec_run st buf False (l'\<lparr>cur_p := cur_p l' + 1\<rparr>)
       | Reexecute l' \<Rightarrow> exec_run st buf True l'
       | Goto_error l' \<Rightarrow> Some (flow_result (exec_error l'))
       | Return n l' \<Rightarrow> Some (flow_result (Return n l'))
       | Abort \<Rightarrow> Some Aborted)"
  by (subst exec_run.simps) simp

section \<open>The function\<close>

definition init_locals :: "http_parser \<Rightarrow> 'w \<Rightarrow> 'w locals" where
  "init_locals pr w =
    \<lparr>parser = pr, app = w, cur_ch = NUL, cur_p = 0, p_state = state pr,
     header_field_mark = (if state pr = s_header_field then Some 0 else None),
     header_value_mark = (if state pr = s_header_value then Some 0 else None),
     url_mark = (if state pr \<in> url_states then Some 0 else None),
     body_mark = None,
     status_mark = (if state pr = s_res_status then Some 0 else None),
     lenient = lenient_http_headers pr\<rparr>"

text \<open>The call with \<open>len == 0\<close>, the end of the stream.\<close>

definition exec_eof :: "'w http_parser_settings \<Rightarrow> 'w locals \<Rightarrow> 'w flow" where
  "exec_eof st l =
    (if p_state l = s_body_identity_eof then
       callback_notify (on_message_complete st) HPE_CB_message_complete (cur_p l) l
         (\<lambda>l. Return 0 l)
     else if p_state l = s_dead then Return 0 l
     else Return 1 (set_errno HPE_INVALID_EOF_STATE l))"

definition http_parser_execute ::
  "'w http_parser_settings \<Rightarrow> char list \<Rightarrow> http_parser \<Rightarrow> 'w \<Rightarrow> 'w exec_result option" where
  "http_parser_execute st buf pr w =
    (if http_errno pr \<noteq> HPE_OK then Some (Returned 0 pr w)
     else if buf = [] then Some (flow_result (exec_eof st (init_locals pr w)))
     else exec_run st buf False (init_locals pr w))"

end
