(* ===== verification/Parser_Client.thy ===== *)
theory Parser_Client
  imports Parser_Execute
begin

text \<open>
  What \<open>http_parser_execute\<close> relies on.  The application's callbacks get the parser itself, so the
  code's assertions hold only for callbacks that leave it alone; pausing is the one change the API
  offers them.  The locale \<open>parser_client\<close> is that contract.  Inside it, a pass through the \<open>switch\<close>
  is reasoned about by its outcome (\<open>flow_sat\<close>), with one rule for each kind of callback.
\<close>

section \<open>Outcomes\<close>

definition flow_sat ::
  "('w locals \<Rightarrow> bool) \<Rightarrow> ('w locals \<Rightarrow> bool) \<Rightarrow> ('w locals \<Rightarrow> bool) \<Rightarrow> (nat \<Rightarrow> 'w locals \<Rightarrow> bool) \<Rightarrow>
    'w flow \<Rightarrow> bool" where
  "flow_sat B R E T fl =
    (case fl of Break l \<Rightarrow> B l | Reexecute l \<Rightarrow> R l | Goto_error l \<Rightarrow> E l | Return n l \<Rightarrow> T n l
     | Abort \<Rightarrow> False)"

lemma flow_sat_simps [simp]:
  "flow_sat B R E T (Break l) = B l"
  "flow_sat B R E T (Reexecute l) = R l"
  "flow_sat B R E T (Goto_error l) = E l"
  "flow_sat B R E T (Return n l) = T n l"
  "\<not> flow_sat B R E T Abort"
  by (simp_all add: flow_sat_def)

lemma flow_sat_if [intro]:
  "(c \<Longrightarrow> flow_sat B R E T x) \<Longrightarrow> (\<not> c \<Longrightarrow> flow_sat B R E T y) \<Longrightarrow>
    flow_sat B R E T (if c then x else y)"
  by simp

section \<open>The contract of the callbacks\<close>

definition polite_cb :: "'w http_cb option \<Rightarrow> bool" where
  "polite_cb cb \<longleftrightarrow> (\<forall>f pr w r pr' w'. cb = Some f \<longrightarrow> f pr w = (r, pr', w') \<longrightarrow>
     pr' = pr \<or> http_parser_pause pr True = Some pr')"

definition polite_data_cb :: "'w http_data_cb option \<Rightarrow> bool" where
  "polite_data_cb cb \<longleftrightarrow> (\<forall>f pr bytes w r pr' w'. cb = Some f \<longrightarrow> f pr bytes w = (r, pr', w') \<longrightarrow>
     pr' = pr \<or> http_parser_pause pr True = Some pr')"

lemma polite_None [simp]: "polite_cb None" "polite_data_cb None"
  by (simp_all add: polite_cb_def polite_data_cb_def)

lemma polite_const [simp]:
  "polite_cb (Some (\<lambda>pr w. (r pr w, pr, g pr w)))"
  "polite_data_cb (Some (\<lambda>pr bytes w. (s pr bytes w, pr, h pr bytes w)))"
  by (simp_all add: polite_cb_def polite_data_cb_def)

text \<open>The parser a callback leaves: the one it got, or that parser stopped by an error code.\<close>

lemma polite_cbD:
  assumes "polite_cb cb" "cb = Some f" "f pr w = (r, pr', w')" "http_errno pr = HPE_OK"
  shows "pr' = pr \<or> pr' = pr\<lparr>http_errno := HPE_PAUSED\<rparr>"
  using assms by (fastforce simp: polite_cb_def http_parser_pause_def)

lemma polite_data_cbD:
  assumes "polite_data_cb cb" "cb = Some f" "f pr bytes w = (r, pr', w')" "http_errno pr = HPE_OK"
  shows "pr' = pr \<or> pr' = pr\<lparr>http_errno := HPE_PAUSED\<rparr>"
  using assms by (fastforce simp: polite_data_cb_def http_parser_pause_def)

text \<open>The parser with its state stored, possibly stopped.\<close>

abbreviation stored :: "'w locals \<Rightarrow> http_parser" where
  "stored l \<equiv> (parser l)\<lparr>state := p_state l\<rparr>"

lemma after_callback_polite:
  assumes "pr' = stored l \<or> pr' = (stored l)\<lparr>http_errno := HPE_PAUSED\<rparr>"
    and "http_errno (parser l) = HPE_OK" "e \<noteq> HPE_OK"
  shows "(\<exists>er'. er' \<noteq> HPE_OK \<and>
      after_callback e (r, pr', w') l = l\<lparr>parser := (stored l)\<lparr>http_errno := er'\<rparr>, app := w'\<rparr>) \<or>
    after_callback e (r, pr', w') l = l\<lparr>parser := stored l, app := w'\<rparr>"
proof (cases "r = 0")
  case True
  from assms(1) show ?thesis
  proof
    assume "pr' = stored l"
    then show ?thesis using True by (simp add: after_callback_def)
  next
    assume "pr' = (stored l)\<lparr>http_errno := HPE_PAUSED\<rparr>"
    then show ?thesis using True
      by (intro disjI1 exI [of _ HPE_PAUSED]) (simp add: after_callback_def)
  qed
next
  case False
  then show ?thesis
    using assms(1,3) by (intro disjI1 exI [of _ e]) (auto simp: after_callback_def)
qed

lemma flow_sat_notify:
  assumes "polite_cb cb" "http_errno (parser l) = HPE_OK" "e \<noteq> HPE_OK"
    and ret: "\<And>w er'. er' \<noteq> HPE_OK \<Longrightarrow>
      T er (l\<lparr>parser := (stored l)\<lparr>http_errno := er'\<rparr>, app := w\<rparr>)"
    and go: "\<And>w. flow_sat B R E T (k (l\<lparr>parser := stored l, app := w\<rparr>))"
    and null: "cb = None \<Longrightarrow> flow_sat B R E T (k l)"
  shows "flow_sat B R E T (callback_notify cb e er l k)"
proof (cases cb)
  case None
  then show ?thesis using assms(2) null by (simp add: callback_notify_def)
next
  case (Some f)
  obtain r pr' w' where f: "f (stored l) (app l) = (r, pr', w')"
    by (cases "f (stored l) (app l)") auto
  have p: "pr' = stored l \<or> pr' = (stored l)\<lparr>http_errno := HPE_PAUSED\<rparr>"
    using polite_cbD [OF assms(1) Some f] assms(2) by simp
  show ?thesis
    using after_callback_polite [OF p assms(2,3), of r w']
  proof (elim disjE exE conjE)
    fix er' assume "er' \<noteq> HPE_OK"
      "after_callback e (r, pr', w') l = l\<lparr>parser := (stored l)\<lparr>http_errno := er'\<rparr>, app := w'\<rparr>"
    then show ?thesis
      using ret [of er' w'] assms(2) by (simp add: callback_notify_def Let_def Some f)
  next
    assume "after_callback e (r, pr', w') l = l\<lparr>parser := stored l, app := w'\<rparr>"
    then show ?thesis
      using go [of w'] assms(2) by (simp add: callback_notify_def Let_def Some f)
  qed
qed

lemma flow_sat_data:
  assumes "polite_data_cb cb" "http_errno (parser l) = HPE_OK" "e \<noteq> HPE_OK"
    and bounds: "\<And>m. mark = Some m \<Longrightarrow> m \<le> q \<and> q \<le> length buf"
    and ret: "\<And>w er'. er' \<noteq> HPE_OK \<Longrightarrow> mark \<noteq> None \<Longrightarrow>
      T er (l\<lparr>parser := (stored l)\<lparr>http_errno := er'\<rparr>, app := w\<rparr>)"
    and go: "\<And>w. mark \<noteq> None \<Longrightarrow> flow_sat B R E T (k (clear (l\<lparr>parser := stored l, app := w\<rparr>)))"
    and null: "cb = None \<Longrightarrow> mark \<noteq> None \<Longrightarrow> flow_sat B R E T (k (clear l))"
    and unmarked: "mark = None \<Longrightarrow> flow_sat B R E T (k l)"
  shows "flow_sat B R E T (callback_data mark clear cb e buf q er l k)"
proof (cases mark)
  case None
  then show ?thesis using assms(2) unmarked by (simp add: callback_data_def)
next
  case m: (Some m)
  show ?thesis
  proof (cases cb)
    case None
    then show ?thesis using assms(2) null m by (simp add: callback_data_def)
  next
    case (Some f)
    obtain r pr' w' where f: "f (stored l) (subbuf buf m q) (app l) = (r, pr', w')"
      by (cases "f (stored l) (subbuf buf m q) (app l)") auto
    have p: "pr' = stored l \<or> pr' = (stored l)\<lparr>http_errno := HPE_PAUSED\<rparr>"
      using polite_data_cbD [OF assms(1) Some f] assms(2) by simp
    have q: "m \<le> q" "q \<le> length buf"
      using bounds [OF m] by auto
    show ?thesis
      using after_callback_polite [OF p assms(2,3), of r w']
    proof (elim disjE exE conjE)
      fix er' assume "er' \<noteq> HPE_OK"
        "after_callback e (r, pr', w') l = l\<lparr>parser := (stored l)\<lparr>http_errno := er'\<rparr>, app := w'\<rparr>"
      then show ?thesis
        using ret [of er' w'] assms(2) q by (simp add: callback_data_def Let_def Some f m)
    next
      assume "after_callback e (r, pr', w') l = l\<lparr>parser := stored l, app := w'\<rparr>"
      then show ?thesis
        using go [of w'] assms(2) q by (simp add: callback_data_def Let_def Some f m)
    qed
  qed
qed

lemma flow_sat_headers_complete:
  assumes "polite_cb (on_headers_complete st)" "http_errno (parser l) = HPE_OK"
    and ret: "\<And>l' er'. er' \<noteq> HPE_OK \<Longrightarrow> p_state l' = p_state l \<Longrightarrow> cur_p l' = cur_p l \<Longrightarrow>
      http_errno (parser l') = er' \<Longrightarrow> T (cur_p l) (l'\<lparr>parser := stored l'\<rparr>)"
    and go: "\<And>w. R (l\<lparr>app := w\<rparr>)"
      "\<And>w. R (l\<lparr>app := w, parser := (parser l)\<lparr>flags := flags (parser l) OR F_SKIPBODY\<rparr>\<rparr>)"
      "\<And>w. R (l\<lparr>app := w, parser := (parser l)\<lparr>upgrade := True,
                flags := flags (parser l) OR F_SKIPBODY\<rparr>\<rparr>)"
  shows "flow_sat B R E T (call_headers_complete st l)"
proof (cases "on_headers_complete st")
  case None
  then show ?thesis using assms(2) go(1) [of "app l"] by (simp add: call_headers_complete_def)
next
  case (Some f)
  obtain r pr' w' where f: "f (parser l) (app l) = (r, pr', w')"
    by (cases "f (parser l) (app l)") auto
  have p: "pr' = parser l \<or> pr' = (parser l)\<lparr>http_errno := HPE_PAUSED\<rparr>"
    using polite_cbD [OF assms(1) Some f] assms(2) by simp
  have "flow_sat B R E T (do_return (cur_p l) l')"
    if "http_errno (parser l') \<noteq> HPE_OK" "p_state l' = p_state l" "cur_p l' = cur_p l" for l'
    using ret [of "http_errno (parser l')" l'] that by (simp add: do_return_def)
  then show ?thesis
    using p assms(2) go(1) [of w'] go(2) [of w'] go(3) [of w'] Some f
    by (auto simp: call_headers_complete_def upd_parser_def set_errno_def Let_def)
qed

locale parser_client =
  fixes st :: "'w http_parser_settings"
  assumes message_begin: "polite_cb (on_message_begin st)"
    and url: "polite_data_cb (on_url st)"
    and status: "polite_data_cb (on_status st)"
    and header_field: "polite_data_cb (on_header_field st)"
    and header_value: "polite_data_cb (on_header_value st)"
    and headers_complete: "polite_cb (on_headers_complete st)"
    and body: "polite_data_cb (on_body st)"
    and message_complete: "polite_cb (on_message_complete st)"
    and chunk_header: "polite_cb (on_chunk_header st)"
    and chunk_complete: "polite_cb (on_chunk_complete st)"

end
