(* ===== verification/Numerals.thy ===== *)
theory Numerals
  imports Http_Chars
begin

text \<open>
  Numbers in text, decimal and hexadecimal: reading digits and printing them, each the inverse of the
  other.
\<close>

section \<open>Numbers in text\<close>

text \<open>
  The number a string of digits stands for, read after the number \<open>v\<close>, and the numerals that are
  printed.
\<close>

definition dec_from :: "nat \<Rightarrow> char list \<Rightarrow> nat" where
  "dec_from v ds = foldl (\<lambda>a c. a * 10 + digit_val c) v ds"

lemma dec_from_simps [simp]:
  "dec_from v [] = v" "dec_from v (c # ds) = dec_from (v * 10 + digit_val c) ds"
  "dec_from v (ds @ ds') = dec_from (dec_from v ds) ds'"
  by (simp_all add: dec_from_def)

lemma dec_from_mono: "v \<le> dec_from v ds"
proof (induction ds arbitrary: v)
  case (Cons c ds)
  have "v \<le> v * 10 + digit_val c" by simp
  also have "\<dots> \<le> dec_from (v * 10 + digit_val c) ds" by (rule Cons.IH)
  finally show ?case by simp
qed simp

definition digit_char :: "nat \<Rightarrow> char" where
  "digit_char d = char_of (48 + d)"

fun decimal :: "nat \<Rightarrow> string" where
  "decimal n = (if n < 10 then [digit_char n] else decimal (n div 10) @ [digit_char (n mod 10)])"

declare decimal.simps [simp del]

lemma digit_char:
  assumes "d < 10"
  shows "IS_NUM (digit_char d)" "digit_val (digit_char d) = d"
  using assms by (simp_all add: digit_char_def IS_NUM_def digit_val_def)

lemma decimal_digits: "list_all IS_NUM (decimal n)"
  by (induction n rule: decimal.induct) (subst decimal.simps, simp add: digit_char)

lemma decimal_value: "dec_from 0 (decimal n) = n"
  by (induction n rule: decimal.induct) (subst decimal.simps, simp add: digit_char)

lemma decimal_nonempty [simp]: "decimal n \<noteq> []"
  by (subst decimal.simps) simp

definition hex_val :: "char \<Rightarrow> nat" where
  "hex_val c = nat (unhex ! byte c)"

definition hex_from :: "nat \<Rightarrow> char list \<Rightarrow> nat" where
  "hex_from v ds = foldl (\<lambda>a c. a * 16 + hex_val c) v ds"

lemma hex_from_simps [simp]:
  "hex_from v [] = v" "hex_from v (c # ds) = hex_from (v * 16 + hex_val c) ds"
  "hex_from v (ds @ ds') = hex_from (hex_from v ds) ds'"
  by (simp_all add: hex_from_def)

lemma hex_from_mono: "v \<le> hex_from v ds"
proof (induction ds arbitrary: v)
  case (Cons c ds)
  have "v \<le> v * 16 + hex_val c" by simp
  also have "\<dots> \<le> hex_from (v * 16 + hex_val c) ds" by (rule Cons.IH)
  finally show ?case by simp
qed simp

definition hex_chars :: string where
  "hex_chars = ''0123456789abcdef''"

definition hex_char :: "nat \<Rightarrow> char" where
  "hex_char d = hex_chars ! d"

fun hexadecimal :: "nat \<Rightarrow> string" where
  "hexadecimal n =
    (if n < 16 then [hex_char n] else hexadecimal (n div 16) @ [hex_char (n mod 16)])"

declare hexadecimal.simps [simp del]

lemma hex_char_table:
  "list_all2 (\<lambda>c d. IS_HEX c \<and> unhex ! byte c = int d) hex_chars [0..<16]"
  by (simp add: upt_conv_Cons, simp add: hex_chars_def unhex_def IS_HEX_def IS_NUM_def)

lemma hex_char:
  assumes "d < 16"
  shows "IS_HEX (hex_char d)" "unhex ! byte (hex_char d) \<noteq> - 1" "hex_val (hex_char d) = d"
proof -
  have "IS_HEX (hex_char d) \<and> unhex ! byte (hex_char d) = int d"
    using list_all2_nthD [OF hex_char_table, of d] assms
    by (simp add: hex_char_def hex_chars_def)
  then show "IS_HEX (hex_char d)" "unhex ! byte (hex_char d) \<noteq> - 1" "hex_val (hex_char d) = d"
    by (simp_all add: hex_val_def)
qed

lemma hexadecimal_digits: "list_all IS_HEX (hexadecimal n)"
  by (induction n rule: hexadecimal.induct) (subst hexadecimal.simps, simp add: hex_char)

lemma hexadecimal_value: "hex_from 0 (hexadecimal n) = n"
  by (induction n rule: hexadecimal.induct) (subst hexadecimal.simps, simp add: hex_char)

lemma hexadecimal_nonempty [simp]: "hexadecimal n \<noteq> []"
  by (subst hexadecimal.simps) simp

end
