(* ===== verification/Parser_Numbers.thy ===== *)
theory Parser_Numbers
  imports Parser_Execute Numerals
begin

text \<open>
  The two numbers the parser accumulates in 64 bits, \<open>Content-Length\<close> in decimal and chunk sizes in
  hexadecimal: the conservative overflow tests of the code keep the accumulation exact.
\<close>

lemma unat_mult_add:
  fixes w :: "64 word"
  assumes "unat w * b + d < 2 ^ 64"
  shows "unat (w * of_nat b + of_nat d) = unat w * b + d"
proof -
  have "unat (w * of_nat b + of_nat d) = (unat w * b + d) mod 2 ^ 64"
    by (simp add: unat_word_ariths unat_of_nat mod_simps)
  then show ?thesis
    using assms by simp
qed

lemma unat_ULLONG_MAX: "unat ULLONG_MAX = 2 ^ 64 - 1"
  unfolding ULLONG_MAX_def by transfer (simp add: take_bit_minus_one_eq_mask mask_eq_exp_minus_1 nat_diff_distrib)

lemma eq_ULLONG_MAX: "w = ULLONG_MAX \<longleftrightarrow> unat w = 2 ^ 64 - 1"
  unfolding word_unat_eq_iff unat_ULLONG_MAX ..

lemma decimal_limit: "(ULLONG_MAX - 10) div 10 < w \<longleftrightarrow> 1844674407370955160 < unat w"
  by (simp add: ULLONG_MAX_def word_less_nat_alt unat_div_distrib)

lemma hex_limit: "(ULLONG_MAX - 16) div 16 < w \<longleftrightarrow> 1152921504606846974 < unat w"
  by (simp add: ULLONG_MAX_def word_less_nat_alt unat_div_distrib)

lemma unat_decimal_step:
  assumes "\<not> (ULLONG_MAX - 10) div 10 < w" "d \<le> 9"
  shows "unat (w * 10 + of_nat d) = unat w * 10 + d"
  using unat_mult_add [of w 10 d] assms by (simp add: decimal_limit)

lemma decimal_step_max:
  assumes "\<not> (ULLONG_MAX - 10) div 10 < w" "d \<le> 9"
  shows "w * 10 + of_nat d \<noteq> ULLONG_MAX"
  using assms unat_decimal_step [OF assms] by (simp add: eq_ULLONG_MAX decimal_limit)

lemma unhex_nat:
  assumes "unhex ! byte c \<noteq> - 1"
  shows "nat (unhex ! byte c) \<le> 15" "of_int (unhex ! byte c) = (of_nat (nat (unhex ! byte c)) :: 64 word)"
proof -
  have "0 \<le> unhex ! byte c" "unhex ! byte c \<le> 15"
    using unhex_range [of c] assms by linarith+
  then show "nat (unhex ! byte c) \<le> 15"
    "of_int (unhex ! byte c) = (of_nat (nat (unhex ! byte c)) :: 64 word)"
    by simp_all
qed

lemma unat_hex_digit:
  assumes "unhex ! byte c \<noteq> - 1"
  shows "unat (of_int (unhex ! byte c) :: 64 word) = nat (unhex ! byte c)"
  using unhex_nat [OF assms] by (simp add: unat_of_nat)

lemma unat_hex_step:
  assumes "\<not> (ULLONG_MAX - 16) div 16 < w" "unhex ! byte c \<noteq> - 1"
  shows "unat (w * 16 + of_int (unhex ! byte c)) = unat w * 16 + nat (unhex ! byte c)"
  using unat_mult_add [of w 16 "nat (unhex ! byte c)"] assms unhex_nat [OF assms(2)]
  by (simp add: hex_limit)

lemma hex_not_max:
  assumes "unhex ! byte c \<noteq> - 1"
  shows "of_int (unhex ! byte c) \<noteq> ULLONG_MAX"
    "\<not> (ULLONG_MAX - 16) div 16 < w \<Longrightarrow> w * 16 + of_int (unhex ! byte c) \<noteq> ULLONG_MAX"
  using assms unat_hex_digit [OF assms] unat_hex_step [of w c] unhex_nat [OF assms]
  by (simp_all add: eq_ULLONG_MAX hex_limit)

section \<open>The bytes of a body\<close>

text \<open>What one buffer takes off a body of \<open>content_length\<close> bytes.\<close>

lemma unat_to_read:
  assumes "length buf < 2 ^ 64"
  shows "unat (to_read buf l) = min (unat (content_length (parser l))) (length buf - cur_p l)"
proof -
  have "unat (of_nat (length buf - cur_p l) :: 64 word) = length buf - cur_p l"
    using assms by (simp add: unat_of_nat)
  then show ?thesis
    unfolding to_read_def by (simp add: min_def word_le_nat_alt)
qed

lemma unat_minus_to_read:
  assumes "length buf < 2 ^ 64"
  shows "unat (content_length (parser l) - to_read buf l) =
    unat (content_length (parser l)) - (length buf - cur_p l)"
proof -
  have "to_read buf l \<le> content_length (parser l)"
    unfolding to_read_def by simp
  then show ?thesis
    using unat_to_read [OF assms, of l] by (simp add: unat_sub)
qed

end
