(* ===== verification/Parser_Safety.thy ===== *)
theory Parser_Safety
  imports Parser_Client Parser_Numbers
begin

text \<open>
  \<open>http_parser_execute\<close> on any input.  \<open>parser_ok\<close> is the invariant of the struct between calls;
  \<open>exec_inv\<close> is the invariant of the loop.  For callbacks that keep the contract
  \<open>parser_client\<close>, every pass through the \<open>switch\<close> keeps \<open>exec_inv\<close>, moves \<open>p\<close> inside the buffer
  only, and either advances or lowers \<open>rank\<close>: so the call returns, fails no assertion, reads
  nothing outside its buffer and string tables, and leaves a parser the next call can work with.
\<close>

section \<open>The invariant of the parser\<close>

definition field_states :: "header_states set" where
  "field_states = {h_general, h_C, h_CO, h_CON, h_matching_connection, h_matching_proxy_connection,
    h_matching_content_length, h_matching_transfer_encoding, h_matching_upgrade, h_connection,
    h_content_length, h_transfer_encoding, h_upgrade}"

definition value_states :: "header_states set" where
  "value_states = - {h_connection, h_transfer_encoding}"

text \<open>
  What the code relies on in each state; \<open>n\<close> is the header count at the start of a chunk size
  line (0 between bytes, 1 once its first byte is counted).
\<close>

definition wf_at :: "32 word \<Rightarrow> state \<Rightarrow> http_parser \<Rightarrow> bool" where
  "wf_at n s pr =
    (let chunked = has_flag (flags pr) F_CHUNKED; len = content_length pr in
     case s of
       s_req_method \<Rightarrow> unat (index pr) \<le> length (method_strings ! method_num (parser_method pr))
     | s_header_field \<Rightarrow> header_state pr \<in> field_states
     | s_header_value \<Rightarrow> header_state pr \<in> value_states
     | s_chunk_size_start \<Rightarrow> chunked \<and> nread pr = n
     | s_chunk_size \<Rightarrow> chunked \<and> len \<noteq> ULLONG_MAX
     | s_chunk_parameters \<Rightarrow> chunked \<and> len \<noteq> ULLONG_MAX
     | s_chunk_size_almost_done \<Rightarrow> chunked \<and> len \<noteq> ULLONG_MAX
     | s_chunk_data \<Rightarrow> chunked \<and> len \<noteq> 0 \<and> len \<noteq> ULLONG_MAX
     | s_chunk_data_almost_done \<Rightarrow> chunked \<and> len = 0
     | s_chunk_data_done \<Rightarrow> chunked
     | s_body_identity \<Rightarrow> len \<noteq> 0 \<and> len \<noteq> ULLONG_MAX
     | _ \<Rightarrow> True)"

definition parser_ok :: "http_parser \<Rightarrow> bool" where
  "parser_ok pr \<longleftrightarrow> http_errno pr \<in> {HPE_OK, HPE_PAUSED} \<longrightarrow> wf_at 0 (state pr) pr"

lemma wf_at_simps [simp]:
  "wf_at n s_req_method pr \<longleftrightarrow> unat (index pr) \<le> length (method_strings ! method_num (parser_method pr))"
  "wf_at n s_header_field pr \<longleftrightarrow> header_state pr \<in> field_states"
  "wf_at n s_header_value pr \<longleftrightarrow> header_state pr \<in> value_states"
  "wf_at n s_chunk_size_start pr \<longleftrightarrow> has_flag (flags pr) F_CHUNKED \<and> nread pr = n"
  "wf_at n s_chunk_size pr \<longleftrightarrow> has_flag (flags pr) F_CHUNKED \<and> content_length pr \<noteq> ULLONG_MAX"
  "wf_at n s_chunk_parameters pr \<longleftrightarrow> has_flag (flags pr) F_CHUNKED \<and> content_length pr \<noteq> ULLONG_MAX"
  "wf_at n s_chunk_size_almost_done pr \<longleftrightarrow> has_flag (flags pr) F_CHUNKED \<and> content_length pr \<noteq> ULLONG_MAX"
  "wf_at n s_chunk_data pr \<longleftrightarrow> has_flag (flags pr) F_CHUNKED \<and> content_length pr \<noteq> 0 \<and>
    content_length pr \<noteq> ULLONG_MAX"
  "wf_at n s_chunk_data_almost_done pr \<longleftrightarrow> has_flag (flags pr) F_CHUNKED \<and> content_length pr = 0"
  "wf_at n s_chunk_data_done pr \<longleftrightarrow> has_flag (flags pr) F_CHUNKED"
  "wf_at n s_body_identity pr \<longleftrightarrow> content_length pr \<noteq> 0 \<and> content_length pr \<noteq> ULLONG_MAX"
  by (simp_all add: wf_at_def Let_def)

lemma wf_at_true [simp]:
  "wf_at n s_dead pr" "wf_at n s_start_req_or_res pr" "wf_at n s_res_or_resp_H pr"
  "wf_at n s_start_res pr" "wf_at n s_res_H pr" "wf_at n s_res_HT pr" "wf_at n s_res_HTT pr"
  "wf_at n s_res_HTTP pr" "wf_at n s_res_http_major pr" "wf_at n s_res_http_dot pr"
  "wf_at n s_res_http_minor pr" "wf_at n s_res_http_end pr" "wf_at n s_res_first_status_code pr"
  "wf_at n s_res_status_code pr" "wf_at n s_res_status_start pr" "wf_at n s_res_status pr"
  "wf_at n s_res_line_almost_done pr" "wf_at n s_start_req pr"
  "wf_at n s_req_spaces_before_url pr" "wf_at n s_req_schema pr" "wf_at n s_req_schema_slash pr"
  "wf_at n s_req_schema_slash_slash pr" "wf_at n s_req_server_start pr" "wf_at n s_req_server pr"
  "wf_at n s_req_server_with_at pr" "wf_at n s_req_path pr" "wf_at n s_req_query_string_start pr"
  "wf_at n s_req_query_string pr" "wf_at n s_req_fragment_start pr" "wf_at n s_req_fragment pr"
  "wf_at n s_req_http_start pr" "wf_at n s_req_http_H pr" "wf_at n s_req_http_HT pr"
  "wf_at n s_req_http_HTT pr" "wf_at n s_req_http_HTTP pr" "wf_at n s_req_http_major pr"
  "wf_at n s_req_http_dot pr" "wf_at n s_req_http_minor pr" "wf_at n s_req_http_end pr"
  "wf_at n s_req_line_almost_done pr" "wf_at n s_header_field_start pr"
  "wf_at n s_header_value_discard_ws pr" "wf_at n s_header_value_discard_ws_almost_done pr"
  "wf_at n s_header_value_discard_lws pr" "wf_at n s_header_value_start pr"
  "wf_at n s_header_value_lws pr" "wf_at n s_header_almost_done pr"
  "wf_at n s_headers_almost_done pr" "wf_at n s_headers_done pr" "wf_at n s_body_identity_eof pr"
  "wf_at n s_message_done pr"
  by (simp_all add: wf_at_def)

lemma wf_at_state [simp]: "wf_at n s (pr\<lparr>state := t\<rparr>) = wf_at n s pr"
  by (cases s) (simp_all add: wf_at_def)

lemma wf_at_errno [simp]: "wf_at n s (pr\<lparr>http_errno := e\<rparr>) = wf_at n s pr"
  by (cases s) (simp_all add: wf_at_def)

text \<open>The states in which the invariant says nothing.\<close>

definition plain_state :: "state \<Rightarrow> bool" where
  "plain_state s \<longleftrightarrow> s \<notin> {s_req_method, s_header_field, s_header_value, s_chunk_size_start,
     s_chunk_size, s_chunk_parameters, s_chunk_size_almost_done, s_chunk_data,
     s_chunk_data_almost_done, s_chunk_data_done, s_body_identity}"

lemma wf_at_plain: "plain_state s \<Longrightarrow> wf_at n s pr"
  by (cases s) (simp_all add: plain_state_def wf_at_def)

lemma plain_url: "s \<in> insert s_dead url_states \<Longrightarrow> plain_state s"
  by (auto simp: url_states_def plain_state_def)

lemma plain_new_message: "plain_state (NEW_MESSAGE pr)"
  by (simp add: NEW_MESSAGE_def start_state_def plain_state_def)

section \<open>The invariant of the loop\<close>

definition mark_le :: "nat option \<Rightarrow> nat \<Rightarrow> bool" where
  "mark_le m p = (case m of None \<Rightarrow> True | Some q \<Rightarrow> q \<le> p)"

lemma mark_le_simps [simp]:
  "mark_le None p" "mark_le (Some q) p \<longleftrightarrow> q \<le> p"
  "mark_le (mark_at p m) p \<longleftrightarrow> mark_le m p" "mark_at p m \<noteq> None"
  by (simp_all add: mark_le_def mark_at_def split: option.split)

lemma mark_le_trans: "mark_le m p \<Longrightarrow> p \<le> q \<Longrightarrow> mark_le m q"
  by (auto simp: mark_le_def split: option.splits)

lemma mark_le_Suc [simp]: "mark_le m p \<Longrightarrow> mark_le m (Suc p)"
  by (rule mark_le_trans [of m p]) simp_all

definition mark_ok :: "'w locals \<Rightarrow> state set \<Rightarrow> nat option \<Rightarrow> bool" where
  "mark_ok l S m = (if p_state l \<in> S then mark_le m (cur_p l) else m = None)"

text \<open>Where a text is read, its mark is set.\<close>

definition text_ok :: "'w locals \<Rightarrow> state set \<Rightarrow> nat option \<Rightarrow> bool" where
  "text_ok l S m \<longleftrightarrow> mark_ok l S m \<and> (p_state l \<in> S \<longrightarrow> m \<noteq> None)"

definition body_states :: "state set" where
  "body_states = {s_body_identity, s_body_identity_eof, s_chunk_data, s_chunk_data_almost_done}"

definition marks_ok :: "'w locals \<Rightarrow> bool" where
  "marks_ok l \<longleftrightarrow>
    text_ok l {s_header_field} (header_field_mark l) \<and> text_ok l {s_header_value} (header_value_mark l) \<and>
    text_ok l url_states (url_mark l) \<and> mark_ok l body_states (body_mark l) \<and>
    text_ok l {s_res_status} (status_mark l)"

text \<open>At the head of the loop a mark is before \<open>p\<close>, but for one at the start of the buffer.\<close>

definition exec_inv :: "char list \<Rightarrow> bool \<Rightarrow> 'w locals \<Rightarrow> bool" where
  "exec_inv buf re l \<longleftrightarrow>
    http_errno (parser l) = HPE_OK \<and> wf_at (if re then 1 else 0) (p_state l) (parser l) \<and>
    marks_ok (if re then l else l\<lparr>cur_p := cur_p l - 1\<rparr>) \<and> (if re then cur_p l < length buf else cur_p l \<le> length buf)"

text \<open>How many \<open>goto reexecute\<close> may follow in a state.\<close>

definition rank :: "state \<Rightarrow> nat" where
  "rank s =
    (case s of
       s_start_req_or_res \<Rightarrow> 1 | s_res_status_code \<Rightarrow> 2 | s_res_status_start \<Rightarrow> 1
     | s_header_field_start \<Rightarrow> 2 | s_headers_almost_done \<Rightarrow> 1 | s_header_value_lws \<Rightarrow> 3
     | s_header_value_discard_lws \<Rightarrow> 3 | s_header_value \<Rightarrow> 1 | s_body_identity \<Rightarrow> 1 | _ \<Rightarrow> 0)"

lemma rank_le: "rank s \<le> 3"
  by (cases s) (simp_all add: rank_def)

text \<open>
  A result: within the bytes given, with a parser that keeps the invariant; and a call that ends
  without an error code has parsed the whole buffer, unless it stopped at an upgrade.
\<close>

definition return_ok :: "char list \<Rightarrow> nat \<Rightarrow> http_parser \<Rightarrow> bool" where
  "return_ok buf n pr \<longleftrightarrow> n \<le> length buf \<and> parser_ok pr \<and>
    (http_errno pr = HPE_OK \<longrightarrow> n = length buf \<or> upgrade pr)"

text \<open>An acceptable end of a pass that began at offset \<open>p\<close> with rank \<open>r\<close>.\<close>

definition step_ok :: "char list \<Rightarrow> nat \<Rightarrow> nat \<Rightarrow> 'w flow \<Rightarrow> bool" where
  "step_ok buf p r =
    flow_sat (\<lambda>l. p \<le> cur_p l \<and> exec_inv buf False (l\<lparr>cur_p := cur_p l + 1\<rparr>))
      (\<lambda>l. p \<le> cur_p l \<and> rank (p_state l) < r \<and> exec_inv buf True l)
      (\<lambda>l. cur_p l \<le> length buf \<and> http_errno (parser l) \<noteq> HPE_PAUSED)
      (\<lambda>n l. return_ok buf n (parser l))"

section \<open>Passes that call nothing\<close>

lemmas safety_simps = exec_inv_def marks_ok_def text_ok_def mark_ok_def rank_def url_states_def
  body_states_def

lemma field_states_simps [simp]:
  "h_general \<in> field_states" "h_C \<in> field_states" "h_matching_proxy_connection \<in> field_states"
  "h_matching_transfer_encoding \<in> field_states" "h_matching_upgrade \<in> field_states"
  by (simp_all add: field_states_def)

lemma step_ok_simps [simp]:
  "step_ok buf p r (Break l) \<longleftrightarrow> p \<le> cur_p l \<and> exec_inv buf False (l\<lparr>cur_p := cur_p l + 1\<rparr>)"
  "step_ok buf p r (Reexecute l) \<longleftrightarrow> p \<le> cur_p l \<and> rank (p_state l) < r \<and> exec_inv buf True l"
  "step_ok buf p r (Goto_error l) \<longleftrightarrow> cur_p l \<le> length buf \<and> http_errno (parser l) \<noteq> HPE_PAUSED"
  "step_ok buf p r (Return n l) \<longleftrightarrow> return_ok buf n (parser l)"
  "\<not> step_ok buf p r Abort"
  by (simp_all add: step_ok_def)

lemma if_split_ok:
  "(c \<Longrightarrow> step_ok buf p r x) \<Longrightarrow> (\<not> c \<Longrightarrow> step_ok buf p r y) \<Longrightarrow> step_ok buf p r (if c then x else y)"
  by simp

lemma return_stopped:
  assumes "n \<le> length buf" "wf_at 0 (p_state l) (parser l)" "e \<noteq> HPE_OK"
  shows "return_ok buf n ((stored l)\<lparr>http_errno := e\<rparr>)"
  using assms by (simp add: return_ok_def parser_ok_def)

lemma step_ok_notify:
  assumes "polite_cb cb" "http_errno (parser l) = HPE_OK" "e \<noteq> HPE_OK"
    and "er \<le> length buf" "wf_at 0 (p_state l) (parser l)"
    and "\<And>w. step_ok buf p r (k (l\<lparr>parser := stored l, app := w\<rparr>))"
    and "cb = None \<Longrightarrow> step_ok buf p r (k l)"
  shows "step_ok buf p r (callback_notify cb e er l k)"
  unfolding step_ok_def using assms
  by (intro flow_sat_notify) (simp_all add: return_stopped step_ok_def)

lemma step_ok_data:
  assumes "polite_data_cb cb" "http_errno (parser l) = HPE_OK" "e \<noteq> HPE_OK"
    and "\<And>m. mark = Some m \<Longrightarrow> m \<le> q \<and> q \<le> length buf"
    and "er \<le> length buf" "wf_at 0 (p_state l) (parser l)"
    and "\<And>w. mark \<noteq> None \<Longrightarrow> step_ok buf p r (k (clear (l\<lparr>parser := stored l, app := w\<rparr>)))"
    and "cb = None \<Longrightarrow> mark \<noteq> None \<Longrightarrow> step_ok buf p r (k (clear l))"
    and "mark = None \<Longrightarrow> step_ok buf p r (k l)"
  shows "step_ok buf p r (callback_data mark clear cb e buf q er l k)"
  unfolding step_ok_def using assms
  by (intro flow_sat_data) (simp_all add: return_stopped step_ok_def)

lemma finish_header_same [simp]:
  "http_errno (finish_header pr) = http_errno pr" "content_length (finish_header pr) = content_length pr"
  by (cases "header_state pr"; simp add: finish_header_def)+

lemma pass_plain:
  assumes "exec_inv buf True l"
  shows
    "p_state l = s_dead \<Longrightarrow> step_ok buf (cur_p l) 0 (case_dead l)"
    "p_state l = s_res_or_resp_H \<Longrightarrow> step_ok buf (cur_p l) 0 (case_res_or_resp_H l)"
    "p_state l = s_res_H \<Longrightarrow> step_ok buf (cur_p l) 0 (case_res_H l)"
    "p_state l = s_res_HT \<Longrightarrow> step_ok buf (cur_p l) 0 (case_res_HT l)"
    "p_state l = s_res_HTT \<Longrightarrow> step_ok buf (cur_p l) 0 (case_res_HTT l)"
    "p_state l = s_res_HTTP \<Longrightarrow> step_ok buf (cur_p l) 0 (case_res_HTTP l)"
    "p_state l = s_res_http_major \<Longrightarrow> step_ok buf (cur_p l) 0 (case_res_http_major l)"
    "p_state l = s_res_http_dot \<Longrightarrow> step_ok buf (cur_p l) 0 (case_res_http_dot l)"
    "p_state l = s_res_http_minor \<Longrightarrow> step_ok buf (cur_p l) 0 (case_res_http_minor l)"
    "p_state l = s_res_http_end \<Longrightarrow> step_ok buf (cur_p l) 0 (case_res_http_end l)"
    "p_state l = s_res_first_status_code \<Longrightarrow> step_ok buf (cur_p l) 0 (case_res_first_status_code l)"
    "p_state l = s_res_status_code \<Longrightarrow> step_ok buf (cur_p l) 2 (case_res_status_code l)"
    "p_state l = s_res_status_start \<Longrightarrow> step_ok buf (cur_p l) 1 (case_res_status_start l)"
    "p_state l = s_res_line_almost_done \<Longrightarrow> step_ok buf (cur_p l) 0 (case_res_line_almost_done l)"
    "p_state l = s_req_http_start \<Longrightarrow> step_ok buf (cur_p l) 0 (case_req_http_start l)"
    "p_state l = s_req_http_H \<Longrightarrow> step_ok buf (cur_p l) 0 (case_req_http_H l)"
    "p_state l = s_req_http_HT \<Longrightarrow> step_ok buf (cur_p l) 0 (case_req_http_HT l)"
    "p_state l = s_req_http_HTT \<Longrightarrow> step_ok buf (cur_p l) 0 (case_req_http_HTT l)"
    "p_state l = s_req_http_HTTP \<Longrightarrow> step_ok buf (cur_p l) 0 (case_req_http_HTTP l)"
    "p_state l = s_req_http_major \<Longrightarrow> step_ok buf (cur_p l) 0 (case_req_http_major l)"
    "p_state l = s_req_http_dot \<Longrightarrow> step_ok buf (cur_p l) 0 (case_req_http_dot l)"
    "p_state l = s_req_http_minor \<Longrightarrow> step_ok buf (cur_p l) 0 (case_req_http_minor l)"
    "p_state l = s_req_http_end \<Longrightarrow> step_ok buf (cur_p l) 0 (case_req_http_end l)"
    "p_state l = s_req_line_almost_done \<Longrightarrow> step_ok buf (cur_p l) 0 (case_req_line_almost_done l)"
    "p_state l = s_header_field_start \<Longrightarrow> step_ok buf (cur_p l) 2 (case_header_field_start l)"
    "p_state l = s_header_value_discard_ws_almost_done \<Longrightarrow> step_ok buf (cur_p l) 0 (case_header_value_discard_ws_almost_done l)"
    "p_state l = s_header_value_lws \<Longrightarrow> step_ok buf (cur_p l) 3 (case_header_value_lws l)"
    "p_state l = s_header_almost_done \<Longrightarrow> step_ok buf (cur_p l) 0 (case_header_almost_done l)"
    "p_state l = s_chunk_size_start \<Longrightarrow> step_ok buf (cur_p l) 0 (case_chunk_size_start l)"
    "p_state l = s_chunk_size \<Longrightarrow> step_ok buf (cur_p l) 0 (case_chunk_size l)"
    "p_state l = s_chunk_parameters \<Longrightarrow> step_ok buf (cur_p l) 0 (case_chunk_parameters l)"
  using assms
  by (simp_all add: safety_simps case_defs macro_defs Let_def hex_not_max method_strings_def)

lemma method_string_nonempty: "Suc 0 \<le> length (method_strings ! method_num m)"
  by (cases m) (simp_all add: method_strings_def)

lemma exec_inv_url:
  assumes "p_state l \<in> url_states"
  shows "exec_inv buf re l \<longleftrightarrow> http_errno (parser l) = HPE_OK \<and> header_field_mark l = None \<and>
    header_value_mark l = None \<and> mark_le (url_mark l) (if re then cur_p l else cur_p l - 1) \<and>
    url_mark l \<noteq> None \<and> body_mark l = None \<and>
    status_mark l = None \<and> (if re then cur_p l < length buf else cur_p l \<le> length buf)"
  using assms unfolding url_states_def insert_iff empty_iff
  by (elim disjE) (simp_all add: safety_simps)

lemma url_step_ok:
  assumes "http_errno (parser l) = HPE_OK" "header_field_mark l = None" "header_value_mark l = None"
    "url_mark l \<noteq> None" "mark_le (url_mark l) (cur_p l)" "body_mark l = None" "status_mark l = None"
    "cur_p l < length buf" "p \<le> cur_p l"
  shows "step_ok buf p r (url_step l)"
proof -
  have "parse_url_char (p_state l) (cur_ch l) \<in> url_states"
    if "parse_url_char (p_state l) (cur_ch l) \<noteq> s_dead"
    using parse_url_char_range [of "p_state l" "cur_ch l"] that by simp
  then show ?thesis
    using assms by (simp add: url_step_def macro_defs Let_def exec_inv_url)
qed

lemma nul_not_in_methods: "i < length (method_strings ! method_num m) \<Longrightarrow>
    method_strings ! method_num m ! i \<noteq> NUL"
proof -
  have "list_all (\<lambda>c. c \<noteq> NUL) (method_strings ! method_num m)"
    by (cases m) (simp_all add: method_strings_def)
  then show "i < length (method_strings ! method_num m) \<Longrightarrow>
      method_strings ! method_num m ! i \<noteq> NUL"
    by (simp add: list_all_length)
qed

text \<open>The table of the method switch only swaps methods that share the bytes read so far.\<close>

lemma method_switch_table:
  "list_all (\<lambda>((m, i, c), m').
      i < length (method_strings ! method_num m') \<and> method_strings ! method_num m' ! i = c \<and>
      take i (method_strings ! method_num m') = take i (method_strings ! method_num m)) method_switch"
  by (simp add: method_switch_def method_strings_def)

lemma method_switchD:
  assumes "map_of method_switch (m, i, c) = Some m'"
  shows "i < length (method_strings ! method_num m')" "method_strings ! method_num m' ! i = c"
    "take i (method_strings ! method_num m') = take i (method_strings ! method_num m)"
  using method_switch_table map_of_SomeD [OF assms] by (auto simp: list_all_iff)

lemma unat_index_Suc: "unat (i :: 7 word) < 127 \<Longrightarrow> unat (i + 1) = Suc (unat i)"
  by (simp add: unat_word_ariths)

lemma method_length: "length (method_strings ! method_num m) \<le> 11"
  by (cases m) (simp_all add: method_strings_def)

context parser_client
begin

lemma pass_message_begin:
  assumes "exec_inv buf True l"
  shows "p_state l = s_start_req_or_res \<Longrightarrow> step_ok buf (cur_p l) 1 (case_start_req_or_res st l)"
    "p_state l = s_start_res \<Longrightarrow> step_ok buf (cur_p l) 0 (case_start_res st l)"
    "p_state l = s_start_req \<Longrightarrow> step_ok buf (cur_p l) 0 (case_start_req st l)"
  using assms
  by (simp_all add: safety_simps case_defs macro_defs Let_def method_string_nonempty
      step_ok_notify [OF message_begin] split: option.split)

lemma pass_status:
  assumes "exec_inv buf True l" "p_state l = s_res_status"
  shows "step_ok buf (cur_p l) 0 (case_res_status st buf l)"
  using assms
  by (auto simp add: safety_simps case_defs macro_defs Let_def callback_status_def
      intro!: step_ok_data [OF status])


lemma pass_url:
  assumes "exec_inv buf True l"
  shows "p_state l \<in> {s_req_schema, s_req_schema_slash, s_req_schema_slash_slash, s_req_server_start} \<Longrightarrow>
      step_ok buf (cur_p l) 0 (case_req_schema l)"
    "p_state l = s_req_spaces_before_url \<Longrightarrow> step_ok buf (cur_p l) 0 (case_req_spaces_before_url l)"
    "p_state l \<in> url_states \<Longrightarrow> step_ok buf (cur_p l) 0 (case_req_url st buf l)"
proof -
  assume "p_state l \<in> {s_req_schema, s_req_schema_slash, s_req_schema_slash_slash, s_req_server_start}"
  then have "p_state l \<in> url_states" by (auto simp: url_states_def)
  then show "step_ok buf (cur_p l) 0 (case_req_schema l)"
    using assms by (simp add: exec_inv_url case_req_schema_def url_step_ok goto_error_def set_errno_def)
next
  assume "p_state l = s_req_spaces_before_url"
  then show "step_ok buf (cur_p l) 0 (case_req_spaces_before_url l)"
    using assms by (simp add: safety_simps case_req_spaces_before_url_def url_step_ok macro_defs Let_def)
next
  assume "p_state l \<in> url_states"
  then have inv: "http_errno (parser l) = HPE_OK" "header_field_mark l = None" "header_value_mark l = None"
      "mark_le (url_mark l) (cur_p l)" "url_mark l \<noteq> None" "body_mark l = None" "status_mark l = None"
      "cur_p l < length buf"
    using assms by (simp_all add: exec_inv_url)
  show "step_ok buf (cur_p l) 0 (case_req_url st buf l)"
    unfolding case_req_url_def callback_url_def macro_defs
    by (intro if_split_ok step_ok_data [OF url] url_step_ok) (use inv in \<open>simp_all add: safety_simps\<close>)
qed

lemma pass_method:
  assumes "exec_inv buf True l" "p_state l = s_req_method"
  shows "step_ok buf (cur_p l) 0 (case_req_method l)"
proof -
  let ?m = "method_strings ! method_num (parser_method (parser l))"
  let ?i = "unat (index (parser l))"
  have i: "?i \<le> length ?m" using assms by (simp add: safety_simps)
  have suc: "unat (index (parser l) + 1) = Suc ?i"
    using i method_length [of "parser_method (parser l)"] by (intro unat_index_Suc) simp
  have less: "?i < length ?m" if "cur_ch l = cstr_at ?m ?i" "cur_ch l \<noteq> NUL"
    using that i by (cases "?i = length ?m") auto
  have m': "Suc ?i \<le> length (method_strings ! method_num m')"
    if "map_of method_switch (parser_method (parser l), ?i, cur_ch l) = Some m'" for m'
    using method_switchD(1) [OF that] by simp
  have i': "\<not> length ?m < ?i" using i by simp
  show ?thesis
    unfolding case_req_method_def Let_def
  proof (intro if_split_ok)
    show "step_ok buf (cur_p l) 0 (case map_of method_switch (parser_method (parser l), ?i, cur_ch l) of
        None \<Rightarrow> goto_error HPE_INVALID_METHOD l
      | Some m \<Rightarrow> Break (upd_parser (\<lambda>pr. pr\<lparr>index := index pr + 1\<rparr>)
          (upd_parser (\<lambda>pr. pr\<lparr>parser_method := m\<rparr>) l)))"
    proof (cases "map_of method_switch (parser_method (parser l), ?i, cur_ch l)")
      case (Some m')
      then show ?thesis
        using assms suc m' [OF Some] by (simp add: safety_simps macro_defs)
    qed (use assms in \<open>simp add: safety_simps macro_defs\<close>)
  qed (use assms i' less suc in \<open>simp_all add: safety_simps macro_defs Suc_le_eq del: cstr_at_less\<close>)
qed
end
end
