(* ===== verification/Parser_Safety_Body.thy ===== *)
theory Parser_Safety_Body
  imports Parser_Safety
begin

text \<open>
  The passes that read header lines and bodies keep the loop invariant, and with the passes of
  \<open>Parser_Safety\<close> the whole of \<open>http_parser_execute\<close> does.
\<close>

section \<open>Header lines\<close>

lemma match_step_in: "match_step s i c f g h \<in> {f, g, h}"
  by (simp add: match_step_def)

lemma header_field_char_ok:
  assumes "header_state pr \<in> field_states"
  shows "\<exists>pr'. header_field_char pr ch c = Some pr' \<and> header_state pr' \<in> field_states \<and>
    http_errno pr' = http_errno pr"
proof -
  have m: "match_step s i c h_general g h \<in> field_states" if "g \<in> field_states" "h \<in> field_states"
    for s i g h
    using match_step_in [of s i c h_general g h] that by (auto simp: field_states_def)
  show ?thesis
    using assms unfolding field_states_def insert_iff empty_iff
    by (elim disjE) (simp_all add: header_field_char_def Let_def m [unfolded field_states_def, simplified])
qed

lemma header_field_loop_ok:
  assumes "header_state pr \<in> field_states"
  shows "\<exists>pr' ch' k. header_field_loop pr ch xs n = Some (pr', ch', n + k) \<and> k \<le> length xs \<and>
    header_state pr' \<in> field_states \<and> http_errno pr' = http_errno pr"
  using assms
proof (induction xs arbitrary: pr ch n)
  case (Cons x xs)
  show ?case
  proof (cases "TOKEN x = NUL")
    case False
    obtain pr1 where 1: "header_field_char pr x (TOKEN x) = Some pr1" "header_state pr1 \<in> field_states"
      "http_errno pr1 = http_errno pr"
      using header_field_char_ok [OF Cons.prems] by blast
    obtain pr' ch' k where "header_field_loop pr1 x xs (Suc n) = Some (pr', ch', Suc n + k)"
      "k \<le> length xs" "header_state pr' \<in> field_states" "http_errno pr' = http_errno pr1"
      using Cons.IH [OF 1(2)] by blast
    then show ?thesis
      using 1 False by (intro exI [of _ pr'] exI [of _ ch'] exI [of _ "Suc k"]) simp
  qed (use Cons.prems in simp)
qed simp

text \<open>What the value loop keeps of the parser, and where it stops.\<close>

definition value_stop_ok :: "http_parser \<Rightarrow> nat \<Rightarrow> nat \<Rightarrow>
    value_stop \<times> http_parser \<times> header_states \<times> char \<times> nat \<Rightarrow> bool" where
  "value_stop_ok pr n len res =
    (case res of (stop, pr', h, ch, m) \<Rightarrow>
      n \<le> m \<and> m \<le> n + len \<and> h \<in> value_states \<and> http_errno pr' = http_errno pr \<and>
      (case stop of
         Stop_end \<Rightarrow> m = n + len
       | Stop_CR \<Rightarrow> m < n + len
       | Stop_LF \<Rightarrow> m < n + len
       | Stop_bad_char \<Rightarrow> True
       | Stop_error e \<Rightarrow> e \<noteq> HPE_PAUSED
       | Stop_assert \<Rightarrow> False))"

lemma header_value_char_ok:
  assumes "h \<in> value_states"
  shows "case header_value_char pr h ch of
      Next_byte pr' h' \<Rightarrow> h' \<in> value_states \<and> http_errno pr' = http_errno pr
    | Value_error e \<Rightarrow> e \<noteq> HPE_PAUSED
    | Value_assert \<Rightarrow> False"
  using assms match_step_in
  by (cases h) (auto simp: header_value_char_def Let_def value_states_def decimal_step_def
      connection_token_start_def match_step_def)

lemma memchr_le: "memchr c (take k xs) = Some j \<Longrightarrow> j < length xs"
proof -
  assume "memchr c (take k xs) = Some j"
  then have j: "j = length (takeWhile (\<lambda>x. x \<noteq> c) (take k xs))" and c: "c \<in> set (take k xs)"
    by (auto simp: memchr_def split: if_splits)
  have "takeWhile (\<lambda>x. x \<noteq> c) (take k xs) \<noteq> take k xs"
    using c by (auto simp: takeWhile_eq_all_conv)
  then have "j < length (take k xs)"
    unfolding j by (metis length_takeWhile_le le_neq_implies_less takeWhile_eq_take take_all order.refl)
  then show ?thesis by simp
qed

lemma general_skip_le: "general_skip xs \<le> length xs"
  using memchr_le [of CR _ xs] memchr_le [of LF _ xs]
  by (auto simp: general_skip_def Let_def less_imp_le split: option.split)

lemma value_stop_ok_step:
  assumes "value_stop_ok pr' (n + k) (length xs) res" "http_errno pr' = http_errno pr"
    "k + length xs = len"
  shows "value_stop_ok pr n len res"
  using assms by (auto simp: value_stop_ok_def split: prod.splits value_stop.splits)

lemma header_value_loop_ok:
  assumes "h \<in> value_states"
  shows "value_stop_ok pr n (length xs) (header_value_loop lnt pr h ch xs n)"
  using assms
proof (induction lnt pr h ch xs n rule: header_value_loop.induct)
  case (2 lnt pr h ch x xs n)
  consider "x = CR \<or> x = LF \<or> \<not> lnt \<and> \<not> IS_HEADER_CHAR x"
    | (general) "x \<noteq> CR" "x \<noteq> LF" "lnt \<or> IS_HEADER_CHAR x" "h = h_general"
    | (other) "x \<noteq> CR" "x \<noteq> LF" "lnt \<or> IS_HEADER_CHAR x" "h \<noteq> h_general"
    by blast
  then show ?case
  proof cases
    case 1
    then show ?thesis using "2.prems" by (auto simp: value_stop_ok_def)
  next
    case general
    let ?k = "general_skip (x # xs)"
    have eq: "header_value_loop lnt pr h ch (x # xs) n =
        header_value_loop lnt pr h x (drop ?k (x # xs)) (n + ?k)"
      using general by auto
    have "value_stop_ok pr (n + ?k) (length (drop ?k (x # xs)))
        (header_value_loop lnt pr h x (drop ?k (x # xs)) (n + ?k))"
      by (rule "2.IH"(1)) (use general "2.prems" in auto)
    then show ?thesis
      unfolding eq
      by (rule value_stop_ok_step) (simp_all only: length_drop le_add_diff_inverse general_skip_le)
  next
    case other
    show ?thesis
    proof (cases "header_value_char pr h x")
      case (Next_byte pr' h')
      have eq: "header_value_loop lnt pr h ch (x # xs) n = header_value_loop lnt pr' h' x xs (Suc n)"
        using other Next_byte by (auto simp del: drop_Suc_Cons)
      have h': "h' \<in> value_states" "http_errno pr' = http_errno pr"
        using header_value_char_ok [OF "2.prems", of pr x] Next_byte by simp_all
      have "value_stop_ok pr' (n + 1) (length xs) (header_value_loop lnt pr' h' x xs (Suc n))"
        using "2.IH"(2) [of pr' h'] other Next_byte h' by auto
      then show ?thesis
        unfolding eq by (rule value_stop_ok_step) (use h' in simp_all)
    qed (use other header_value_char_ok [OF "2.prems", of pr x] "2.prems" in
        \<open>auto simp: value_stop_ok_def\<close>)
  qed
qed (simp add: value_stop_ok_def)

lemma step_ok_count:
  assumes "cur_p l \<le> length buf"
    and "step_ok buf p r (k (upd_parser (\<lambda>pr. pr\<lparr>nread := nread pr + of_nat v\<rparr>) l))"
  shows "step_ok buf p r (count_header_size v l k)"
  using assms by (simp add: count_header_size_def goto_error_def set_errno_def upd_parser_def Let_def)

context parser_client
begin

lemma pass_header_field:
  assumes "exec_inv buf True l" "p_state l = s_header_field"
  shows "step_ok buf (cur_p l) 0 (case_header_field st buf l)"
proof -
  have h: "header_state (parser l) \<in> field_states" and p: "cur_p l < length buf"
    using assms by (simp_all add: safety_simps)
  obtain pr ch k where loop: "header_field_loop (parser l) (cur_ch l) (drop (cur_p l) buf) 0 = Some (pr, ch, k)"
    and k: "cur_p l + k \<le> length buf" and pr: "header_state pr \<in> field_states"
      "http_errno pr = http_errno (parser l)"
    using header_field_loop_ok [OF h, of "cur_ch l" "drop (cur_p l) buf" 0] p by auto
  have n: "Suc (length buf - Suc 0) = length buf" "cur_p l \<le> length buf - Suc 0"
    using p by simp_all
  show ?thesis
    unfolding case_header_field_def loop callback_header_field_def option.case prod.case
    using assms p k pr n mark_le_trans [of _ "cur_p l" "cur_p l + k"] mark_le_trans [OF _ n(2)]
    by (intro step_ok_count if_split_ok step_ok_data [OF header_field])
      (simp_all add: safety_simps macro_defs)
qed

lemma pass_header_value_start:
  assumes "exec_inv buf True l"
  shows "p_state l = s_header_value_start \<Longrightarrow> step_ok buf (cur_p l) 0 (case_header_value_start l)"
    "p_state l = s_header_value_discard_ws \<Longrightarrow> step_ok buf (cur_p l) 0 (case_header_value_discard_ws l)"
proof -
  have "step_ok buf (cur_p l) 0 (case_header_value_start l)"
    if "p_state l = s_header_value_start \<or> p_state l = s_header_value_discard_ws"
    using assms that
    by (elim disjE; cases "header_state (parser l)")
      (simp_all add: case_header_value_start_def safety_simps value_states_def macro_defs Let_def)
  then show "p_state l = s_header_value_start \<Longrightarrow> step_ok buf (cur_p l) 0 (case_header_value_start l)"
    "p_state l = s_header_value_discard_ws \<Longrightarrow> step_ok buf (cur_p l) 0 (case_header_value_discard_ws l)"
    using assms by (auto simp: case_header_value_discard_ws_def safety_simps macro_defs)
qed

lemma pass_header_value_discard_lws:
  assumes "exec_inv buf True l" "p_state l = s_header_value_discard_lws"
  shows "step_ok buf (cur_p l) 3 (case_header_value_discard_lws st buf l)"
  using assms unfolding case_header_value_discard_lws_def callback_header_value_def
  by (auto simp: safety_simps macro_defs mark_at_def intro!: if_split_ok step_ok_data [OF header_value])

lemma pass_header_value:
  assumes "exec_inv buf True l" "p_state l = s_header_value"
  shows "step_ok buf (cur_p l) 1 (case_header_value st buf l)"
proof -
  have h: "header_state (parser l) \<in> value_states" and p: "cur_p l < length buf"
    using assms by (simp_all add: safety_simps)
  have n: "Suc (length buf - Suc 0) = length buf" "cur_p l \<le> length buf - Suc 0"
    using p by simp_all
  let ?res = "header_value_loop (lenient l) (parser l) (header_state (parser l)) (cur_ch l)
      (drop (cur_p l) buf) 0"
  obtain stop pr h_state ch k where res: "?res = (stop, pr, h_state, ch, k)"
    by (cases ?res) auto
  have ok: "value_stop_ok (parser l) 0 (length (drop (cur_p l) buf)) (stop, pr, h_state, ch, k)"
    using header_value_loop_ok [OF h] unfolding res [symmetric] by blast
  then have k: "cur_p l + k \<le> length buf" "h_state \<in> value_states"
      "http_errno pr = http_errno (parser l)"
    using p by (auto simp: value_stop_ok_def)
  have stop: "stop = Stop_CR \<Longrightarrow> Suc (cur_p l + k) \<le> length buf"
    "stop = Stop_LF \<Longrightarrow> cur_p l + k < length buf" "stop = Stop_LF \<Longrightarrow> cur_p l + k \<noteq> length buf"
    "stop = Stop_CR \<Longrightarrow> cur_p l + k \<noteq> length buf"
    "stop = Stop_end \<Longrightarrow> cur_p l + k = length buf"
    "\<And>e. stop = Stop_error e \<Longrightarrow> e \<noteq> HPE_PAUSED" "stop \<noteq> Stop_assert"
    using ok p by (auto simp: value_stop_ok_def)
  show ?thesis
    unfolding case_header_value_def res callback_header_value_def prod.case Let_def
    using assms p n k stop mark_le_trans [of _ "cur_p l" "cur_p l + k"] mark_le_trans [OF _ n(2)]
    by (cases stop; simp only: value_stop.case)
      ((intro step_ok_count if_split_ok step_ok_data [OF header_value])?;
       simp add: safety_simps macro_defs)+
qed

section \<open>End of the headers, and bodies\<close>

lemma return_new_message:
  assumes "plain_state (p_state l)" "upgrade (parser l)" "n \<le> length buf"
  shows "step_ok buf p r (do_return n l)"
  using assms by (simp add: do_return_def return_ok_def parser_ok_def wf_at_plain)

lemma break_new_message:
  assumes "p_state l = NEW_MESSAGE pr" "http_errno (parser l) = HPE_OK" "header_field_mark l = None"
    "header_value_mark l = None" "url_mark l = None" "body_mark l = None" "status_mark l = None"
    "p \<le> cur_p l" "cur_p l < length buf"
  shows "step_ok buf p r (Break l)"
  using assms by (simp add: safety_simps NEW_MESSAGE_def start_state_def)

lemma step_ok_message_complete:
  assumes "http_errno (parser l) = HPE_OK" "cur_p l < length buf"
    and "\<And>l'. p_state l' = NEW_MESSAGE (parser l) \<Longrightarrow> http_errno (parser l') = HPE_OK \<Longrightarrow>
      upgrade (parser l') = upgrade (parser l) \<Longrightarrow>
      cur_p l' = cur_p l \<Longrightarrow> header_field_mark l' = header_field_mark l \<Longrightarrow>
      header_value_mark l' = header_value_mark l \<Longrightarrow> url_mark l' = url_mark l \<Longrightarrow>
      body_mark l' = body_mark l \<Longrightarrow> status_mark l' = status_mark l \<Longrightarrow> step_ok buf p r (k l')"
  shows "step_ok buf p r (message_complete st l k)"
  unfolding message_complete_def
  using assms(1,2) plain_new_message [of "parser l"]
  by (intro step_ok_notify [OF message_complete] assms(3)) (simp_all add: update_state_def wf_at_plain)

lemma pass_message_done:
  assumes "exec_inv buf True l" "p_state l = s_message_done"
  shows "step_ok buf (cur_p l) 0 (case_message_done st l)"
proof -
  have l: "http_errno (parser l) = HPE_OK" "header_field_mark l = None"
    "header_value_mark l = None" "url_mark l = None" "body_mark l = None" "status_mark l = None"
    "cur_p l < length buf" "Suc (cur_p l) \<le> length buf" "cur_p l \<le> length buf"
    using assms by (simp_all add: safety_simps)
  show ?thesis
    unfolding case_message_done_def
    by (intro step_ok_message_complete if_split_ok return_new_message; (erule break_new_message)?)
      (simp_all add: l plain_new_message)
qed

lemma pass_headers_done:
  assumes "exec_inv buf True l" "p_state l = s_headers_done"
  shows "step_ok buf (cur_p l) 0 (case_headers_done st l)"
proof -
  have l: "http_errno (parser l) = HPE_OK" "header_field_mark l = None"
    "header_value_mark l = None" "url_mark l = None" "body_mark l = None" "status_mark l = None"
    "cur_p l < length buf" "Suc (cur_p l) \<le> length buf" "cur_p l \<le> length buf"
    using assms by (simp_all add: safety_simps)
  show ?thesis
    unfolding case_headers_done_def strict_check_def Let_def
    by (intro if_split_ok step_ok_message_complete return_new_message; (erule break_new_message)?)
      (simp_all add: l plain_new_message upd_parser_def,
       simp_all add: safety_simps macro_defs l)
qed

lemma pass_headers_almost_done:
  assumes "exec_inv buf True l" "p_state l = s_headers_almost_done"
  shows "step_ok buf (cur_p l) 1 (case_headers_almost_done st l)"
proof -
  have complete: "step_ok buf (cur_p l) 1 (call_headers_complete st (upd_parser f (update_state s_headers_done l)))"
    if "\<And>pr. http_errno (f pr) = http_errno pr" for f
    unfolding step_ok_def using assms that
    by (intro flow_sat_headers_complete [OF headers_complete])
      (auto simp: safety_simps macro_defs return_ok_def parser_ok_def)
  show ?thesis
    unfolding case_headers_almost_done_def strict_check_def Let_def
    using assms
    by (intro if_split_ok complete step_ok_notify [OF chunk_complete])
      (simp_all add: safety_simps macro_defs)
qed

lemma pass_chunk_notify:
  assumes "exec_inv buf True l"
  shows "p_state l = s_chunk_size_almost_done \<Longrightarrow> step_ok buf (cur_p l) 0 (case_chunk_size_almost_done st l)"
    "p_state l = s_chunk_data_done \<Longrightarrow> step_ok buf (cur_p l) 0 (case_chunk_data_done st l)"
  using assms
  by (simp_all add: safety_simps case_defs macro_defs Let_def flag_simps
      step_ok_notify [OF chunk_header] step_ok_notify [OF chunk_complete])

lemma pass_body_identity_eof:
  assumes "exec_inv buf True l" "p_state l = s_body_identity_eof"
  shows "step_ok buf (cur_p l) 0 (case_body_identity_eof buf l)"
proof -
  have n: "Suc (length buf - Suc 0) = length buf" "cur_p l \<le> length buf - Suc 0"
    using assms by (auto simp: safety_simps)
  then show ?thesis
    using assms mark_le_trans [of "mark_at (cur_p l) (body_mark l)", OF _ n(2)]
    by (simp add: safety_simps case_body_identity_eof_def mark_body_def)
qed

lemma take_body_facts:
  assumes "length buf < 2 ^ 64" "cur_p l < length buf" "content_length (parser l) \<noteq> 0"
    "content_length (parser l) \<noteq> ULLONG_MAX"
  shows "cur_p l \<le> cur_p (take_body buf l)" "cur_p (take_body buf l) < length buf"
    "content_length (parser l) - to_read buf l \<noteq> ULLONG_MAX"
proof -
  have "0 < unat (content_length (parser l))"
    using assms(3) by (simp add: unat_gt_0)
  then show "cur_p l \<le> cur_p (take_body buf l)" "cur_p (take_body buf l) < length buf"
    using unat_to_read [OF assms(1), of l] assms(2)
    by (simp_all add: take_body_def upd_parser_def mark_body_def Let_def)
  have "unat (content_length (parser l)) < 2 ^ 64 - 1"
  proof -
    have "unat (content_length (parser l)) < 2 ^ LENGTH(64)"
      by (rule unsigned_less)
    then show ?thesis
      using assms(4) by (simp add: eq_ULLONG_MAX)
  qed
  then show "content_length (parser l) - to_read buf l \<noteq> ULLONG_MAX"
    unfolding eq_ULLONG_MAX unat_minus_to_read [OF assms(1)] by linarith
qed

lemma take_body_simps [simp]:
  "p_state (take_body buf l) = p_state l" "header_field_mark (take_body buf l) = header_field_mark l"
  "header_value_mark (take_body buf l) = header_value_mark l" "url_mark (take_body buf l) = url_mark l"
  "status_mark (take_body buf l) = status_mark l" "body_mark (take_body buf l) = mark_at (cur_p l) (body_mark l)"
  "parser (take_body buf l) = (parser l)\<lparr>content_length := content_length (parser l) - to_read buf l\<rparr>"
  by (simp_all add: take_body_def upd_parser_def mark_body_def Let_def)

lemma pass_body:
  assumes "exec_inv buf True l" "length buf < 2 ^ 64"
  shows "p_state l = s_body_identity \<Longrightarrow> step_ok buf (cur_p l) 1 (case_body_identity st buf l)"
    "p_state l = s_chunk_data \<Longrightarrow> step_ok buf (cur_p l) 0 (case_chunk_data buf l)"
    "p_state l = s_chunk_data_almost_done \<Longrightarrow>
      step_ok buf (cur_p l) 0 (case_chunk_data_almost_done st buf l)"
proof -
  have le: "mark_le m (cur_p l) \<Longrightarrow> cur_p l \<le> q \<Longrightarrow> mark_le m q" for m q
    by (rule mark_le_trans)
  {
    assume s: "p_state l = s_body_identity"
    then have l: "content_length (parser l) \<noteq> 0" "content_length (parser l) \<noteq> ULLONG_MAX"
      "cur_p l < length buf" using assms by (simp_all add: safety_simps)
    note t = take_body_facts [OF assms(2) l(3,1,2)]
    have mk: "m \<le> Suc (cur_p (take_body buf l))" if "mark_at (cur_p l) (body_mark l) = Some m" for m
    proof -
      have "mark_le (mark_at (cur_p l) (body_mark l)) (Suc (cur_p (take_body buf l)))"
        using assms(1) s t le by (simp add: safety_simps)
      then show ?thesis using that by simp
    qed
    show "step_ok buf (cur_p l) 1 (case_body_identity st buf l)"
      unfolding case_body_identity_def callback_body_def Let_def update_state_def
      using assms s l t mk
      by (intro if_split_ok step_ok_data [OF body]) (auto simp: safety_simps le)
  next
    assume s: "p_state l = s_chunk_data"
    then have l: "content_length (parser l) \<noteq> 0" "content_length (parser l) \<noteq> ULLONG_MAX"
      "cur_p l < length buf" using assms by (simp_all add: safety_simps)
    note t = take_body_facts [OF assms(2) l(3,1,2)]
    show "step_ok buf (cur_p l) 0 (case_chunk_data buf l)"
      unfolding case_chunk_data_def Let_def update_state_def
      using assms s l t by (auto simp: safety_simps le)
  next
    assume "p_state l = s_chunk_data_almost_done"
    then show "step_ok buf (cur_p l) 0 (case_chunk_data_almost_done st buf l)"
      unfolding case_chunk_data_almost_done_def callback_body_def strict_check_def
      using assms
      by (intro if_split_ok step_ok_data [OF body]) (auto simp: safety_simps macro_defs)
  }
qed

section \<open>The loop\<close>

lemma pass_ok:
  assumes "exec_inv buf True l" "length buf < 2 ^ 64"
  shows "step_ok buf (cur_p l) (rank (p_state l)) (exec_switch st buf l)"
  by (cases "p_state l")
    (simp_all add: exec_switch_def rank_def url_states_def pass_plain [OF assms(1)]
      pass_message_begin [OF assms(1)] pass_status [OF assms(1)] pass_url [OF assms(1)]
      pass_method [OF assms(1)] pass_header_field [OF assms(1)] pass_header_value_start [OF assms(1)]
      pass_header_value_discard_lws [OF assms(1)] pass_header_value [OF assms(1)]
      pass_headers_almost_done [OF assms(1)] pass_headers_done [OF assms(1)]
      pass_message_done [OF assms(1)] pass_chunk_notify [OF assms(1)]
      pass_body_identity_eof [OF assms(1)] pass_body [OF assms] del: One_nat_def)

end

lemma wf_at_fetch:
  assumes "wf_at 0 s pr"
  shows "PARSING_HEADER s \<Longrightarrow> wf_at 1 s (pr\<lparr>nread := nread pr + 1\<rparr>)" "\<not> PARSING_HEADER s \<Longrightarrow> wf_at 1 s pr"
  using assms by (cases s; simp add: PARSING_HEADER_def less_eq_state_def)+

lemma fetch_ok:
  assumes "exec_inv buf False l" "cur_p l \<noteq> length buf"
  shows "flow_sat (\<lambda>_. False)
    (\<lambda>l'. exec_inv buf True l' \<and> cur_p l' = cur_p l \<and> p_state l' = p_state l)
    (\<lambda>l'. cur_p l' \<le> length buf \<and> http_errno (parser l') \<noteq> HPE_PAUSED)
    (\<lambda>_ _. False) (exec_fetch buf l)"
proof -
  have le: "text_ok (l\<lparr>cur_p := cur_p l - 1\<rparr>) S m \<Longrightarrow> text_ok (l\<lparr>cur_ch := c\<rparr>) S m"
    "text_ok (l\<lparr>cur_p := cur_p l - 1\<rparr>) S m \<Longrightarrow> text_ok (l\<lparr>cur_ch := c, parser := pr\<rparr>) S m"
    "mark_ok (l\<lparr>cur_p := cur_p l - 1\<rparr>) S m \<Longrightarrow> mark_ok (l\<lparr>cur_ch := c\<rparr>) S m"
    "mark_ok (l\<lparr>cur_p := cur_p l - 1\<rparr>) S m \<Longrightarrow> mark_ok (l\<lparr>cur_ch := c, parser := pr\<rparr>) S m" for S m c pr
    using mark_le_trans [of m "cur_p l - 1" "cur_p l"] by (auto simp: text_ok_def mark_ok_def)
  show ?thesis
    using assms wf_at_fetch [of "p_state l" "parser l"]
    by (auto simp: exec_fetch_def count_header_size_def upd_parser_def goto_error_def set_errno_def
        Let_def exec_inv_def marks_ok_def simp del: One_nat_def intro!: le)
qed

lemma error_ok:
  assumes "cur_p l \<le> length buf" "http_errno (parser l) \<noteq> HPE_PAUSED"
  shows "\<exists>pr w. flow_result (exec_error l) = Returned (cur_p l) pr w \<and> return_ok buf (cur_p l) pr"
  using assms
  by (auto simp: exec_error_def do_return_def set_errno_def flow_result_def return_ok_def parser_ok_def)

definition at_end :: "char list \<Rightarrow> 'v locals \<Rightarrow> bool" where
  "at_end buf l \<longleftrightarrow> http_errno (parser l) = HPE_OK \<and> wf_at 0 (p_state l) (parser l) \<and>
    cur_p l = length buf \<and> mark_le (header_field_mark l) (length buf) \<and>
    mark_le (header_value_mark l) (length buf) \<and> mark_le (url_mark l) (length buf) \<and>
    mark_le (body_mark l) (length buf) \<and> mark_le (status_mark l) (length buf)"

lemma at_end_data:
  assumes "at_end buf l" "polite_data_cb cb" "e \<noteq> HPE_OK" "mark_le mark (length buf)"
    and "\<And>l'. at_end buf l' \<Longrightarrow> at_end buf (clear l')"
    and "\<And>l'. at_end buf l' \<Longrightarrow> flow_sat B R E (\<lambda>n l. return_ok buf n (parser l)) (k l')"
  shows "flow_sat B R E (\<lambda>n l. return_ok buf n (parser l))
    (callback_data mark clear cb e buf (length buf) (length buf) l k)"
proof -
  have "at_end buf (l\<lparr>parser := stored l, app := w\<rparr>)" for w
    using assms(1) by (simp add: at_end_def)
  then show ?thesis
    using assms
    by (intro flow_sat_data) (auto simp: at_end_def return_stopped)
qed

context parser_client
begin

lemma finish_ok:
  assumes "exec_inv buf False l" "cur_p l = length buf"
  shows "flow_sat (\<lambda>_. False) (\<lambda>_. False) (\<lambda>_. False) (\<lambda>n l. return_ok buf n (parser l))
    (exec_finish st buf l)"
proof -
  have one: "marks_left l \<le> 1"
    using assms(1)
    by (cases "p_state l") (simp_all add: marks_left_def safety_simps)
  have le: "mark_ok (l\<lparr>cur_p := cur_p l - 1\<rparr>) S m \<Longrightarrow> mark_le m (length buf)" for S m
    using assms(2) by (cases m) (auto simp: mark_ok_def split: if_splits)
  have "at_end buf l"
    using assms le by (auto simp: at_end_def exec_inv_def marks_ok_def text_ok_def simp del: One_nat_def)
  moreover have "return_ok buf (length buf) (stored l')" if "at_end buf l'" for l' :: "'w locals"
    using that by (simp add: at_end_def return_ok_def parser_ok_def)
  ultimately show ?thesis
    unfolding exec_finish_def Let_def callback_header_field_def callback_header_value_def
      callback_url_def callback_body_def callback_status_def assms(2)
    using one
    by (intro flow_sat_if at_end_data header_field header_value url body status)
      (auto simp: at_end_def do_return_def)
qed

lemma run_ok:
  assumes "exec_inv buf re l" "length buf < 2 ^ 64"
  shows "\<exists>n pr w. exec_run st buf re l = Some (Returned n pr w) \<and> return_ok buf n pr"
  using assms(1)
proof (induction "5 * (length buf - cur_p l) + (if re then rank (p_state l) else 4)"
    arbitrary: re l rule: less_induct)
  case less
  note IH = less.hyps and inv = less.prems
  consider (finish) "\<not> re" "cur_p l = length buf" | (fetch) "\<not> re" "cur_p l \<noteq> length buf" | (switch) re
    by blast
  then show ?case
  proof cases
    case finish
    then obtain n l' where "exec_finish st buf l = Return n l'" "return_ok buf n (parser l')"
      using finish_ok [of buf l] inv by (cases "exec_finish st buf l") auto
    then show ?thesis
      using finish by (simp add: exec_run_end flow_result_def)
  next
    case fetch
    have re: "re = False" using fetch by simp
    have run: "exec_run st buf False l = (case exec_fetch buf l of
         Break l' \<Rightarrow> exec_run st buf False (l'\<lparr>cur_p := cur_p l' + 1\<rparr>)
       | Reexecute l' \<Rightarrow> exec_run st buf True l'
       | Goto_error l' \<Rightarrow> Some (flow_result (exec_error l'))
       | Return n l' \<Rightarrow> Some (flow_result (Return n l'))
       | Abort \<Rightarrow> Some Aborted)"
      using fetch exec_run_fetch [of l buf st] by simp
    show ?thesis
    proof (cases "exec_fetch buf l")
      case (Reexecute l')
      then have l': "exec_inv buf True l'" "cur_p l' = cur_p l" "p_state l' = p_state l"
        using fetch_ok [of buf l] fetch inv by auto
      show ?thesis
        unfolding re run Reexecute flow.case
        by (rule IH) (use l' fetch rank_le [of "p_state l"] in simp_all)
    next
      case (Goto_error l')
      then show ?thesis
        using fetch_ok [of buf l] error_ok [of l' buf] fetch inv by (auto simp: re run)
    qed (use fetch_ok [of buf l] fetch inv in auto)
  next
    case switch
    have re: "re = True" using switch by simp
    have run: "exec_run st buf True l = (case exec_switch st buf l of
         Break l' \<Rightarrow> exec_run st buf False (l'\<lparr>cur_p := cur_p l' + 1\<rparr>)
       | Reexecute l' \<Rightarrow> exec_run st buf True l'
       | Goto_error l' \<Rightarrow> Some (flow_result (exec_error l'))
       | Return n l' \<Rightarrow> Some (flow_result (Return n l'))
       | Abort \<Rightarrow> Some Aborted)"
      using switch exec_run_switch [of st buf l] by simp
    have ok: "step_ok buf (cur_p l) (rank (p_state l)) (exec_switch st buf l)"
      using pass_ok inv switch assms(2) by simp
    show ?thesis
    proof (cases "exec_switch st buf l")
      case (Break l')
      then have l': "exec_inv buf False (l'\<lparr>cur_p := cur_p l' + 1\<rparr>)" "cur_p l \<le> cur_p l'"
        using ok by simp_all
      show ?thesis
        unfolding re run Break flow.case
        by (rule IH) (use l' switch in \<open>auto simp: exec_inv_def\<close>)
    next
      case (Reexecute l')
      then have l': "exec_inv buf True l'" "cur_p l \<le> cur_p l'" "rank (p_state l') < rank (p_state l)"
        using ok by simp_all
      show ?thesis
        unfolding re run Reexecute flow.case
        by (rule IH) (use l' switch in \<open>simp_all\<close>)
    next
      case (Goto_error l')
      then show ?thesis
        using ok error_ok [of l' buf] by (auto simp: re run)
    next
      case (Return n l')
      then show ?thesis
        using ok by (simp add: re run flow_result_def)
    qed (use ok in simp)
  qed
qed


section \<open>The function\<close>

lemma init_inv:
  assumes "http_errno pr = HPE_OK" "wf_at 0 (state pr) pr"
  shows "exec_inv buf False (init_locals pr w)"
  using assms
  by (cases "state pr")
    (simp_all add: init_locals_def exec_inv_def marks_ok_def text_ok_def mark_ok_def body_states_def url_states_def)

lemma eof_ok:
  assumes "http_errno pr = HPE_OK" "wf_at 0 (state pr) pr"
  shows "\<exists>n l'. exec_eof st (init_locals pr w) = Return n l' \<and> n \<le> 1 \<and> parser_ok (parser l') \<and>
    (n = 0 \<or> http_errno (parser l') = HPE_INVALID_EOF_STATE)"
proof -
  have "flow_sat (\<lambda>_. False) (\<lambda>_. False) (\<lambda>_. False)
      (\<lambda>n l'. n \<le> 1 \<and> parser_ok (parser l') \<and> (n = 0 \<or> http_errno (parser l') = HPE_INVALID_EOF_STATE))
      (exec_eof st (init_locals pr w))"
    unfolding exec_eof_def using assms
    by (intro flow_sat_if flow_sat_notify [OF message_complete])
      (auto simp: init_locals_def parser_ok_def set_errno_def)
  then show ?thesis
    by (cases "exec_eof st (init_locals pr w)") auto
qed

lemma execute_ok:
  assumes "parser_ok pr" "length buf < 2 ^ 64"
  shows "\<exists>n pr' w'. http_parser_execute st buf pr w = Some (Returned n pr' w') \<and> parser_ok pr' \<and>
    n \<le> max 1 (length buf) \<and>
    (http_errno pr' = HPE_OK \<longrightarrow> n = length buf \<or> upgrade pr')"
proof (cases "http_errno pr = HPE_OK")
  case False
  then show ?thesis using assms by (auto simp: http_parser_execute_def)
next
  case True
  then have wf: "wf_at 0 (state pr) pr" using assms by (simp add: parser_ok_def)
  show ?thesis
  proof (cases "buf = []")
    case True
    then show ?thesis
      using eof_ok [OF \<open>http_errno pr = HPE_OK\<close> wf, of w] \<open>http_errno pr = HPE_OK\<close>
      by (auto simp: http_parser_execute_def flow_result_def)
  next
    case False
    then show ?thesis
      using run_ok [OF init_inv [OF True wf, of buf w] assms(2)] True
      by (fastforce simp: http_parser_execute_def return_ok_def)
  qed
qed

end

end
