(* ===== verification/Parser_Trace.thy ===== *)
theory Parser_Trace
  imports Parser_Client Parser_Numbers
begin

text \<open>
  Runs of the parser, byte by byte.  \<open>recorder\<close> is an application that notes every callback it
  gets, in order and with its bytes: what it has noted at the end is what the parser made of the
  input.  The lemmas here take a run over one byte; the round trips are chains of them.
\<close>

section \<open>The recording application\<close>

datatype (plugins only: code size) event =
    Ev_message_begin | Ev_url "char list" | Ev_status "char list" | Ev_header_field "char list"
  | Ev_header_value "char list" | Ev_headers_complete "16 word" | Ev_body "char list" | Ev_message_complete
  | Ev_chunk_header "64 word" | Ev_chunk_complete

definition jot :: "event \<Rightarrow> event list http_cb" where
  "jot e = (\<lambda>pr w. (0, pr, w @ [e]))"

definition jot_data :: "(char list \<Rightarrow> event) \<Rightarrow> event list http_data_cb" where
  "jot_data e = (\<lambda>pr bytes w. (0, pr, w @ [e bytes]))"

definition recorder :: "event list http_parser_settings" where
  "recorder =
    \<lparr>on_message_begin = Some (jot Ev_message_begin), on_url = Some (jot_data Ev_url),
     on_status = Some (jot_data Ev_status), on_header_field = Some (jot_data Ev_header_field),
     on_header_value = Some (jot_data Ev_header_value),
     on_headers_complete = Some (\<lambda>pr w. (0, pr, w @ [Ev_headers_complete (status_code pr)])), on_body = Some (jot_data Ev_body),
     on_message_complete = Some (jot Ev_message_complete),
     on_chunk_header = Some (\<lambda>pr w. (0, pr, w @ [Ev_chunk_header (content_length pr)])),
     on_chunk_complete = Some (jot Ev_chunk_complete)\<rparr>"

lemma polite_jot: "polite_cb (Some (jot e))" "polite_data_cb (Some (jot_data d))"
  by (simp_all add: polite_cb_def polite_data_cb_def jot_def jot_data_def)

interpretation recorder: parser_client recorder
  by unfold_locales (simp_all add: recorder_def polite_jot)

text \<open>What its callbacks do to a pass.\<close>

lemma after_jot [simp]:
  "http_errno (parser l) = HPE_OK \<Longrightarrow> callback_notify (Some (jot e)) er n l k =
    k (l\<lparr>parser := stored l, app := app l @ [e]\<rparr>)"
  by (simp add: callback_notify_def jot_def after_callback_def)

lemma after_jot_data [simp]:
  "http_errno (parser l) = HPE_OK \<Longrightarrow> m \<le> q \<Longrightarrow> q \<le> length buf \<Longrightarrow>
    callback_data (Some m) clear (Some (jot_data e)) er buf q n l k =
    k (clear (l\<lparr>parser := stored l, app := app l @ [e (subbuf buf m q)]\<rparr>))"
  by (simp add: callback_data_def jot_data_def after_callback_def)

lemma callback_data_unmarked [simp]:
  "http_errno (parser l) = HPE_OK \<Longrightarrow> callback_data None clear cb er buf q n l k = k l"
  by (simp add: callback_data_def)

lemma recorder_sel [simp]:
  "on_message_begin recorder = Some (jot Ev_message_begin)"
  "on_url recorder = Some (jot_data Ev_url)"
  "on_status recorder = Some (jot_data Ev_status)"
  "on_header_field recorder = Some (jot_data Ev_header_field)"
  "on_header_value recorder = Some (jot_data Ev_header_value)"
  "on_headers_complete recorder = Some (\<lambda>pr w. (0, pr, w @ [Ev_headers_complete (status_code pr)]))"
  "on_body recorder = Some (jot_data Ev_body)"
  "on_message_complete recorder = Some (jot Ev_message_complete)"
  "on_chunk_complete recorder = Some (jot Ev_chunk_complete)"
  "on_chunk_header recorder = Some (\<lambda>pr w. (0, pr, w @ [Ev_chunk_header (content_length pr)]))"
  by (simp_all add: recorder_def)

section \<open>One byte\<close>

text \<open>The parser with \<open>n\<close> more header bytes counted, and the room for them.\<close>

definition tick :: "nat \<Rightarrow> http_parser \<Rightarrow> http_parser" where
  "tick n pr = pr\<lparr>nread := nread pr + of_nat n\<rparr>"

definition room :: "nat \<Rightarrow> http_parser \<Rightarrow> bool" where
  "room n pr \<longleftrightarrow> unat (nread pr) + n \<le> HTTP_MAX_HEADER_SIZE"

lemma tick_sel [simp]:
  "parser_type (tick n pr) = parser_type pr" "flags (tick n pr) = flags pr"
  "state (tick n pr) = state pr" "header_state (tick n pr) = header_state pr"
  "index (tick n pr) = index pr" "lenient_http_headers (tick n pr) = lenient_http_headers pr"
  "content_length (tick n pr) = content_length pr" "http_major (tick n pr) = http_major pr"
  "http_minor (tick n pr) = http_minor pr" "status_code (tick n pr) = status_code pr"
  "parser_method (tick n pr) = parser_method pr" "http_errno (tick n pr) = http_errno pr"
  "upgrade (tick n pr) = upgrade pr" "parser_data (tick n pr) = parser_data pr"
  by (simp_all add: tick_def)

lemma tick_tick [simp]: "tick n (tick m pr) = tick (m + n) pr"
  by (simp add: tick_def add.assoc)

lemma tick_0 [simp]: "tick 0 pr = pr"
  by (simp add: tick_def)

lemma tick_upd [simp]:
  "tick n (pr\<lparr>parser_type := t\<rparr>) = (tick n pr)\<lparr>parser_type := t\<rparr>"
  "tick n (pr\<lparr>flags := f\<rparr>) = (tick n pr)\<lparr>flags := f\<rparr>"
  "tick n (pr\<lparr>state := s\<rparr>) = (tick n pr)\<lparr>state := s\<rparr>"
  "tick n (pr\<lparr>header_state := h\<rparr>) = (tick n pr)\<lparr>header_state := h\<rparr>"
  "tick n (pr\<lparr>index := i\<rparr>) = (tick n pr)\<lparr>index := i\<rparr>"
  "tick n (pr\<lparr>content_length := c\<rparr>) = (tick n pr)\<lparr>content_length := c\<rparr>"
  "tick n (pr\<lparr>http_major := v\<rparr>) = (tick n pr)\<lparr>http_major := v\<rparr>"
  "tick n (pr\<lparr>http_minor := v\<rparr>) = (tick n pr)\<lparr>http_minor := v\<rparr>"
  "tick n (pr\<lparr>status_code := c2\<rparr>) = (tick n pr)\<lparr>status_code := c2\<rparr>"
  "tick n (pr\<lparr>parser_method := m\<rparr>) = (tick n pr)\<lparr>parser_method := m\<rparr>"
  "tick n (pr\<lparr>upgrade := u\<rparr>) = (tick n pr)\<lparr>upgrade := u\<rparr>"
  by (simp_all add: tick_def)

lemma room_mono: "room n pr \<Longrightarrow> m \<le> n \<Longrightarrow> room m pr"
  by (simp add: room_def)

lemma unat_nread_tick: "room n pr \<Longrightarrow> unat (nread (tick n pr)) = unat (nread pr) + n"
proof -
  assume r: "room n pr"
  then have "unat (nread pr) + n < 2 ^ 32"
    by (simp add: room_def HTTP_MAX_HEADER_SIZE_def)
  then show ?thesis
    by (simp add: tick_def unat_word_ariths unat_of_nat mod_simps)
qed

lemma room_tick: "room (n + m) pr \<Longrightarrow> room m (tick n pr)"
  using unat_nread_tick [of n pr] by (simp add: room_def)

lemma room_upd [simp]:
  "room n (pr\<lparr>parser_type := t\<rparr>) = room n pr" "room n (pr\<lparr>flags := f\<rparr>) = room n pr"
  "room n (pr\<lparr>state := s\<rparr>) = room n pr" "room n (pr\<lparr>header_state := h\<rparr>) = room n pr"
  "room n (pr\<lparr>index := i\<rparr>) = room n pr" "room n (pr\<lparr>content_length := c\<rparr>) = room n pr"
  "room n (pr\<lparr>http_major := v\<rparr>) = room n pr" "room n (pr\<lparr>http_minor := v\<rparr>) = room n pr"
  "room n (pr\<lparr>status_code := c2\<rparr>) = room n pr" "room n (pr\<lparr>parser_method := m\<rparr>) = room n pr"
  "room n (pr\<lparr>upgrade := u\<rparr>) = room n pr"
  by (simp_all add: room_def)

lemma count_ok:
  "room n (parser l) \<Longrightarrow> count_header_size n l k = k (l\<lparr>parser := tick n (parser l)\<rparr>)"
  using unat_nread_tick [of n "parser l"]
  by (simp add: count_header_size_def upd_parser_def Let_def room_def tick_def)

text \<open>\<open>l\<close> with the byte at \<open>p\<close> fetched.\<close>

definition fetched :: "char list \<Rightarrow> 'w locals \<Rightarrow> 'w locals" where
  "fetched buf l =
    l\<lparr>cur_ch := buf ! cur_p l,
      parser := (if PARSING_HEADER (p_state l) then tick 1 (parser l) else parser l)\<rparr>"

lemma exec_run_byte:
  assumes "cur_p l < length buf" "PARSING_HEADER (p_state l) \<Longrightarrow> room 1 (parser l)"
  shows "exec_run st buf False l = exec_run st buf True (fetched buf l)"
proof -
  have "exec_fetch buf l = Reexecute (fetched buf l)"
    using assms by (simp add: exec_fetch_def fetched_def count_ok)
  then show ?thesis
    using assms(1) by (simp add: exec_run_fetch)
qed

lemma run_break:
  assumes "exec_switch st buf l = Break l'"
  shows "exec_run st buf True l = exec_run st buf False (l'\<lparr>cur_p := cur_p l' + 1\<rparr>)"
  using assms by (simp add: exec_run_switch)

lemma run_reexecute:
  assumes "exec_switch st buf l = Reexecute l'"
  shows "exec_run st buf True l = exec_run st buf True l'"
  using assms by (simp add: exec_run_switch)

text \<open>Once \<open>p\<close> has moved on, the byte read last does not matter.\<close>

lemma callback_data_ch:
  assumes "\<And>l. clear (l\<lparr>cur_ch := c\<rparr>) = (clear l)\<lparr>cur_ch := c\<rparr>"
    and "\<And>l. flow_result (k (l\<lparr>cur_ch := c\<rparr>)) = flow_result (k l)"
  shows "flow_result (callback_data m clear cb e buf q er (l\<lparr>cur_ch := c\<rparr>) k) =
    flow_result (callback_data m clear cb e buf q er l k)"
proof -
  have "after_callback e res (l\<lparr>cur_ch := c\<rparr>) = (after_callback e res l)\<lparr>cur_ch := c\<rparr>" for res
    by (cases res) (simp add: after_callback_def Let_def)
  then show ?thesis
    using assms by (auto simp: callback_data_def Let_def flow_result_def split: option.split)
qed

lemma finish_ch:
  "flow_result (exec_finish st buf (l\<lparr>cur_ch := c\<rparr>)) = flow_result (exec_finish st buf l)"
  unfolding exec_finish_def Let_def callback_header_field_def callback_header_value_def
    callback_url_def callback_body_def callback_status_def
  by (simp add: marks_left_def callback_data_ch do_return_def flow_result_def [of "Return _ _"])

lemma run_ch: "exec_run st buf False (l\<lparr>cur_ch := c\<rparr>) = exec_run st buf False l"
proof (cases "cur_p l = length buf")
  case True
  then show ?thesis by (simp add: exec_run_end finish_ch)
next
  case False
  then show ?thesis by (simp add: exec_run_fetch exec_fetch_def)
qed

end
