(* ===== verification/Parser_Properties.thy ===== *)
theory Parser_Properties
  imports Parser_Safety_Body Parser_Trace
begin

text \<open>
  What holds of every call of \<open>http_parser_execute\<close>.
\<close>

text \<open>
  C1: Whatever the buffer, for a parser that keeps the invariant and callbacks that leave the parser
  alone or pause it, the call returns; no assertion fails and nothing outside the buffer or a
  string table is read; it reports at most the bytes it was given (one, when it was given none);
  and the parser it leaves keeps the invariant again.
\<close>

theorem execute_safe:
  assumes "parser_client st" "parser_ok pr" "length buf < 2 ^ 64"
  shows "\<exists>n pr' w'. http_parser_execute st buf pr w = Some (Returned n pr' w') \<and> parser_ok pr' \<and>
    n \<le> max 1 (length buf)"
  using parser_client.execute_ok [OF assms] by blast

theorem execute_safe_witness:
  "\<exists>n pr' w'. http_parser_execute recorder ''HTTP/1.1 200 OK''
      (http_parser_init zero_parser HTTP_RESPONSE) [] = Some (Returned n pr' w') \<and> parser_ok pr' \<and>
    n \<le> max 1 (length ''HTTP/1.1 200 OK'')"
  by (rule execute_safe)
    (simp_all add: recorder.parser_client_axioms parser_ok_def http_parser_init_def)

text \<open>
  C16: A call on a non-empty buffer that ends without an error code has parsed the whole buffer,
  unless the message asked for an upgrade: the only early return without an error.
\<close>

theorem execute_complete:
  assumes "parser_client st" "parser_ok pr" "length buf < 2 ^ 64"
    and "http_parser_execute st buf pr w = Some (Returned n pr' w')" "http_errno pr' = HPE_OK"
  shows "n = length buf \<or> upgrade pr'"
  using parser_client.execute_ok [OF assms(1-3), of w] assms(4,5) by auto

theorem execute_complete_witness:
  "\<exists>n pr'. http_parser_execute recorder [CR] (http_parser_init zero_parser HTTP_REQUEST) [] =
      Some (Returned n pr' []) \<and> (n = length [CR] \<or> upgrade pr')"
proof -
  let ?pr = "(http_parser_init zero_parser HTTP_REQUEST)\<lparr>nread := 1\<rparr>"
  have run: "http_parser_execute recorder [CR] (http_parser_init zero_parser HTTP_REQUEST) [] =
      Some (Returned 1 ?pr [])"
    by (simp add: http_parser_execute_def http_parser_init_def init_locals_def url_states_def
        exec_run_fetch exec_fetch_def PARSING_HEADER_def less_eq_state_def count_header_size_def
        upd_parser_def HTTP_MAX_HEADER_SIZE_def exec_run_switch exec_switch_def case_start_req_def
        exec_run_end exec_finish_def marks_left_def callback_header_field_def
        callback_header_value_def callback_url_def callback_body_def callback_status_def
        do_return_def flow_result_def)
  show ?thesis
    using execute_complete [OF recorder.parser_client_axioms _ _ run] run
    by (auto simp: parser_ok_def http_parser_init_def)
qed

end
