(* ===== verification/Url_Parse.thy ===== *)
theory Url_Parse
  imports Url_Chars Numerals
begin

text \<open>
  \<open>http_parser_parse_url\<close> of \<open>http_parser.c\<close>: the fields of a URL as offsets into the buffer, the host
  taken apart by \<open>http_parse_host\<close>, the port as a number.

  The code is given a pointer and a length, but reads the port with \<open>strtoul\<close>, which knows no length.
  The model is therefore given the memory \<open>mem\<close> from the pointer on, up to where it may be read, and
  the length \<open>buflen\<close>.  \<open>None\<close> is a read past the end of \<open>mem\<close> or a failed assertion.
\<close>

section \<open>The result structure\<close>

datatype (plugins only: code size) http_parser_url_fields =
  UF_SCHEMA | UF_HOST | UF_PORT | UF_PATH | UF_QUERY | UF_FRAGMENT | UF_USERINFO | UF_MAX

primrec uf_num :: "http_parser_url_fields \<Rightarrow> nat" where
  "uf_num UF_SCHEMA = 0"
| "uf_num UF_HOST = 1"
| "uf_num UF_PORT = 2"
| "uf_num UF_PATH = 3"
| "uf_num UF_QUERY = 4"
| "uf_num UF_FRAGMENT = 5"
| "uf_num UF_USERINFO = 6"
| "uf_num UF_MAX = 7"

text \<open>\<open>off\<close> and \<open>len\<close> of a field, 16 bits each; the array is indexed by the enumeration.\<close>

record url_field =
  field_off :: "16 word"
  field_len :: "16 word"

record http_parser_url =
  field_set :: "16 word"
  url_port :: "16 word"
  field_data :: "http_parser_url_fields \<Rightarrow> url_field"

definition http_parser_url_init :: http_parser_url where
  "http_parser_url_init =
    \<lparr>field_set = 0, url_port = 0, field_data = (\<lambda>f. \<lparr>field_off = 0, field_len = 0\<rparr>)\<rparr>"

text \<open>\<open>field_set & (1 << uf)\<close>, \<open>field_set |= (1 << uf)\<close>, and the writes to \<open>field_data[uf]\<close>.\<close>

definition has_field :: "http_parser_url \<Rightarrow> http_parser_url_fields \<Rightarrow> bool" where
  "has_field u f \<longleftrightarrow> field_set u AND push_bit (uf_num f) 1 \<noteq> 0"

definition set_field :: "http_parser_url_fields \<Rightarrow> http_parser_url \<Rightarrow> http_parser_url" where
  "set_field f u = u\<lparr>field_set := field_set u OR push_bit (uf_num f) 1\<rparr>"

definition put_field ::
  "http_parser_url_fields \<Rightarrow> (url_field \<Rightarrow> url_field) \<Rightarrow> http_parser_url \<Rightarrow> http_parser_url" where
  "put_field f g u = u\<lparr>field_data := (field_data u)(f := g (field_data u f))\<rparr>"

definition field_begin :: "http_parser_url_fields \<Rightarrow> nat \<Rightarrow> 16 word \<Rightarrow> http_parser_url \<Rightarrow> http_parser_url" where
  "field_begin f p n = put_field f (\<lambda>_. \<lparr>field_off = of_nat p, field_len = n\<rparr>)"

definition field_more :: "http_parser_url_fields \<Rightarrow> http_parser_url \<Rightarrow> http_parser_url" where
  "field_more f = put_field f (\<lambda>d. d\<lparr>field_len := field_len d + 1\<rparr>)"

section \<open>The host\<close>

text \<open>
  One byte of the host, at offset \<open>p\<close>, that takes the automaton from \<open>s\<close> to \<open>s'\<close>: the \<open>switch\<close> on the
  new state.
\<close>

definition host_step ::
  "http_host_state \<Rightarrow> http_host_state \<Rightarrow> nat \<Rightarrow> http_parser_url \<Rightarrow> http_parser_url" where
  "host_step s s' p u =
    (case s' of
       s_http_host \<Rightarrow> field_more UF_HOST
         (if s \<noteq> s_http_host then put_field UF_HOST (\<lambda>d. d\<lparr>field_off := of_nat p\<rparr>) u else u)
     | s_http_host_v6 \<Rightarrow> field_more UF_HOST
         (if s \<noteq> s_http_host_v6 then put_field UF_HOST (\<lambda>d. d\<lparr>field_off := of_nat p\<rparr>) u else u)
     | s_http_host_v6_zone_start \<Rightarrow> field_more UF_HOST u
     | s_http_host_v6_zone \<Rightarrow> field_more UF_HOST u
     | s_http_host_port \<Rightarrow> field_more UF_PORT
         (if s \<noteq> s_http_host_port then set_field UF_PORT (field_begin UF_PORT p 0 u) else u)
     | s_http_userinfo \<Rightarrow> field_more UF_USERINFO
         (if s \<noteq> s_http_userinfo then set_field UF_USERINFO (field_begin UF_USERINFO p 0 u) else u)
     | _ \<Rightarrow> u)"

text \<open>The loop, over the bytes from offset \<open>p\<close>; it stops in the dead state.\<close>

fun host_loop ::
  "http_host_state \<Rightarrow> nat \<Rightarrow> char list \<Rightarrow> http_parser_url \<Rightarrow> http_host_state \<times> http_parser_url" where
  "host_loop s p [] u = (s, u)"
| "host_loop s p (ch # cs) u =
    (let s' = http_parse_host_char s ch in
     if s' = s_http_host_dead then (s_http_host_dead, u)
     else host_loop s' (Suc p) cs (host_step s s' p u))"

text \<open>The states in which a host may end.\<close>

definition host_end :: "http_host_state \<Rightarrow> bool" where
  "host_end s \<longleftrightarrow> s = s_http_host \<or> s = s_http_host_v6_end \<or> s = s_http_host_port"

definition http_parse_host ::
  "char list \<Rightarrow> http_parser_url \<Rightarrow> bool \<Rightarrow> (int \<times> http_parser_url) option" where
  "http_parse_host mem u found_at =
    (let off = unat (field_off (field_data u UF_HOST)); len = unat (field_len (field_data u UF_HOST)) in
     if \<not> has_field u UF_HOST then None
     else case host_loop (if found_at then s_http_userinfo_start else s_http_host_start) off
                 (take len (drop off mem)) (put_field UF_HOST (\<lambda>d. d\<lparr>field_len := 0\<rparr>) u) of
            (s, u) \<Rightarrow>
              if s = s_http_host_dead then Some (1, u)
              else if length mem < off + len then None
              else Some (if host_end s then 0 else 1, u))"

section \<open>The URL\<close>

text \<open>\<open>strtoul(s, NULL, 10)\<close>: white space, a sign, digits; saturated at \<open>ULONG_MAX\<close>.\<close>

fun strtoul_digits :: "nat \<Rightarrow> char list \<Rightarrow> nat option" where
  "strtoul_digits v [] = None"
| "strtoul_digits v (c # cs) = (if IS_NUM c then strtoul_digits (v * 10 + digit_val c) cs else Some v)"

definition C_isspace :: "char \<Rightarrow> bool" where
  "C_isspace c \<longleftrightarrow> c = CHR '' '' \<or> byte c \<ge> (9::nat) \<and> byte c \<le> (13::nat)"

definition strtoul :: "char list \<Rightarrow> 64 word option" where
  "strtoul mem =
    (let cs = dropWhile C_isspace mem;
         sign = cs \<noteq> [] \<and> (hd cs = CHR ''+'' \<or> hd cs = CHR ''-'')
     in case strtoul_digits 0 (if sign then tl cs else cs) of
          None \<Rightarrow> None
        | Some v \<Rightarrow>
            if v \<ge> 2 ^ 64 then Some (- 1)
            else if sign \<and> hd cs = CHR ''-'' then Some (- of_nat v) else Some (of_nat v))"

text \<open>
  The \<open>switch\<close> on the new state: \<open>Skip\<close> for the delimiters, the field for the others, \<open>Unexpected\<close> for
  the failed assertion.
\<close>

datatype url_switch = Url_dead | Skip | Field http_parser_url_fields | Unexpected

definition url_switch :: "state \<Rightarrow> url_switch" where
  "url_switch s =
    (if s = s_dead then Url_dead
     else if s = s_req_schema_slash \<or> s = s_req_schema_slash_slash \<or> s = s_req_server_start \<or>
       s = s_req_query_string_start \<or> s = s_req_fragment_start then Skip
     else if s = s_req_schema then Field UF_SCHEMA
     else if s = s_req_server_with_at \<or> s = s_req_server then Field UF_HOST
     else if s = s_req_path then Field UF_PATH
     else if s = s_req_query_string then Field UF_QUERY
     else if s = s_req_fragment then Field UF_FRAGMENT
     else Unexpected)"

datatype url_scan = Scan_fail http_parser_url | Scan_assert | Scan_done bool http_parser_url

fun url_loop ::
  "state \<Rightarrow> http_parser_url_fields \<Rightarrow> bool \<Rightarrow> nat \<Rightarrow> char list \<Rightarrow> http_parser_url \<Rightarrow> url_scan" where
  "url_loop s old_uf found_at p [] u = Scan_done found_at u"
| "url_loop s old_uf found_at p (ch # cs) u =
    (let s' = parse_url_char s ch in
     case url_switch s' of
       Url_dead \<Rightarrow> Scan_fail u
     | Skip \<Rightarrow> url_loop s' old_uf found_at (Suc p) cs u
     | Unexpected \<Rightarrow> Scan_assert
     | Field uf \<Rightarrow>
         let found_at' = (found_at \<or> s' = s_req_server_with_at) in
         if uf = old_uf then url_loop s' old_uf found_at' (Suc p) cs (field_more uf u)
         else url_loop s' uf found_at' (Suc p) cs (set_field uf (field_begin uf p 1 u)))"

text \<open>The part after the loop, in the order of the code.\<close>

definition url_finish_port :: "char list \<Rightarrow> http_parser_url \<Rightarrow> (int \<times> http_parser_url) option" where
  "url_finish_port mem u =
    (if has_field u UF_PORT then
       (case strtoul (drop (unat (field_off (field_data u UF_PORT))) mem) of
          None \<Rightarrow> None
        | Some v \<Rightarrow> Some (if v > 0xffff then (1, u) else (0, u\<lparr>url_port := ucast v\<rparr>)))
     else Some (0, u))"

definition url_finish ::
  "char list \<Rightarrow> bool \<Rightarrow> bool \<Rightarrow> http_parser_url \<Rightarrow> (int \<times> http_parser_url) option" where
  "url_finish mem is_connect found_at u =
    (if has_field u UF_SCHEMA \<and> \<not> has_field u UF_HOST then Some (1, u)
     else case (if has_field u UF_HOST then http_parse_host mem u found_at else Some (0, u)) of
            None \<Rightarrow> None
          | Some (r, u) \<Rightarrow>
              if r \<noteq> 0 then Some (1, u)
              else if is_connect \<and>
                  field_set u \<noteq> push_bit (uf_num UF_HOST) 1 OR push_bit (uf_num UF_PORT) 1
              then Some (1, u)
              else url_finish_port mem u)"

definition http_parser_parse_url ::
  "char list \<Rightarrow> nat \<Rightarrow> bool \<Rightarrow> http_parser_url \<Rightarrow> (int \<times> http_parser_url) option" where
  "http_parser_parse_url mem buflen is_connect u =
    (case url_loop (if is_connect then s_req_server_start else s_req_spaces_before_url) UF_MAX False 0
            (take buflen mem) (u\<lparr>url_port := 0, field_set := 0\<rparr>) of
       Scan_fail u \<Rightarrow> Some (1, u)
     | Scan_assert \<Rightarrow> None
     | Scan_done found_at u \<Rightarrow>
         if length mem < buflen then None else url_finish mem is_connect found_at u)"

end
