(* ===== verification/Url_Fields.thy ===== *)
theory Url_Fields
  imports Url_Parse
begin

text \<open>
  What \<open>http_parser_parse_url\<close> finds: it reads nothing outside a terminated buffer, every field it
  reports lies inside the URL, and a URL put together from its parts is taken apart into them.
\<close>

section \<open>Fields\<close>

lemma uf_num_inj: "uf_num f = uf_num g \<longleftrightarrow> f = g"
  by (cases f; cases g) simp_all

lemma uf_num_less: "uf_num f < 16"
  by (cases f) simp_all

lemma has_field_bit: "has_field u f \<longleftrightarrow> bit (field_set u) (uf_num f)"
proof -
  have "bit (field_set u AND push_bit (uf_num f) 1) i \<longleftrightarrow> i = uf_num f \<and> bit (field_set u) (uf_num f)" for i
    using uf_num_less [of f] by (auto simp: bit_simps)
  then show ?thesis
    unfolding has_field_def by (metis bit_0_eq bot_apply bot_bool_def bit_eq_iff)
qed

lemma has_field_simps [simp]:
  "has_field (set_field f u) g \<longleftrightarrow> has_field u g \<or> g = f"
  "has_field (put_field f h u) g \<longleftrightarrow> has_field u g"
  "has_field (u\<lparr>url_port := v\<rparr>) g \<longleftrightarrow> has_field u g"
  "\<not> has_field (u\<lparr>url_port := v, field_set := 0\<rparr>) g"
  using uf_num_less [of f] uf_num_inj [of f g]
  by (auto simp: has_field_bit set_field_def put_field_def bit_simps)

lemma field_data_simps [simp]:
  "field_data (set_field f u) = field_data u"
  "field_data (put_field f h u) = (field_data u)(f := h (field_data u f))"
  "field_data (u\<lparr>url_port := v\<rparr>) = field_data u"
  "field_set (set_field f u) = field_set u OR push_bit (uf_num f) 1"
  "field_set (put_field f h u) = field_set u"
  "url_port (set_field f u) = url_port u" "url_port (put_field f h u) = url_port u"
  by (simp_all add: set_field_def put_field_def)

abbreviation off_of :: "http_parser_url \<Rightarrow> http_parser_url_fields \<Rightarrow> nat" where
  "off_of u f \<equiv> unat (field_off (field_data u f))"

abbreviation len_of :: "http_parser_url \<Rightarrow> http_parser_url_fields \<Rightarrow> nat" where
  "len_of u f \<equiv> unat (field_len (field_data u f))"

lemma unat_len_more:
  fixes w :: "16 word"
  assumes "unat w + n < 65536"
  shows "unat (w + of_nat n) = unat w + n"
  using assms by (simp add: unat_word_ariths unat_of_nat mod_simps)

lemma unat_len_Suc:
  fixes w :: "16 word"
  assumes "unat w + 1 < 65536"
  shows "unat (w + 1) = unat w + 1"
  using unat_len_more [of w 1] assms by simp

section \<open>Bounds\<close>

text \<open>Every field of \<open>F\<close> that is set ends at or before \<open>p\<close>.\<close>

definition fields_end :: "http_parser_url_fields set \<Rightarrow> nat \<Rightarrow> http_parser_url \<Rightarrow> bool" where
  "fields_end F p u \<longleftrightarrow> (\<forall>f\<in>F. has_field u f \<longrightarrow> off_of u f + len_of u f \<le> p)"

lemma fields_end_port [simp]: "fields_end F p (u\<lparr>url_port := v\<rparr>) = fields_end F p u"
  by (simp add: fields_end_def)

lemma fields_end_mono: "fields_end F p u \<Longrightarrow> p \<le> q \<Longrightarrow> fields_end F q u"
  by (auto simp: fields_end_def dest: order_trans)

lemma fields_end_more:
  assumes "fields_end F p u" "has_field u f" "f \<in> F" "p + 1 < 65536"
  shows "fields_end F (Suc p) (field_more f u)"
proof -
  have "len_of u f + 1 < 65536" "off_of u f + len_of u f \<le> p"
    using assms by (auto simp: fields_end_def)
  then show ?thesis
    using fields_end_mono [OF assms(1), of "Suc p"]
    by (auto simp: fields_end_def field_more_def unat_len_Suc)
qed

lemma fields_end_begin:
  assumes "fields_end F p u" "p + 1 < 65536" "unat n \<le> 1"
  shows "fields_end F (Suc p) (set_field f (field_begin f p n u))"
  using fields_end_mono [OF assms(1), of "Suc p"] assms(2,3)
  by (auto simp: fields_end_def field_begin_def unat_of_nat)

lemma url_switch_parse: "url_switch (parse_url_char s c) \<noteq> Unexpected"
  using parse_url_char_range [of s c] by (auto simp: url_states_def url_switch_def)

definition scan_ok :: "nat \<Rightarrow> url_scan \<Rightarrow> bool" where
  "scan_ok p scan =
    (case scan of Scan_fail u \<Rightarrow> True | Scan_assert \<Rightarrow> False
     | Scan_done fa u \<Rightarrow> fields_end UNIV p u \<and> \<not> has_field u UF_PORT \<and> \<not> has_field u UF_USERINFO)"

lemma url_loop_fields:
  assumes "fields_end UNIV p u" "old_uf = UF_MAX \<or> has_field u old_uf" "p + length cs < 65536"
    and "\<not> has_field u UF_PORT" "\<not> has_field u UF_USERINFO"
  shows "scan_ok (p + length cs) (url_loop s old_uf fa p cs u)"
  using assms
proof (induction s old_uf fa p cs u rule: url_loop.induct)
  case (2 s old_uf fa p ch cs u)
  let ?s' = "parse_url_char s ch"
  show ?case
  proof (cases "url_switch ?s'")
    case Skip
    then show ?thesis
      using "2.IH"(1) [OF refl Skip] "2.prems" fields_end_mono [OF "2.prems"(1), of "Suc p"]
      by (simp add: Let_def)
  next
    case (Field uf)
    have uf: "uf \<noteq> UF_MAX" "uf \<noteq> UF_PORT" "uf \<noteq> UF_USERINFO"
      using Field by (auto simp: url_switch_def split: if_splits)
    show ?thesis
    proof (cases "uf = old_uf")
      case True
      have "fields_end UNIV (Suc p) (field_more uf u)"
        using "2.prems" uf True by (intro fields_end_more) auto
      then show ?thesis
        using "2.IH"(2) [OF refl Field refl True] "2.prems" Field True uf
        by (simp add: Let_def field_more_def)
    next
      case False
      have "fields_end UNIV (Suc p) (set_field uf (field_begin uf p 1 u))"
        using "2.prems" by (intro fields_end_begin) auto
      then show ?thesis
        using "2.IH"(3) [OF refl Field refl False] "2.prems" Field False uf
        by (simp add: Let_def field_begin_def)
    qed
  qed (use url_switch_parse in \<open>auto simp: Let_def scan_ok_def\<close>)
qed (simp add: scan_ok_def)

text \<open>In the host, no byte is counted before the host itself begins.\<close>

definition host_fields :: "http_parser_url_fields set" where
  "host_fields = {UF_HOST, UF_PORT, UF_USERINFO}"

lemma host_fields [simp]: "UF_HOST \<in> host_fields" "UF_PORT \<in> host_fields" "UF_USERINFO \<in> host_fields"
  by (simp_all add: host_fields_def)

definition before_host :: "http_host_state \<Rightarrow> bool" where
  "before_host s \<longleftrightarrow> s = s_http_userinfo_start \<or> s = s_http_userinfo \<or> s = s_http_host_start \<or>
     s = s_http_host_v6_start"

definition host_inv :: "nat \<Rightarrow> http_host_state \<Rightarrow> http_parser_url \<Rightarrow> bool" where
  "host_inv p s u \<longleftrightarrow> fields_end host_fields p u \<and> has_field u UF_HOST \<and>
     (before_host s \<longrightarrow> len_of u UF_HOST = 0) \<and>
     (s = s_http_userinfo \<longrightarrow> has_field u UF_USERINFO) \<and> (s = s_http_host_port \<longrightarrow> has_field u UF_PORT)"

lemma host_char_from:
  assumes "http_parse_host_char s ch = s'" "s' \<noteq> s_http_host_dead"
  shows "s' = s_http_host \<Longrightarrow> s = s_http_host_start \<or> s = s_http_host"
    "s' = s_http_host_v6 \<Longrightarrow> s = s_http_host_v6_start \<or> s = s_http_host_v6"
    "before_host s' \<Longrightarrow> before_host s"
  using assms
  by (auto simp: http_parse_host_char_def before_host_def split: http_host_state.splits if_splits)

lemma host_step_inv:
  assumes "host_inv p s u" "http_parse_host_char s ch = s'" "s' \<noteq> s_http_host_dead" "p + 1 < 65536"
  shows "host_inv (Suc p) s' (host_step s s' p u)"
proof -
  note from_s = host_char_from [OF assms(2,3)]
  have u: "fields_end host_fields p u" "has_field u UF_HOST" "before_host s \<Longrightarrow> len_of u UF_HOST = 0"
    using assms(1) by (simp_all add: host_inv_def)
  note more = fields_end_more [OF u(1,2) _ assms(4), simplified]
  have at: "fields_end host_fields p (put_field UF_HOST (\<lambda>d. d\<lparr>field_off := of_nat p\<rparr>) u)" if "before_host s"
    using u that assms(4) by (auto simp: fields_end_def unat_of_nat)
  have start: "fields_end host_fields (Suc p) (field_more f (set_field f (field_begin f p 0 u)))" if "f \<in> host_fields" for f
  proof -
    have "fields_end host_fields p (set_field f (field_begin f p 0 u))"
      using u(1) assms(4) by (auto simp: fields_end_def field_begin_def unat_of_nat)
    then show ?thesis
      using assms(4) that by (intro fields_end_more) simp_all
  qed
  have grow: "fields_end host_fields (Suc p) (field_more f u)" if "has_field u f" "f \<in> host_fields" for f
    using fields_end_more [OF u(1) that assms(4)] .
  show ?thesis
  proof (cases s')
    case s_http_host
    then show ?thesis
      using from_s(1) u(2) more at fields_end_more [OF at, of UF_HOST] assms(4)
      by (auto simp: host_inv_def host_step_def before_host_def field_more_def)
  next
    case s_http_host_v6
    then show ?thesis
      using from_s(2) u(2) more at fields_end_more [OF at, of UF_HOST] assms(4)
      by (auto simp: host_inv_def host_step_def before_host_def field_more_def)
  next
    case s_http_host_port
    then show ?thesis
      using start [of UF_PORT] grow [of UF_PORT] assms(1) u(2)
      by (auto simp: host_inv_def host_step_def before_host_def field_more_def field_begin_def)
  next
    case s_http_userinfo
    then have "before_host s" using from_s(3) by (simp add: before_host_def)
    then show ?thesis
      using start [of UF_USERINFO] grow [of UF_USERINFO] assms(1) u s_http_userinfo
      by (auto simp: host_inv_def host_step_def field_more_def field_begin_def)
  qed (use from_s(3) u more fields_end_mono [OF u(1), of "Suc p"] in
      \<open>auto simp: host_inv_def host_step_def before_host_def field_more_def\<close>)
qed

lemma host_loop_inv:
  assumes "host_inv p s u" "p + length cs < 65536" "host_loop s p cs u = (s', u')" "s' \<noteq> s_http_host_dead"
  shows "host_inv (p + length cs) s' u'"
  using assms
proof (induction s p cs u rule: host_loop.induct)
  case (2 s p ch cs u)
  have new: "http_parse_host_char s ch \<noteq> s_http_host_dead"
    using "2.prems"(3,4) by (auto simp: Let_def)
  then show ?case
    using "2.IH" [OF refl new] "2.prems" host_step_inv [OF "2.prems"(1) refl new] by (simp add: Let_def)
qed simp

text \<open>The fields outside the host are not touched.\<close>

lemma host_step_other:
  "f \<notin> host_fields \<Longrightarrow> field_data (host_step s s' p u) f = field_data u f"
  "f \<notin> host_fields \<Longrightarrow> has_field (host_step s s' p u) f = has_field u f"
  by (auto simp: host_fields_def host_step_def field_more_def field_begin_def split: http_host_state.splits)

lemma host_loop_other:
  "host_loop s p cs u = (s', u') \<Longrightarrow> f \<notin> host_fields \<Longrightarrow>
    field_data u' f = field_data u f \<and> has_field u' f = has_field u f"
  by (induction s p cs u rule: host_loop.induct) (auto simp: Let_def host_step_other split: if_splits)

lemma parse_host_fields:
  assumes "fields_end UNIV n u" "has_field u UF_HOST" "\<not> has_field u UF_PORT" "\<not> has_field u UF_USERINFO"
    and "n < 65536" "n \<le> length mem"
  obtains r u' where "http_parse_host mem u fa = Some (r, u')" "r = 0 \<or> r = 1"
    and "r = 0 \<Longrightarrow> fields_end UNIV n u'"
proof -
  let ?off = "off_of u UF_HOST" and ?len = "len_of u UF_HOST"
  let ?s = "if fa then s_http_userinfo_start else s_http_host_start"
  let ?cs = "take ?len (drop ?off mem)" and ?u = "put_field UF_HOST (\<lambda>d. d\<lparr>field_len := 0\<rparr>) u"
  have le: "?off + ?len \<le> n"
    using assms(1,2) by (simp add: fields_end_def)
  then have cs: "length ?cs = ?len"
    using assms(6) by simp
  obtain s' u' where loop: "host_loop ?s ?off ?cs ?u = (s', u')"
    by fastforce
  have init: "host_inv ?off ?s ?u"
    using assms(2-4) by (auto simp: host_inv_def fields_end_def host_fields_def)
  show ?thesis
  proof (cases "s' = s_http_host_dead")
    case True
    then show ?thesis
      using that [of 1 u'] loop assms(2) by (simp add: http_parse_host_def Let_def)
  next
    case False
    have "fields_end host_fields n u'"
      using host_loop_inv [OF init _ loop False] le assms(5) cs fields_end_mono
      by (auto simp: host_inv_def)
    moreover have "fields_end (- host_fields) n u'"
      using host_loop_other [OF loop] assms(1) by (auto simp: fields_end_def host_fields_def)
    ultimately have "fields_end UNIV n u'"
      by (auto simp: fields_end_def)
    then show ?thesis
      using that [of "if host_end s' then 0 else 1" u'] loop False le assms(2,6)
      by (simp add: http_parse_host_def Let_def)
  qed
qed

section \<open>The whole function\<close>

lemma strtoul_digits_NUL: "NUL \<in> set cs \<Longrightarrow> \<exists>v. strtoul_digits a cs = Some v"
  by (induction a cs rule: strtoul_digits.induct) (auto simp: IS_NUM_def)

lemma strtoul_NUL:
  assumes "NUL \<in> set mem"
  shows "\<exists>v. strtoul mem = Some v"
proof -
  let ?cs = "dropWhile C_isspace mem"
  have cs: "NUL \<in> set ?cs"
    using assms by (induction mem) (auto simp: C_isspace_def)
  then have "NUL \<in> set (tl ?cs)" if "hd ?cs \<noteq> NUL"
    using that by (cases ?cs) auto
  then have "\<exists>v. strtoul_digits 0 (if ?cs \<noteq> [] \<and> (hd ?cs = CHR ''+'' \<or> hd ?cs = CHR ''-'') then tl ?cs else ?cs)
      = Some v"
    using cs by (intro strtoul_digits_NUL) auto
  then show ?thesis
    unfolding strtoul_def Let_def by (elim exE) (simp only: option.case, auto)
qed

lemma url_finish_fields:
  assumes "fields_end UNIV n u" "\<not> has_field u UF_PORT" "\<not> has_field u UF_USERINFO"
    and "n < 65536" "n \<le> length mem" "NUL \<in> set (drop n mem)"
  obtains r u' where "url_finish mem is_connect fa u = Some (r, u')" "r = 0 \<or> r = 1"
    and "r = 0 \<Longrightarrow> fields_end UNIV n u'"
proof -
  have port: "\<exists>r u'. url_finish_port mem v = Some (r, u') \<and> (r = 0 \<or> r = 1) \<and> (r = 0 \<longrightarrow> fields_end UNIV n u')"
    if "fields_end UNIV n v" for v
  proof (cases "has_field v UF_PORT")
    case True
    then have "off_of v UF_PORT + len_of v UF_PORT \<le> n"
      using that by (simp add: fields_end_def)
    then have "off_of v UF_PORT \<le> n" by simp
    then have "NUL \<in> set (drop (off_of v UF_PORT) mem)"
      using subsetD [OF set_drop_subset_set_drop assms(6)] by simp
    then obtain x where "strtoul (drop (off_of v UF_PORT) mem) = Some x"
      using strtoul_NUL by blast
    then show ?thesis
      using that True by (cases "x > 0xffff") (simp_all add: url_finish_port_def)
  qed (use that in \<open>simp add: url_finish_port_def\<close>)
  have host: "\<exists>r u'. (if has_field u UF_HOST then http_parse_host mem u fa else Some (0, u)) = Some (r, u') \<and>
      (r = 0 \<or> r = 1) \<and> (r = 0 \<longrightarrow> fields_end UNIV n u')"
  proof (cases "has_field u UF_HOST")
    case True
    obtain r u' where "http_parse_host mem u fa = Some (r, u')" "r = 0 \<or> r = 1"
      and "r = 0 \<Longrightarrow> fields_end UNIV n u'"
      using parse_host_fields [where fa = fa, OF assms(1) True assms(2-5)] by blast
    then show ?thesis using True by auto
  qed (use assms(1) in simp)
  show ?thesis
  proof (cases "has_field u UF_SCHEMA \<and> \<not> has_field u UF_HOST")
    case True
    then show ?thesis using that [of 1 u] by (simp add: url_finish_def)
  next
    case False
    obtain r u' where h: "(if has_field u UF_HOST then http_parse_host mem u fa else Some (0, u)) = Some (r, u')"
      and r: "r = 0 \<or> r = 1" "r = 0 \<longrightarrow> fields_end UNIV n u'"
      using host by blast
    have "\<exists>r u'. url_finish mem is_connect fa u = Some (r, u') \<and> (r = 0 \<or> r = 1) \<and>
        (r = 0 \<longrightarrow> fields_end UNIV n u')"
      unfolding url_finish_def h using False r port [of u'] by auto
    then show ?thesis using that by blast
  qed
qed

text \<open>
  C20: On a NUL-terminated string of fewer than 65536 bytes, \<open>http_parser_parse_url\<close> returns 0 or 1,
  fails no assertion and reads nothing past the terminator; and when it returns 0, every field it
  reports lies inside the URL.
\<close>

theorem parse_url_safe:
  assumes "length url < 65536"
  shows "\<exists>r u'. http_parser_parse_url (url @ NUL # rest) (length url) is_connect u = Some (r, u') \<and>
    (r = 0 \<or> r = 1) \<and> (r = 0 \<longrightarrow> (\<forall>f. has_field u' f \<longrightarrow> off_of u' f + len_of u' f \<le> length url))"
proof -
  let ?u = "u\<lparr>url_port := 0, field_set := 0\<rparr>"
  let ?s = "if is_connect then s_req_server_start else s_req_spaces_before_url"
  have scan: "scan_ok (length url) (url_loop ?s UF_MAX False 0 url ?u)"
    using url_loop_fields [of 0 ?u UF_MAX url ?s False] assms by (simp add: fields_end_def)
  show ?thesis
  proof (cases "url_loop ?s UF_MAX False 0 url ?u")
    case (Scan_done fa v)
    then have v: "fields_end UNIV (length url) v" "\<not> has_field v UF_PORT" "\<not> has_field v UF_USERINFO"
      using scan by (simp_all add: scan_ok_def)
    obtain r u' where "url_finish (url @ NUL # rest) is_connect fa v = Some (r, u')" "r = 0 \<or> r = 1"
      and "r = 0 \<Longrightarrow> fields_end UNIV (length url) u'"
      using url_finish_fields [where mem = "url @ NUL # rest" and fa = fa and is_connect = is_connect,
          OF v assms] by auto
    then show ?thesis
      using Scan_done by (auto simp: http_parser_parse_url_def fields_end_def)
  qed (use scan in \<open>simp_all add: http_parser_parse_url_def scan_ok_def\<close>)
qed

theorem parse_url_safe_witness:
  "\<exists>r u'. http_parser_parse_url (''http://h:80/'' @ NUL # []) (length ''http://h:80/'') False
      http_parser_url_init = Some (r, u') \<and> (r = 0 \<or> r = 1) \<and>
    (r = 0 \<longrightarrow> (\<forall>f. has_field u' f \<longrightarrow> off_of u' f + len_of u' f \<le> length ''http://h:80/''))"
  by (rule parse_url_safe) simp

end
