(* ===== verification/Url_Roundtrip.thy ===== *)
theory Url_Roundtrip
  imports Url_Fields
begin

text \<open>
  A URL put together from its parts is taken apart into the same parts.
\<close>

section \<open>Runs of one field\<close>

definition put_at :: "http_parser_url_fields \<Rightarrow> nat \<Rightarrow> nat \<Rightarrow> http_parser_url \<Rightarrow> http_parser_url" where
  "put_at f p n u = set_field f (put_field f (\<lambda>_. \<lparr>field_off = of_nat p, field_len = of_nat n\<rparr>) u)"

fun put_opt :: "http_parser_url_fields \<Rightarrow> nat \<Rightarrow> char list option \<Rightarrow> http_parser_url \<Rightarrow> http_parser_url" where
  "put_opt f p None u = u"
| "put_opt f p (Some xs) u = put_at f p (length xs) u"

lemma field_set_idem: "set_field f (set_field f u) = set_field f u"
  by (simp add: set_field_def or.assoc)

lemma put_commute: "put_field f h (set_field g u) = set_field g (put_field f h u)"
  by (simp add: set_field_def put_field_def)

lemma put_put: "put_field f h (put_field f k u) = put_field f (h \<circ> k) u"
  by (simp add: put_field_def)

lemma more_put_at: "field_more f (put_at f p n u) = put_at f p (Suc n) u"
  by (simp add: field_more_def put_at_def put_commute put_put comp_def add.commute)

lemma begin_put_at: "set_field f (field_begin f p 1 u) = put_at f p 1 u"
  "field_more f (set_field f (field_begin f p 0 u)) = put_at f p 1 u"
  by (simp_all add: field_begin_def put_at_def field_more_def put_commute put_put comp_def)

lemma put_at_simps [simp]:
  "has_field (put_at f p n u) g \<longleftrightarrow> has_field u g \<or> g = f"
  "field_data (put_at f p n u) g =
    (if g = f then \<lparr>field_off = of_nat p, field_len = of_nat n\<rparr> else field_data u g)"
  "has_field (put_opt f p x u) g \<longleftrightarrow> has_field u g \<or> g = f \<and> x \<noteq> None"
  "f \<noteq> g \<Longrightarrow> field_data (put_opt f p x u) g = field_data u g"
  by (cases x; simp add: put_at_def)+

lemma loop_more:
  assumes "list_all (\<lambda>c. parse_url_char s c = s) xs" "url_switch s = Field f" "s \<noteq> s_req_server_with_at"
  shows "url_loop s f fa p (xs @ ys) (put_at f q n u) =
    url_loop s f fa (p + length xs) ys (put_at f q (n + length xs) u)"
  using assms(1)
proof (induction xs arbitrary: p n)
  case (Cons x xs)
  then show ?case
    using assms(2,3) by (simp add: Let_def more_put_at)
qed simp

lemma loop_field:
  assumes "xs \<noteq> []" "parse_url_char s0 (hd xs) = s" "list_all (\<lambda>c. parse_url_char s c = s) (tl xs)"
    and "url_switch s = Field f" "s \<noteq> s_req_server_with_at" "old \<noteq> f"
  shows "url_loop s0 old fa p (xs @ ys) u =
    url_loop s f fa (p + length xs) ys (put_at f p (length xs) u)"
proof -
  obtain y zs where xs: "xs = y # zs"
    using assms(1) by (cases xs) auto
  have "url_loop s0 old fa p (xs @ ys) u = url_loop s f fa (Suc p) (zs @ ys) (put_at f p 1 u)"
    using assms(2,4-6) by (simp add: xs Let_def begin_put_at)
  then show ?thesis
    using loop_more [OF _ assms(4,5), of zs fa "Suc p" ys p 1 u] assms(3) by (simp add: xs)
qed

lemma loop_skip:
  assumes "url_switch (parse_url_char s c) = Skip"
  shows "url_loop s old fa p (c # ys) u = url_loop (parse_url_char s c) old fa (Suc p) ys u"
  using assms by (simp add: Let_def)

section \<open>The parts of a URL\<close>

definition prefixed :: "char \<Rightarrow> char list option \<Rightarrow> char list" where
  "prefixed c x = (case x of None \<Rightarrow> [] | Some xs \<Rightarrow> c # xs)"

definition user_part :: "char list option \<Rightarrow> char list" where
  "user_part x = (case x of None \<Rightarrow> [] | Some xs \<Rightarrow> xs @ [CHR ''@''])"

record url_parts =
  part_schema :: "char list"
  part_user :: "char list option"
  part_host :: "char list"
  part_port :: "char list option"
  part_path :: "char list"
  part_query :: "char list option"
  part_fragment :: "char list option"

definition authority :: "url_parts \<Rightarrow> char list" where
  "authority x = user_part (part_user x) @ part_host x @ prefixed CHR '':'' (part_port x)"

definition url_text :: "url_parts \<Rightarrow> char list" where
  "url_text x = part_schema x @ ''://'' @ authority x @ part_path x @
    prefixed CHR ''?'' (part_query x) @ prefixed CHR ''#'' (part_fragment x)"

abbreviation some_of :: "(char \<Rightarrow> bool) \<Rightarrow> char list \<Rightarrow> bool" where
  "some_of P xs \<equiv> xs \<noteq> [] \<and> list_all P xs"

definition parts_ok :: "url_parts \<Rightarrow> bool" where
  "parts_ok x \<longleftrightarrow> some_of IS_ALPHA (part_schema x) \<and> pred_option (some_of IS_USERINFO_CHAR) (part_user x) \<and>
     some_of IS_HOST_CHAR (part_host x) \<and>
     pred_option (\<lambda>ds. some_of IS_NUM ds \<and> dec_from 0 ds \<le> 65535) (part_port x) \<and>
     part_path x \<noteq> [] \<and> hd (part_path x) = CHR ''/'' \<and> list_all IS_URL_CHAR (part_path x) \<and>
     pred_option (some_of IS_URL_CHAR) (part_query x) \<and> pred_option (some_of IS_URL_CHAR) (part_fragment x)"

text \<open>How the automaton takes the characters of each part.\<close>

lemmas url_char_simps = parse_url_char_def url_server_char_def char_class IS_USERINFO_CHAR_def
  IS_ALPHANUM_def IS_HOST_CHAR_def IS_MARK_def

lemma schema_char: "IS_ALPHA c \<Longrightarrow> parse_url_char s_req_schema c = s_req_schema"
  "IS_ALPHA c \<Longrightarrow> parse_url_char s_req_spaces_before_url c = s_req_schema"
  by (auto simp: parse_url_char_def char_class)

lemma server_char:
  assumes "IS_USERINFO_CHAR c" "s \<in> {s_req_server_start, s_req_server, s_req_server_with_at}"
  shows "parse_url_char s c = s_req_server"
proof -
  have "c \<noteq> CHR ''/''" "c \<noteq> CHR ''?''" "c \<noteq> CHR ''@''" "c \<noteq> CHR '' ''" "c \<noteq> CR" "c \<noteq> LF" "c \<noteq> TAB" "c \<noteq> FF"
    using assms(1) by (auto simp: IS_USERINFO_CHAR_def IS_ALPHANUM_def IS_MARK_def char_class IS_NUM_def)
  then show ?thesis
    using assms by (auto simp: parse_url_char_def url_server_char_def)
qed

lemma server_chars: "IS_HOST_CHAR c \<Longrightarrow> IS_USERINFO_CHAR c" "IS_NUM c \<Longrightarrow> IS_USERINFO_CHAR c"
  "IS_USERINFO_CHAR CHR '':''"
  by (auto simp: IS_USERINFO_CHAR_def IS_HOST_CHAR_def IS_ALPHANUM_def IS_MARK_def)

lemma url_char:
  assumes "IS_URL_CHAR c"
  shows "parse_url_char s_req_path c = s_req_path"
    "parse_url_char s_req_query_string_start c = s_req_query_string"
    "parse_url_char s_req_query_string c = s_req_query_string"
    "parse_url_char s_req_fragment_start c = s_req_fragment"
    "parse_url_char s_req_fragment c = s_req_fragment"
proof -
  have "c \<noteq> CHR '' ''" "c \<noteq> CR" "c \<noteq> LF" "c \<noteq> TAB" "c \<noteq> FF"
    using assms by (auto simp: char_class)
  then show "parse_url_char s_req_path c = s_req_path"
    "parse_url_char s_req_query_string_start c = s_req_query_string"
    "parse_url_char s_req_query_string c = s_req_query_string"
    "parse_url_char s_req_fragment_start c = s_req_fragment"
    "parse_url_char s_req_fragment c = s_req_fragment"
    using assms by (simp_all add: parse_url_char_def)
qed

lemma delimiter_char:
  "parse_url_char s_req_schema CHR '':'' = s_req_schema_slash"
  "parse_url_char s_req_schema_slash CHR ''/'' = s_req_schema_slash_slash"
  "parse_url_char s_req_schema_slash_slash CHR ''/'' = s_req_server_start"
  "parse_url_char s_req_server CHR ''@'' = s_req_server_with_at"
  "parse_url_char s_req_server CHR ''/'' = s_req_path"
  "parse_url_char s_req_path CHR ''?'' = s_req_query_string_start"
  "parse_url_char s_req_path CHR ''#'' = s_req_fragment_start"
  "parse_url_char s_req_query_string CHR ''#'' = s_req_fragment_start"
  by (simp_all add: parse_url_char_def url_server_char_def char_class)

section \<open>The scan\<close>

lemma switch_simps [simp]:
  "url_switch s_req_schema = Field UF_SCHEMA" "url_switch s_req_server = Field UF_HOST"
  "url_switch s_req_server_with_at = Field UF_HOST" "url_switch s_req_path = Field UF_PATH"
  "url_switch s_req_query_string = Field UF_QUERY" "url_switch s_req_fragment = Field UF_FRAGMENT"
  "url_switch s_req_schema_slash = Skip" "url_switch s_req_schema_slash_slash = Skip"
  "url_switch s_req_server_start = Skip" "url_switch s_req_query_string_start = Skip"
  "url_switch s_req_fragment_start = Skip"
  by (simp_all add: url_switch_def)

lemma list_all_hd_tl: "list_all P xs \<Longrightarrow> xs \<noteq> [] \<Longrightarrow> P (hd xs) \<and> list_all P (tl xs)"
  by (cases xs) auto

lemma loop_schema:
  assumes "some_of IS_ALPHA xs"
  shows "url_loop s_req_spaces_before_url UF_MAX False 0 (xs @ ''://'' @ ys) u =
    url_loop s_req_server_start UF_SCHEMA False (length xs + 3) ys (put_at UF_SCHEMA 0 (length xs) u)"
proof -
  have "list_all (\<lambda>c. parse_url_char s_req_schema c = s_req_schema) (tl xs)"
    "parse_url_char s_req_spaces_before_url (hd xs) = s_req_schema"
    using assms list_all_hd_tl [of IS_ALPHA xs] schema_char by (auto simp: list_all_iff)
  then have "url_loop s_req_spaces_before_url UF_MAX False 0 (xs @ ''://'' @ ys) u =
      url_loop s_req_schema UF_SCHEMA False (length xs) (''://'' @ ys) (put_at UF_SCHEMA 0 (length xs) u)"
    using assms by (subst loop_field) simp_all
  also have "\<dots> = url_loop s_req_server_start UF_SCHEMA False (length xs + 3) ys (put_at UF_SCHEMA 0 (length xs) u)"
    using delimiter_char by (simp add: eval_nat_numeral)
  finally show ?thesis .
qed

lemma loop_server:
  assumes "some_of IS_USERINFO_CHAR xs"
  shows "url_loop s_req_server_start UF_SCHEMA fa p (xs @ ys) u =
      url_loop s_req_server UF_HOST fa (p + length xs) ys (put_at UF_HOST p (length xs) u)"
    and "url_loop s_req_server_with_at UF_HOST fa p (xs @ ys) (put_at UF_HOST q n u) =
      url_loop s_req_server UF_HOST fa (p + length xs) ys (put_at UF_HOST q (n + length xs) u)"
proof -
  have c: "IS_USERINFO_CHAR (hd xs)" "list_all (\<lambda>c. parse_url_char s_req_server c = s_req_server) (tl xs)"
    using assms list_all_hd_tl [of IS_USERINFO_CHAR xs] by (auto simp: list_all_iff server_char)
  show "url_loop s_req_server_start UF_SCHEMA fa p (xs @ ys) u =
      url_loop s_req_server UF_HOST fa (p + length xs) ys (put_at UF_HOST p (length xs) u)"
    using c assms by (intro loop_field) (simp_all add: server_char)
  obtain z zs where xs: "xs = z # zs"
    using assms by (cases xs) auto
  show "url_loop s_req_server_with_at UF_HOST fa p (xs @ ys) (put_at UF_HOST q n u) =
      url_loop s_req_server UF_HOST fa (p + length xs) ys (put_at UF_HOST q (n + length xs) u)"
    using c loop_more [of s_req_server zs UF_HOST fa "Suc p" ys q "Suc n" u]
    by (simp add: xs server_char more_put_at)
qed

lemma loop_authority:
  assumes "parts_ok x"
  shows "url_loop s_req_server_start UF_SCHEMA False p (authority x @ ys) u =
    url_loop s_req_server UF_HOST (part_user x \<noteq> None) (p + length (authority x)) ys
      (put_at UF_HOST p (length (authority x)) u)"
proof -
  let ?hp = "part_host x @ prefixed CHR '':'' (part_port x)"
  have hp: "some_of IS_USERINFO_CHAR ?hp"
    using assms server_chars
    by (cases "part_port x") (auto simp: parts_ok_def prefixed_def list_all_iff)
  show ?thesis
  proof (cases "part_user x")
    case None
    then show ?thesis
      using loop_server(1) [OF hp] by (simp add: authority_def user_part_def)
  next
    case (Some us)
    then have us: "some_of IS_USERINFO_CHAR us"
      using assms by (simp add: parts_ok_def)
    have "url_loop s_req_server UF_HOST False (p + length us) (CHR ''@'' # ?hp @ ys) (put_at UF_HOST p (length us) u) =
        url_loop s_req_server_with_at UF_HOST True (Suc (p + length us)) (?hp @ ys)
          (put_at UF_HOST p (Suc (length us)) u)"
      by (simp add: delimiter_char more_put_at)
    then show ?thesis
      using loop_server(1) [OF us, of False p "CHR ''@'' # ?hp @ ys" u]
        loop_server(2) [OF hp, of True "Suc (p + length us)" ys p "Suc (length us)" u] Some
      by (simp add: authority_def user_part_def add.assoc add.commute [of _ "Suc _"])
  qed
qed

lemma loop_fragment:
  assumes "pred_option (some_of IS_URL_CHAR) frag" "s = s_req_path \<or> s = s_req_query_string"
    and "f \<noteq> UF_FRAGMENT"
  shows "url_loop s f fa p (prefixed CHR ''#'' frag) u = Scan_done fa (put_opt UF_FRAGMENT (Suc p) frag u)"
proof (cases frag)
  case (Some xs)
  then have xs: "some_of IS_URL_CHAR xs"
    using assms(1) by simp
  then have c: "IS_URL_CHAR (hd xs)" "list_all (\<lambda>c. parse_url_char s_req_fragment c = s_req_fragment) (tl xs)"
    using list_all_hd_tl [of IS_URL_CHAR xs] by (auto simp: list_all_iff url_char)
  have "url_loop s_req_fragment_start f fa (Suc p) (xs @ []) u =
      url_loop s_req_fragment UF_FRAGMENT fa (Suc p + length xs) [] (put_at UF_FRAGMENT (Suc p) (length xs) u)"
    using c xs assms(3) by (intro loop_field) (simp_all add: url_char)
  then show ?thesis
    using assms(2) Some by (auto simp: prefixed_def delimiter_char)
qed (simp add: prefixed_def)

lemma loop_query:
  assumes "pred_option (some_of IS_URL_CHAR) query" "pred_option (some_of IS_URL_CHAR) frag"
  shows "url_loop s_req_path UF_PATH fa p (prefixed CHR ''?'' query @ prefixed CHR ''#'' frag) u =
    Scan_done fa (put_opt UF_FRAGMENT (p + length (prefixed CHR ''?'' query) + 1) frag
      (put_opt UF_QUERY (p + 1) query u))"
proof (cases query)
  case None
  then show ?thesis
    using loop_fragment [OF assms(2), of s_req_path UF_PATH] by (simp add: prefixed_def)
next
  case (Some xs)
  then have xs: "some_of IS_URL_CHAR xs"
    using assms(1) by simp
  then have c: "IS_URL_CHAR (hd xs)" "list_all (\<lambda>c. parse_url_char s_req_query_string c = s_req_query_string) (tl xs)"
    using list_all_hd_tl [of IS_URL_CHAR xs] by (auto simp: list_all_iff url_char)
  have "url_loop s_req_query_string_start UF_PATH fa (Suc p) (xs @ prefixed CHR ''#'' frag) u =
      url_loop s_req_query_string UF_QUERY fa (Suc p + length xs) (prefixed CHR ''#'' frag)
        (put_at UF_QUERY (Suc p) (length xs) u)"
    using c xs by (intro loop_field) (simp_all add: url_char)
  then show ?thesis
    using loop_fragment [OF assms(2), of s_req_query_string UF_QUERY] Some
    by (simp add: prefixed_def delimiter_char)
qed

definition scanned :: "url_parts \<Rightarrow> http_parser_url \<Rightarrow> http_parser_url" where
  "scanned x u =
    (let h = length (part_schema x) + 3; p = h + length (authority x); q = p + length (part_path x) in
     put_opt UF_FRAGMENT (q + length (prefixed CHR ''?'' (part_query x)) + 1) (part_fragment x)
       (put_opt UF_QUERY (q + 1) (part_query x)
         (put_at UF_PATH p (length (part_path x))
           (put_at UF_HOST h (length (authority x))
             (put_at UF_SCHEMA 0 (length (part_schema x)) u)))))"

lemma loop_url:
  assumes "parts_ok x"
  shows "url_loop s_req_spaces_before_url UF_MAX False 0 (url_text x) u =
    Scan_done (part_user x \<noteq> None) (scanned x u)"
proof -
  let ?rest = "prefixed CHR ''?'' (part_query x) @ prefixed CHR ''#'' (part_fragment x)"
  have path: "part_path x \<noteq> []" "parse_url_char s_req_server (hd (part_path x)) = s_req_path"
      "list_all (\<lambda>c. parse_url_char s_req_path c = s_req_path) (tl (part_path x))"
    using assms list_all_hd_tl [of IS_URL_CHAR "part_path x"]
    by (auto simp: parts_ok_def delimiter_char list_all_iff url_char)
  have "url_loop s_req_server UF_HOST fa p (part_path x @ ?rest) v =
      url_loop s_req_path UF_PATH fa (p + length (part_path x)) ?rest (put_at UF_PATH p (length (part_path x)) v)"
    for fa p v
    using path by (intro loop_field) simp_all
  then show ?thesis
    using assms loop_schema [of "part_schema x"] loop_authority [OF assms] loop_query
    by (simp add: url_text_def scanned_def Let_def parts_ok_def)
qed

section \<open>The host\<close>

lemma set_field_id: "has_field u f \<Longrightarrow> set_field f u = u"
proof -
  assume "has_field u f"
  then have "field_set u OR push_bit (uf_num f) 1 = field_set u"
    by (intro bit_word_eqI) (auto simp: has_field_bit bit_simps)
  then show ?thesis by (simp add: set_field_def)
qed

lemma host_more:
  assumes "list_all (\<lambda>c. http_parse_host_char s c = s) xs" "s \<noteq> s_http_host_dead"
    and "\<And>p u. host_step s s p u = field_more f u"
  shows "host_loop s p (xs @ ys) (put_at f q n u) = host_loop s (p + length xs) ys (put_at f q (n + length xs) u)"
  using assms(1)
proof (induction xs arbitrary: p n)
  case (Cons x xs)
  then show ?case
    using assms(2,3) by (simp add: Let_def more_put_at)
qed simp

lemma host_field:
  assumes "xs \<noteq> []" "http_parse_host_char s0 (hd xs) = s" "list_all (\<lambda>c. http_parse_host_char s c = s) (tl xs)"
    and "s \<noteq> s_http_host_dead" "\<And>p u. host_step s s p u = field_more f u"
    and "host_step s0 s p u = put_at f p 1 u"
  shows "host_loop s0 p (xs @ ys) u = host_loop s (p + length xs) ys (put_at f p (length xs) u)"
proof -
  obtain z zs where xs: "xs = z # zs"
    using assms(1) by (cases xs) auto
  show ?thesis
    using host_more [OF _ assms(4,5), of zs "Suc p" ys p 1 u] assms(2-4,6)
    by (simp add: xs Let_def)
qed

lemma host_chars:
  "IS_USERINFO_CHAR c \<Longrightarrow> http_parse_host_char s_http_userinfo_start c = s_http_userinfo"
  "IS_USERINFO_CHAR c \<Longrightarrow> http_parse_host_char s_http_userinfo c = s_http_userinfo"
  "IS_HOST_CHAR c \<Longrightarrow> http_parse_host_char s_http_host_start c = s_http_host"
  "IS_HOST_CHAR c \<Longrightarrow> http_parse_host_char s_http_host c = s_http_host"
  "IS_NUM c \<Longrightarrow> http_parse_host_char s_http_host_port_start c = s_http_host_port"
  "IS_NUM c \<Longrightarrow> http_parse_host_char s_http_host_port c = s_http_host_port"
  "http_parse_host_char s_http_userinfo CHR ''@'' = s_http_host_start"
  "http_parse_host_char s_http_host CHR '':'' = s_http_host_port_start"
  by (auto simp: http_parse_host_char_def IS_USERINFO_CHAR_def IS_HOST_CHAR_def IS_ALPHANUM_def
      IS_MARK_def IS_NUM_def char_class)

lemma host_steps:
  "host_step s_http_userinfo s_http_userinfo p u = field_more UF_USERINFO u"
  "host_step s_http_host s_http_host p u = field_more UF_HOST u"
  "host_step s_http_host_port s_http_host_port p u = field_more UF_PORT u"
  "host_step s_http_userinfo_start s_http_userinfo p u = put_at UF_USERINFO p 1 u"
  "host_step s_http_host_port_start s_http_host_port p u = put_at UF_PORT p 1 u"
  "host_step s s_http_host_start p u = u" "host_step s s_http_host_port_start p u = u"
  by (simp_all add: host_step_def begin_put_at)

lemma host_step_first:
  assumes "has_field u UF_HOST" "field_len (field_data u UF_HOST) = 0"
  shows "host_step s_http_host_start s_http_host p u = put_at UF_HOST p 1 u"
proof -
  have "put_at UF_HOST p 1 u = put_field UF_HOST (\<lambda>_. \<lparr>field_off = of_nat p, field_len = 1\<rparr>) u"
    using assms(1) by (simp add: put_at_def put_commute [symmetric] set_field_id)
  then show ?thesis
    using assms(2)
    by (cases "field_data u UF_HOST") (simp add: host_step_def field_more_def put_put comp_def put_field_def)
qed

lemma host_parts:
  assumes "list_all P xs" "xs \<noteq> []" "\<And>c. P c \<Longrightarrow> http_parse_host_char s0 c = s" "\<And>c. P c \<Longrightarrow> http_parse_host_char s c = s"
    and "s \<noteq> s_http_host_dead" "\<And>p u. host_step s s p u = field_more f u" "host_step s0 s p u = put_at f p 1 u"
  shows "host_loop s0 p (xs @ ys) u = host_loop s (p + length xs) ys (put_at f p (length xs) u)"
  by (rule host_field)
    (use assms list_all_hd_tl [of P xs] in \<open>auto simp: list_all_iff\<close>)

lemma loop_port:
  assumes "pred_option (some_of IS_NUM) port"
  shows "host_loop s_http_host p (prefixed CHR '':'' port) u =
    (if port = None then s_http_host else s_http_host_port, put_opt UF_PORT (p + 1) port u)"
proof (cases port)
  case (Some ds)
  then have "host_loop s_http_host_port_start (Suc p) (ds @ []) u =
      host_loop s_http_host_port (Suc p + length ds) [] (put_at UF_PORT (Suc p) (length ds) u)"
    using assms by (intro host_parts [of IS_NUM]) (simp_all add: host_chars host_steps)
  then show ?thesis
    using Some by (simp add: prefixed_def host_chars host_steps Let_def)
qed (simp add: prefixed_def)

lemma loop_host:
  fixes p :: nat
  assumes "parts_ok x" "has_field u UF_HOST" "field_len (field_data u UF_HOST) = 0"
  defines "h \<equiv> p + length (user_part (part_user x))"
  shows "host_loop (if part_user x \<noteq> None then s_http_userinfo_start else s_http_host_start) p (authority x) u =
    (if part_port x = None then s_http_host else s_http_host_port,
     put_opt UF_PORT (h + length (part_host x) + 1) (part_port x)
       (put_at UF_HOST h (length (part_host x)) (put_opt UF_USERINFO p (part_user x) u)))"
proof -
  let ?rest = "prefixed CHR '':'' (part_port x)"
  have port: "pred_option (some_of IS_NUM) (part_port x)"
    using assms(1) by (cases "part_port x") (simp_all add: parts_ok_def)
  have host: "host_loop s_http_host_start q (part_host x @ ?rest) v =
      host_loop s_http_host (q + length (part_host x)) ?rest (put_at UF_HOST q (length (part_host x)) v)"
    if "has_field v UF_HOST" "field_len (field_data v UF_HOST) = 0" for q v
    using assms(1) that
    by (intro host_parts [of IS_HOST_CHAR]) (simp_all add: parts_ok_def host_chars host_steps host_step_first)
  show ?thesis
  proof (cases "part_user x")
    case None
    then show ?thesis
      using host [OF assms(2,3)] loop_port [OF port] by (simp add: h_def authority_def user_part_def)
  next
    case (Some us)
    then have "some_of IS_USERINFO_CHAR us"
      using assms(1) by (simp add: parts_ok_def)
    then have "host_loop s_http_userinfo_start p (us @ CHR ''@'' # part_host x @ ?rest) u =
        host_loop s_http_userinfo (p + length us) (CHR ''@'' # part_host x @ ?rest)
          (put_at UF_USERINFO p (length us) u)"
      by (intro host_parts [of IS_USERINFO_CHAR]) (simp_all add: host_chars host_steps)
    then show ?thesis
      using host [of "put_at UF_USERINFO p (length us) u" "Suc (p + length us)"] assms(2,3) loop_port [OF port] Some
      by (simp add: h_def authority_def user_part_def host_chars host_steps Let_def)
  qed
qed

section \<open>The parts found\<close>

text \<open>The text of a field that is set.\<close>

definition field_text :: "char list \<Rightarrow> http_parser_url \<Rightarrow> http_parser_url_fields \<Rightarrow> char list option" where
  "field_text buf u f = (if has_field u f then Some (take (len_of u f) (drop (off_of u f) buf)) else None)"

definition parsed :: "url_parts \<Rightarrow> http_parser_url \<Rightarrow> http_parser_url" where
  "parsed x u =
    (let p = length (part_schema x) + 3; h = p + length (user_part (part_user x)) in
     put_opt UF_PORT (h + length (part_host x) + 1) (part_port x)
       (put_at UF_HOST h (length (part_host x)) (put_opt UF_USERINFO p (part_user x)
         (put_field UF_HOST (\<lambda>d. d\<lparr>field_len := 0\<rparr>) (scanned x u)))))"

lemma scanned_fields:
  "has_field (scanned x u) UF_HOST"
  "field_data (scanned x u) UF_HOST =
    \<lparr>field_off = of_nat (length (part_schema x) + 3), field_len = of_nat (length (authority x))\<rparr>"
  by (simp_all add: scanned_def Let_def)

lemma take_drop_part: "take (length b) (drop (length a) (a @ b @ c)) = b"
  by simp

lemma unat_16: "n \<le> m \<Longrightarrow> m < 65536 \<Longrightarrow> unat (of_nat n :: 16 word) = n"
  by (simp add: unat_of_nat)

lemma parse_host_parts:
  assumes "parts_ok x" "length (url_text x) < 65536"
  shows "http_parse_host (url_text x @ rest) (scanned x u) (part_user x \<noteq> None) = Some (0, parsed x u)"
proof -
  let ?h = "length (part_schema x) + 3"
  have len: "?h + length (authority x) \<le> length (url_text x)"
    by (simp add: url_text_def)
  then have small: "off_of (scanned x u) UF_HOST = ?h" "len_of (scanned x u) UF_HOST = length (authority x)"
    using assms(2) by (simp_all add: scanned_fields unat_of_nat del: of_nat_add)
  have here: "take (length (authority x)) (drop ?h (url_text x @ rest)) = authority x"
    unfolding url_text_def using take_drop_part [of "authority x" "part_schema x @ ''://''"] by simp
  show ?thesis
    using loop_host [OF assms(1), of "put_field UF_HOST (\<lambda>d. d\<lparr>field_len := 0\<rparr>) (scanned x u)" ?h] len
    unfolding http_parse_host_def Let_def small here
    by (simp add: scanned_fields parsed_def Let_def host_end_def)
qed

lemma strtoul_port:
  assumes "some_of IS_NUM ds" "dec_from 0 ds < 2 ^ 64" "\<not> IS_NUM c"
  shows "strtoul (ds @ c # rest) = Some (of_nat (dec_from 0 ds))"
proof -
  obtain d ds' where ds: "ds = d # ds'"
    using assms(1) by (cases ds) auto
  have d: "\<not> C_isspace d" "d \<noteq> CHR ''+''" "d \<noteq> CHR ''-''"
    using assms(1) by (auto simp: ds C_isspace_def IS_NUM_def)
  have "strtoul_digits v (xs @ c # rest) = Some (dec_from v xs)" if "list_all IS_NUM xs" for v xs
    using that assms(3) by (induction xs arbitrary: v) simp_all
  then show ?thesis
    using assms(1,2) d by (simp add: strtoul_def ds)
qed

definition port_of :: "char list option \<Rightarrow> nat" where
  "port_of port = (case port of None \<Rightarrow> 0 | Some ds \<Rightarrow> dec_from 0 ds)"

lemma parse_url_parts:
  assumes "parts_ok x" "length (url_text x) < 65536"
  shows "http_parser_parse_url (url_text x @ rest) (length (url_text x)) False u =
    Some (0, (parsed x (u\<lparr>url_port := 0, field_set := 0\<rparr>))\<lparr>url_port := of_nat (port_of (part_port x))\<rparr>)"
proof -
  let ?u = "u\<lparr>url_port := 0, field_set := 0\<rparr>"
  let ?h = "length (part_schema x) + 3 + length (user_part (part_user x)) + length (part_host x) + 1"
  have port0: "url_port (parsed x ?u) = 0"
    by (cases "part_user x"; cases "part_port x"; cases "part_query x"; cases "part_fragment x")
      (simp_all add: parsed_def scanned_def Let_def put_at_def)
  have "url_finish_port (url_text x @ rest) (parsed x ?u) =
      Some (0, (parsed x ?u)\<lparr>url_port := of_nat (port_of (part_port x))\<rparr>)"
  proof (cases "part_port x")
    case None
    then have "\<not> has_field (parsed x ?u) UF_PORT"
      by (simp add: parsed_def scanned_def Let_def)
    then show ?thesis
      using None port0 by (simp add: url_finish_port_def port_of_def)
  next
    case (Some ds)
    then have ds: "some_of IS_NUM ds" "dec_from 0 ds \<le> 65535"
      using assms(1) by (simp_all add: parts_ok_def)
    obtain path where path: "part_path x = CHR ''/'' # path"
      using assms(1) by (cases "part_path x") (auto simp: parts_ok_def)
    have h: "?h \<le> length (url_text x)"
      using Some by (simp add: url_text_def authority_def prefixed_def)
    have "field_off (field_data (parsed x ?u) UF_PORT) = of_nat ?h"
      using Some by (simp add: parsed_def Let_def del: of_nat_add of_nat_Suc)
    then have off: "off_of (parsed x ?u) UF_PORT = ?h" "has_field (parsed x ?u) UF_PORT"
      using unat_16 [OF h assms(2)] Some by (simp_all add: parsed_def Let_def del: of_nat_add of_nat_Suc)
    let ?before = "part_schema x @ ''://'' @ user_part (part_user x) @ part_host x @ [CHR '':'']"
    let ?after = "path @ prefixed CHR ''?'' (part_query x) @ prefixed CHR ''#'' (part_fragment x) @ rest"
    have "url_text x @ rest = ?before @ ds @ CHR ''/'' # ?after" "length ?before = ?h"
      using Some by (simp_all add: url_text_def authority_def prefixed_def path)
    then have drop: "drop ?h (url_text x @ rest) = ds @ CHR ''/'' # ?after"
      by (metis append_eq_conv_conj)
    have num: "strtoul (drop ?h (url_text x @ rest)) = Some (of_nat (dec_from 0 ds))"
      unfolding drop using ds by (intro strtoul_port) (simp_all add: IS_NUM_def)
    have "unat (of_nat (dec_from 0 ds) :: 64 word) = dec_from 0 ds"
      using ds(2) by (simp add: unat_of_nat)
    then have "\<not> 0xffff < (of_nat (dec_from 0 ds) :: 64 word)"
        "ucast (of_nat (dec_from 0 ds) :: 64 word) = (of_nat (dec_from 0 ds) :: 16 word)"
      using ds(2)
      by (simp_all add: word_less_nat_alt word_unat_eq_iff unsigned_ucast_eq unat_of_nat take_bit_eq_mod)
    then show ?thesis
      using Some num off by (simp add: url_finish_port_def port_of_def)
  qed
  then show ?thesis
    using loop_url [OF assms(1), of ?u] parse_host_parts [OF assms, of rest ?u]
    by (simp add: http_parser_parse_url_def url_finish_def scanned_fields)
qed

section \<open>Properties\<close>

lemma field_text_slice:
  assumes "buf = a @ b @ c" "length buf < 65536" "has_field u f"
    and "field_data u f = \<lparr>field_off = of_nat (length a), field_len = of_nat (length b)\<rparr>"
  shows "field_text buf u f = Some b"
proof -
  have "off_of u f = length a" "len_of u f = length b"
    using assms(1,2,4) by (simp_all add: unat_of_nat)
  then show ?thesis
    using assms(1,3) by (simp add: field_text_def)
qed

lemma parsed_text:
  fixes u :: http_parser_url and n :: "16 word"
  assumes "length (url_text x) < 65536"
  defines "v \<equiv> (parsed x (u\<lparr>url_port := 0, field_set := 0\<rparr>))\<lparr>url_port := n\<rparr>"
  shows "field_text (url_text x) v UF_SCHEMA = Some (part_schema x)"
    "field_text (url_text x) v UF_USERINFO = part_user x"
    "field_text (url_text x) v UF_HOST = Some (part_host x)"
    "field_text (url_text x) v UF_PORT = part_port x"
    "field_text (url_text x) v UF_PATH = Some (part_path x)"
    "field_text (url_text x) v UF_QUERY = part_query x"
    "field_text (url_text x) v UF_FRAGMENT = part_fragment x"
proof -
  note defs = v_def parsed_def scanned_def Let_def
  let ?s = "part_schema x" and ?u = "user_part (part_user x)" and ?h = "part_host x"
  let ?p = "prefixed CHR '':'' (part_port x)" and ?path = "part_path x"
  let ?q = "prefixed CHR ''?'' (part_query x)" and ?f = "prefixed CHR ''#'' (part_fragment x)"
  have url: "url_text x = ?s @ ''://'' @ ?u @ ?h @ ?p @ ?path @ ?q @ ?f"
    by (simp add: url_text_def authority_def)
  show "field_text (url_text x) v UF_SCHEMA = Some ?s"
    by (rule field_text_slice [where a = "[]", OF _ assms(1)]) (simp_all add: url, simp_all add: defs)
  show "field_text (url_text x) v UF_HOST = Some ?h"
    by (rule field_text_slice [where a = "?s @ ''://'' @ ?u", OF _ assms(1)])
      (simp_all add: url, simp_all add: defs ac_simps)
  show "field_text (url_text x) v UF_PATH = Some ?path"
    by (rule field_text_slice [where a = "?s @ ''://'' @ ?u @ ?h @ ?p", OF _ assms(1)])
      (simp_all add: url, simp_all add: defs authority_def ac_simps)
  show "field_text (url_text x) v UF_USERINFO = part_user x"
  proof (cases "part_user x")
    case (Some us)
    have "field_text (url_text x) v UF_USERINFO = Some us"
      by (rule field_text_slice [where a = "?s @ ''://''", OF _ assms(1)])
        (simp_all add: url Some user_part_def, simp_all add: defs Some)
    then show ?thesis using Some by simp
  qed (simp add: field_text_def defs)
  show "field_text (url_text x) v UF_PORT = part_port x"
  proof (cases "part_port x")
    case (Some ds)
    have "field_text (url_text x) v UF_PORT = Some ds"
      by (rule field_text_slice [where a = "?s @ ''://'' @ ?u @ ?h @ [CHR '':'']", OF _ assms(1)])
        (simp_all add: url Some prefixed_def, simp_all add: defs Some ac_simps)
    then show ?thesis using Some by simp
  qed (simp add: field_text_def defs)
  show "field_text (url_text x) v UF_QUERY = part_query x"
  proof (cases "part_query x")
    case (Some qs)
    have "field_text (url_text x) v UF_QUERY = Some qs"
      by (rule field_text_slice [where a = "?s @ ''://'' @ ?u @ ?h @ ?p @ ?path @ [CHR ''?'']", OF _ assms(1)])
        (simp_all add: url Some prefixed_def, simp_all add: defs Some authority_def prefixed_def ac_simps)
    then show ?thesis using Some by simp
  qed (simp add: field_text_def defs)
  show "field_text (url_text x) v UF_FRAGMENT = part_fragment x"
  proof (cases "part_fragment x")
    case (Some fs)
    have "field_text (url_text x) v UF_FRAGMENT = Some fs"
      by (rule field_text_slice [where a = "?s @ ''://'' @ ?u @ ?h @ ?p @ ?path @ ?q @ [CHR ''#'']", OF _ assms(1)])
        (simp_all add: url Some prefixed_def, simp_all add: defs Some authority_def prefixed_def ac_simps)
    then show ?thesis using Some by simp
  qed (simp add: field_text_def defs)
qed

text \<open>
  C19: A URL of at most 65535 bytes put together from a scheme, user information, a host name, a port
  up to 65535, a path, a query and a fragment is accepted, and the fields reported are exactly the
  texts of these parts, with the port as a number; a part left out is a field not set.
\<close>

theorem parse_url_roundtrip:
  assumes "parts_ok x" "length (url_text x) < 65536"
  shows "\<exists>v. http_parser_parse_url (url_text x @ rest) (length (url_text x)) False u = Some (0, v) \<and>
    field_text (url_text x) v UF_SCHEMA = Some (part_schema x) \<and>
    field_text (url_text x) v UF_USERINFO = part_user x \<and>
    field_text (url_text x) v UF_HOST = Some (part_host x) \<and>
    field_text (url_text x) v UF_PORT = part_port x \<and>
    field_text (url_text x) v UF_PATH = Some (part_path x) \<and>
    field_text (url_text x) v UF_QUERY = part_query x \<and>
    field_text (url_text x) v UF_FRAGMENT = part_fragment x \<and>
    url_port v = of_nat (port_of (part_port x))"
  using parse_url_parts [OF assms, of rest u] parsed_text [where u = u, OF assms(2)] by simp

definition example_url :: url_parts where
  "example_url = \<lparr>part_schema = ''http'', part_user = Some ''me:pw'', part_host = ''a-b.org'',
     part_port = Some ''8080'', part_path = ''/x/y'', part_query = Some ''k=v'', part_fragment = None\<rparr>"

theorem parse_url_roundtrip_witness:
  "\<exists>v. http_parser_parse_url (url_text example_url @ []) (length (url_text example_url)) False
      http_parser_url_init = Some (0, v) \<and>
    field_text (url_text example_url) v UF_SCHEMA = Some (part_schema example_url) \<and>
    field_text (url_text example_url) v UF_USERINFO = part_user example_url \<and>
    field_text (url_text example_url) v UF_HOST = Some (part_host example_url) \<and>
    field_text (url_text example_url) v UF_PORT = part_port example_url \<and>
    field_text (url_text example_url) v UF_PATH = Some (part_path example_url) \<and>
    field_text (url_text example_url) v UF_QUERY = part_query example_url \<and>
    field_text (url_text example_url) v UF_FRAGMENT = part_fragment example_url \<and>
    url_port v = of_nat (port_of (part_port example_url))"
  by (rule parse_url_roundtrip)
    (simp_all add: parts_ok_def example_url_def IS_USERINFO_CHAR_def IS_HOST_CHAR_def IS_ALPHANUM_def
      IS_NUM_def digit_val_def char_class url_text_def authority_def user_part_def prefixed_def)

lemma strtoul_run:
  assumes "strtoul (ds @ c # rest) = Some w" "ds \<noteq> []" "list_all IS_NUM ds" "\<not> IS_NUM c" "w \<le> 0xffff"
  shows "dec_from 0 ds \<le> 65535 \<and> w = of_nat (dec_from 0 ds)"
proof (cases "dec_from 0 ds < 2 ^ 64")
  case True
  have w: "w = of_nat (dec_from 0 ds)"
    using strtoul_port [of ds c rest] assms True by simp
  then have "unat w = dec_from 0 ds"
    using True by (simp add: unat_of_nat)
  then show ?thesis
    using assms(5) w by (simp add: word_le_nat_alt)
next
  case False
  have "strtoul_digits v (xs @ c # rest) = Some (dec_from v xs)" if "list_all IS_NUM xs" for v xs
    using that assms(4) by (induction xs arbitrary: v) auto
  moreover obtain d ds' where ds: "ds = d # ds'" "IS_NUM d"
    using assms(2,3) by (cases ds) auto
  moreover from this(2) have "\<not> C_isspace d" "d \<noteq> CHR ''+''" "d \<noteq> CHR ''-''"
    by (auto simp: IS_NUM_def C_isspace_def)
  ultimately have "w = - 1"
    using assms(1,3) False by (simp add: strtoul_def)
  moreover have "\<not> (- 1 :: 64 word) \<le> 0xffff"
    by (simp add: word_le_nat_alt unsigned_minus_1_eq_mask mask_eq_exp_minus_1)
  ultimately show ?thesis
    using assms(5) by simp
qed

text \<open>
  C37: The port is not read from the \<open>buflen\<close> bytes of the URL but with \<open>strtoul\<close> from the memory: when a URL
  with a port is accepted, its port number is that of the whole run of digits in memory that begins at the
  port, however many of them lie within \<open>buflen\<close>.  (In the example these are the 10 bytes \<open>http://h:8\<close>: the field
  of the port is \<open>8\<close>, its number 80.)
\<close>

theorem parse_url_port_overread:
  assumes "http_parser_parse_url mem buflen is_connect u = Some (0, v)" "has_field v UF_PORT"
    and "drop (off_of v UF_PORT) mem = ds @ c # rest" "ds \<noteq> []" "list_all IS_NUM ds" "\<not> IS_NUM c"
  shows "dec_from 0 ds \<le> 65535 \<and> url_port v = of_nat (dec_from 0 ds)"
proof -
  obtain t where t: "url_finish_port mem t = Some (0, v)"
    using assms(1)
    by (auto simp: http_parser_parse_url_def url_finish_def split: url_scan.splits if_splits option.splits)
  have f: "has_field (t\<lparr>url_port := p\<rparr>) = has_field t" "off_of (t\<lparr>url_port := p\<rparr>) = off_of t" for p
    by (simp_all add: has_field_def [abs_def])
  have "has_field t UF_PORT"
    using t assms(2) by (cases "has_field t UF_PORT") (simp_all add: url_finish_port_def)
  then obtain w where w: "strtoul (drop (off_of t UF_PORT) mem) = Some w" "\<not> 0xffff < w" "v = t\<lparr>url_port := ucast w\<rparr>"
    using t by (simp add: url_finish_port_def split: option.split_asm if_split_asm)
  then have "dec_from 0 ds \<le> 65535 \<and> w = of_nat (dec_from 0 ds)"
    using strtoul_run [of ds c rest w] assms(3-6) f by simp
  then show ?thesis
    using w(3) by (auto simp: word_unat_eq_iff unsigned_ucast_eq unat_of_nat take_bit_eq_mod)
qed

definition overread_url :: http_parser_url where
  "overread_url = snd (the (http_parser_parse_url ''http://h:80/'' 10 False http_parser_url_init))"

lemma overread:
  "http_parser_parse_url ''http://h:80/'' 10 False http_parser_url_init = Some (0, overread_url)"
  "has_field overread_url UF_PORT" "off_of overread_url UF_PORT = 9"
  "field_text ''http://h:80/'' overread_url UF_PORT = Some ''8''"
  by (simp_all add: overread_url_def http_parser_parse_url_def parse_url_char_def url_server_char_def url_switch_def
      char_class IS_USERINFO_CHAR_def IS_ALPHANUM_def IS_HOST_CHAR_def IS_NUM_def Let_def
      field_begin_def field_more_def set_field_def put_field_def has_field_def
      http_parser_url_init_def url_finish_def http_parse_host_def http_parse_host_char_def host_step_def
      host_end_def url_finish_port_def strtoul_def C_isspace_def field_text_def digit_val_def)

theorem parse_url_port_overread_witness:
  "http_parser_parse_url ''http://h:80/'' 10 False http_parser_url_init = Some (0, overread_url) \<and>
    field_text ''http://h:80/'' overread_url UF_PORT = Some ''8'' \<and> url_port overread_url = 80"
  using parse_url_port_overread [OF overread(1,2), of "''80''" "CHR ''/''" "[]"] overread
  by (simp add: IS_NUM_def digit_val_def)

end
