(* ===== verification/Asio_Url.thy ===== *)
theory Asio_Url
  imports Numerals
begin

text \<open>
  \<open>url.cpp\<close>: the URLs of the application, taken apart by a regular expression and printed again.

  The expression is matched the way ECMAScript says: alternatives in order, a quantifier the longest
  repetition first, and the first way through that reaches the end of the string is the match.  A
  matcher here gives the list of all ways, best first, as pairs of what a group matched and the rest.
  \<open>boost::lexical_cast\<close> is a library outside the repository and a parameter; what is used of it is
  \<open>lexical_cast_u16\<close>: digits become the number they stand for, or an exception when it is too large.
\<close>

section \<open>The regular expression\<close>

definition greedy :: "(char \<Rightarrow> bool) \<Rightarrow> char list \<Rightarrow> (char list \<times> char list) list" where
  "greedy P s = map (\<lambda>n. (take n s, drop n s)) (rev [0..<Suc (length (takeWhile P s))])"

definition greedy1 :: "(char \<Rightarrow> bool) \<Rightarrow> char list \<Rightarrow> (char list \<times> char list) list" where
  "greedy1 P s = filter (\<lambda>m. fst m \<noteq> []) (greedy P s)"

text \<open>\<open>(...)?\<close>: the group if it matches, else nothing.\<close>

definition optional :: "('a \<times> char list) list \<Rightarrow> char list \<Rightarrow> ('a option \<times> char list) list" where
  "optional ways s = map (\<lambda>(x, r). (Some x, r)) ways @ [(None, s)]"

text \<open>The dot matches anything but a line terminator.\<close>

definition not_newline :: "char \<Rightarrow> bool" where
  "not_newline c \<longleftrightarrow> c \<noteq> LF \<and> c \<noteq> CR"

definition url_host_char :: "char \<Rightarrow> bool" where
  "url_host_char c \<longleftrightarrow> IS_ALPHANUM c \<or> c = CHR ''-'' \<or> c = CHR ''.''"

text \<open>\<open>((.+)://)?\<close>\<close>

definition match_protocol :: "char list \<Rightarrow> (char list option \<times> char list) list" where
  "match_protocol s =
    optional (map (\<lambda>(x, r). (x, drop 3 r)) (filter (\<lambda>(x, r). take 3 r = ''://'') (greedy1 not_newline s))) s"

text \<open>\<open>(:([0-9]+))?\<close>\<close>

definition match_port :: "char list \<Rightarrow> (char list option \<times> char list) list" where
  "match_port s = optional (case s of [] \<Rightarrow> [] | c # r \<Rightarrow> if c = CHR '':'' then greedy1 IS_NUM r else []) s"

text \<open>\<open>(/[^?]*)?\<close> and \<open>(\?.*)?\<close>\<close>

definition match_path :: "char list \<Rightarrow> (char list option \<times> char list) list" where
  "match_path s = optional (case s of [] \<Rightarrow> [] | c # r \<Rightarrow>
     if c = CHR ''/'' then map (\<lambda>(x, r). (c # x, r)) (greedy (\<lambda>c. c \<noteq> CHR ''?'') r) else []) s"

definition match_query :: "char list \<Rightarrow> (char list option \<times> char list) list" where
  "match_query s = optional (case s of [] \<Rightarrow> [] | c # r \<Rightarrow>
     if c = CHR ''?'' then map (\<lambda>(x, r). (c # x, r)) (greedy not_newline r) else []) s"

text \<open>The groups 2, 3, 5, 6 and 7 of a match of the whole string.\<close>

type_synonym url_match =
  "char list option \<times> char list \<times> char list option \<times> char list option \<times> char list option"

definition url_matches :: "char list \<Rightarrow> url_match list" where
  "url_matches s =
    [(protocol, host, port, path, query).
       (protocol, s1) \<leftarrow> match_protocol s, (host, s2) \<leftarrow> greedy1 url_host_char s1,
       (port, s3) \<leftarrow> match_port s2, (path, s4) \<leftarrow> match_path s3, (query, s5) \<leftarrow> match_query s4,
       s5 = []]"

section \<open>URLs\<close>

record url =
  protocol :: "char list"
  host :: "char list"
  port :: "16 word"
  path :: "char list"
  query :: "char list"

definition DEFAULT_PORT_HTTP :: "16 word" where "DEFAULT_PORT_HTTP = 80"
definition DEFAULT_PORT_HTTPS :: "16 word" where "DEFAULT_PORT_HTTPS = 443"
definition PROTOCOL_HTTP :: "char list" where "PROTOCOL_HTTP = ''http''"
definition PROTOCOL_HTTPS :: "char list" where "PROTOCOL_HTTPS = ''https''"

text \<open>The exceptions of the constructor: no match, or \<open>bad_lexical_cast\<close>.\<close>

datatype url_error = Failed_to_parse_url | Bad_lexical_cast

definition text_of :: "char list option \<Rightarrow> char list" where
  "text_of x = (case x of None \<Rightarrow> [] | Some s \<Rightarrow> s)"

definition get_url_components :: "(char list \<Rightarrow> 16 word option) \<Rightarrow> char list \<Rightarrow> url_error + url" where
  "get_url_components cast s =
    (case url_matches s of
       [] \<Rightarrow> Inl Failed_to_parse_url
     | (m2, m3, m5, m6, m7) # _ \<Rightarrow>
         let proto = (case m2 of None \<Rightarrow> PROTOCOL_HTTP | Some x \<Rightarrow> x);
             url = (\<lambda>p. \<lparr>protocol = proto, host = m3, port = p,
                         path = (if text_of m6 = [] then ''/'' else text_of m6), query = text_of m7\<rparr>)
         in if text_of m5 \<noteq> [] then
              (case cast (text_of m5) of None \<Rightarrow> Inl Bad_lexical_cast | Some p \<Rightarrow> Inr (url p))
            else Inr (url (if proto = PROTOCOL_HTTP then DEFAULT_PORT_HTTP
                           else if proto = PROTOCOL_HTTPS then DEFAULT_PORT_HTTPS else 0)))"

definition url_to_string :: "url \<Rightarrow> char list" where
  "url_to_string u = protocol u @ ''://'' @ host u @
    (if \<not> (protocol u = PROTOCOL_HTTP \<and> port u = DEFAULT_PORT_HTTP) \<and>
        \<not> (protocol u = PROTOCOL_HTTPS \<and> port u = DEFAULT_PORT_HTTPS) \<and> port u \<noteq> 0
     then CHR '':'' # decimal (unat (port u)) else []) @ path u @ query u"

definition url_equal :: "url \<Rightarrow> url \<Rightarrow> bool" where
  "url_equal a b \<longleftrightarrow> protocol a = protocol b \<and> host a = host b \<and> port a = port b \<and> path a = path b \<and>
     query a = query b"

text \<open>What the library promises.\<close>

definition lexical_cast_u16 :: "(char list \<Rightarrow> 16 word option) \<Rightarrow> bool" where
  "lexical_cast_u16 cast \<longleftrightarrow> (\<forall>ds. ds \<noteq> [] \<and> list_all IS_NUM ds \<longrightarrow>
     cast ds = (if dec_from 0 ds \<le> 65535 then Some (of_nat (dec_from 0 ds)) else None))"

end
