(* ===== verification/Asio_Url_Laws.thy ===== *)
theory Asio_Url_Laws
  imports Asio_Url
begin

text \<open>
  What the URL class makes of strings: what it accepts, which of the ways through the regular
  expression it takes, and that a printed URL is read back.
\<close>

section \<open>Ways through the expression\<close>

lemma greedy_sound:
  assumes "(x, r) \<in> set (greedy P s)"
  shows "s = x @ r \<and> list_all P x"
proof -
  obtain n where n: "n \<le> length (takeWhile P s)" "x = take n s" "r = drop n s"
    using assms by (auto simp: greedy_def less_Suc_eq_le simp del: upt_Suc)
  have "take n s = take n (takeWhile P s)"
    using n(1) by (metis min.absorb2 take_take takeWhile_eq_take min.commute)
  then show ?thesis
    using n by (metis append_take_drop_id in_set_takeD list_all_iff set_takeWhileD)
qed

lemma greedy_first:
  assumes "list_all P x" "y = [] \<or> \<not> P (hd y)"
  shows "\<exists>ws. greedy P (x @ y) = (x, y) # ws"
proof -
  have "takeWhile P (x @ y) = x"
    using assms by (cases y) (auto simp: list_all_iff takeWhile_eq_all_conv)
  then show ?thesis
    by (simp add: greedy_def)
qed

lemma greedy1_first:
  assumes "x \<noteq> []" "list_all P x" "y = [] \<or> \<not> P (hd y)"
  shows "\<exists>ws. greedy1 P (x @ y) = (x, y) # ws"
  using greedy_first [OF assms(2,3)] assms(1) by (auto simp: greedy1_def)

lemma filter_first:
  assumes "n \<le> m" "Q (g n)" "\<And>k. n < k \<Longrightarrow> k \<le> m \<Longrightarrow> \<not> Q (g k)"
  shows "\<exists>ws. filter Q (map g (rev [0..<Suc m])) = g n # ws"
proof -
  have "[0..<Suc m] = [0..<n] @ [n] @ [Suc n..<Suc m]"
    using assms(1) upt_add_eq_append [of 0 n "Suc m - n"] upt_conv_Cons [of n "Suc m"] by simp
  moreover have "filter Q (map g (rev [Suc n..<Suc m])) = []"
    using assms(3) by (auto simp: filter_empty_conv)
  ultimately show ?thesis
    using assms(2) by simp
qed

text \<open>No place of \<open>s\<close> has the separator.\<close>

definition no_sep :: "char list \<Rightarrow> bool" where
  "no_sep s \<longleftrightarrow> (\<forall>k. take 3 (drop k s) \<noteq> ''://'')"

lemma no_sep_Cons: "no_sep (c # s) \<longleftrightarrow> no_sep s \<and> take 3 (c # s) \<noteq> ''://''"
proof -
  have "(\<forall>k. take 3 (drop k (c # s)) \<noteq> ''://'') \<longleftrightarrow>
      (\<forall>k. take 3 (drop k s) \<noteq> ''://'') \<and> take 3 (c # s) \<noteq> ''://''"
    by (metis drop0 drop_Suc_Cons old.nat.exhaust)
  then show ?thesis
    by (simp add: no_sep_def)
qed

lemma no_sep_before: "CHR '':'' \<notin> set a \<Longrightarrow> no_sep (a @ s) = no_sep s"
  by (induction a) (auto simp: no_sep_Cons take_Cons')

lemma no_sep_Nil [simp]: "no_sep []"
  by (simp add: no_sep_def)

lemma match_protocol_last:
  assumes "x \<noteq> []" "list_all not_newline x" "no_sep s"
  shows "\<exists>ws. match_protocol (x @ ''://'' @ s) = (Some x, s) # ws"
proof -
  let ?s = "x @ ''://'' @ s"
  let ?Q = "\<lambda>n. take n ?s \<noteq> [] \<and> take 3 (drop n ?s) = ''://''"
  define m where "m = length (takeWhile not_newline ?s)"
  have "takeWhile not_newline ?s = x @ takeWhile not_newline (''://'' @ s)"
    using assms(2) by (auto simp: list_all_iff takeWhile_append2)
  then have m: "length x \<le> m" "?Q (length x)"
    using assms(1) by (simp_all add: m_def)
  have later: "\<not> ?Q k" if "length x < k" for k
  proof -
    define j where "j = k - length x - 1"
    have k: "k = length x + Suc j"
      using that by (simp add: j_def)
    have "no_sep (''//'' @ s)"
      using assms(3) by (simp add: no_sep_Cons)
    then show ?thesis
      by (simp add: k no_sep_def)
  qed
  then obtain ws where "filter ?Q (map (\<lambda>n. n) (rev [0..<Suc m])) = length x # ws"
    using filter_first [of "length x" m ?Q "\<lambda>n. n", OF m] by blast
  moreover have "filter (\<lambda>(a, r). take 3 r = ''://'') (greedy1 not_newline ?s) =
      map (\<lambda>n. (take n ?s, drop n ?s)) (filter ?Q (map (\<lambda>n. n) (rev [0..<Suc m])))"
    unfolding greedy1_def greedy_def m_def
    by (simp only: filter_map comp_def filter_filter fst_conv prod.case map_ident conj_commute)
  ultimately show ?thesis
    by (simp add: match_protocol_def optional_def)
qed

lemma match_port_first:
  "ds \<noteq> [] \<Longrightarrow> list_all IS_NUM ds \<Longrightarrow> s = [] \<or> \<not> IS_NUM (hd s) \<Longrightarrow>
    \<exists>ws. match_port (CHR '':'' # ds @ s) = (Some ds, s) # ws"
  "s = [] \<or> hd s \<noteq> CHR '':'' \<Longrightarrow> match_port s = [(None, s)]"
  using greedy1_first [of ds IS_NUM s]
  by (auto simp: match_port_def optional_def split: list.splits)

lemma match_path_first:
  "list_all (\<lambda>c. c \<noteq> CHR ''?'') p \<Longrightarrow> s = [] \<or> hd s = CHR ''?'' \<Longrightarrow>
    \<exists>ws. match_path (CHR ''/'' # p @ s) = (Some (CHR ''/'' # p), s) # ws"
  "s = [] \<or> hd s \<noteq> CHR ''/'' \<Longrightarrow> match_path s = [(None, s)]"
  using greedy_first [of "\<lambda>c. c \<noteq> CHR ''?''" p s]
  by (auto simp: match_path_def optional_def split: list.splits)

lemma match_query_first:
  "list_all not_newline q \<Longrightarrow> \<exists>ws. match_query (CHR ''?'' # q) = (Some (CHR ''?'' # q), []) # ws"
  "match_query [] = [(None, [])]"
  using greedy_first [of not_newline q "[]"]
  by (auto simp: match_query_def optional_def)

lemma url_matches_first:
  assumes "match_protocol s = (a, s1) # w1" "greedy1 url_host_char s1 = (b, s2) # w2"
    and "match_port s2 = (c, s3) # w3" "match_path s3 = (d, s4) # w4" "match_query s4 = (e, []) # w5"
  shows "\<exists>ws. url_matches s = (a, b, c, d, e) # ws"
  by (simp add: url_matches_def assms)

section \<open>Soundness\<close>

lemma match_protocol_sound:
  assumes "(a, r) \<in> set (match_protocol s)"
  shows "s = (case a of None \<Rightarrow> [] | Some x \<Rightarrow> x @ ''://'') @ r \<and>
    pred_option (\<lambda>x. x \<noteq> [] \<and> list_all not_newline x) a"
proof (cases a)
  case None
  then show ?thesis
    using assms by (auto simp: match_protocol_def optional_def)
next
  case (Some x)
  then obtain q where q: "(x, q) \<in> set (greedy1 not_newline s)" "take 3 q = ''://''" "r = drop 3 q"
    using assms by (auto simp: match_protocol_def optional_def)
  then show ?thesis
    using greedy_sound [of x q not_newline s] append_take_drop_id [of 3 q] Some
    by (auto simp: greedy1_def)
qed

lemma match_port_sound:
  assumes "(a, r) \<in> set (match_port s)"
  shows "s = (case a of None \<Rightarrow> [] | Some x \<Rightarrow> CHR '':'' # x) @ r \<and>
    pred_option (\<lambda>x. x \<noteq> [] \<and> list_all IS_NUM x) a"
  using assms
  by (auto simp: match_port_def optional_def greedy1_def dest!: greedy_sound split: list.splits if_splits)

lemma match_path_sound:
  assumes "(a, r) \<in> set (match_path s)"
  shows "s = text_of a @ r \<and>
    pred_option (\<lambda>x. x \<noteq> [] \<and> hd x = CHR ''/'' \<and> list_all (\<lambda>c. c \<noteq> CHR ''?'') x) a"
  using assms
  by (auto simp: match_path_def optional_def text_of_def dest!: greedy_sound split: list.splits if_splits)

lemma match_query_sound:
  assumes "(a, r) \<in> set (match_query s)"
  shows "s = text_of a @ r \<and>
    pred_option (\<lambda>x. x \<noteq> [] \<and> hd x = CHR ''?'' \<and> list_all not_newline (tl x)) a"
  using assms
  by (auto simp: match_query_def optional_def text_of_def dest!: greedy_sound split: list.splits if_splits)

text \<open>What every URL object of the application satisfies.\<close>

definition url_ok :: "url \<Rightarrow> bool" where
  "url_ok u \<longleftrightarrow> protocol u \<noteq> [] \<and> list_all not_newline (protocol u) \<and>
     host u \<noteq> [] \<and> list_all url_host_char (host u) \<and>
     path u \<noteq> [] \<and> hd (path u) = CHR ''/'' \<and> list_all (\<lambda>c. c \<noteq> CHR ''?'') (path u) \<and>
     (query u = [] \<or> hd (query u) = CHR ''?'' \<and> list_all not_newline (tl (query u)))"

lemma url_matches_sound:
  assumes "url_matches s = (m2, m3, m5, m6, m7) # ws"
  shows "s = (case m2 of None \<Rightarrow> [] | Some x \<Rightarrow> x @ ''://'') @ m3 @
      (case m5 of None \<Rightarrow> [] | Some x \<Rightarrow> CHR '':'' # x) @ text_of m6 @ text_of m7"
    and "pred_option (\<lambda>x. x \<noteq> [] \<and> list_all not_newline x) m2"
    and "m3 \<noteq> []" "list_all url_host_char m3"
    and "pred_option (\<lambda>x. x \<noteq> [] \<and> list_all IS_NUM x) m5"
    and "pred_option (\<lambda>x. x \<noteq> [] \<and> hd x = CHR ''/'' \<and> list_all (\<lambda>c. c \<noteq> CHR ''?'') x) m6"
    and "pred_option (\<lambda>x. x \<noteq> [] \<and> hd x = CHR ''?'' \<and> list_all not_newline (tl x)) m7"
proof -
  have "(m2, m3, m5, m6, m7) \<in> set (url_matches s)"
    using assms by simp
  then obtain s1 s2 s3 s4 where m: "(m2, s1) \<in> set (match_protocol s)" "(m3, s2) \<in> set (greedy1 url_host_char s1)"
      "(m5, s3) \<in> set (match_port s2)" "(m6, s4) \<in> set (match_path s3)" "(m7, []) \<in> set (match_query s4)"
    by (auto simp: url_matches_def)
  have h: "(m3, s2) \<in> set (greedy url_host_char s1)" "m3 \<noteq> []"
    using m(2) by (auto simp: greedy1_def)
  note sound = match_protocol_sound [OF m(1)] greedy_sound [OF h(1)] match_port_sound [OF m(3)]
    match_path_sound [OF m(4)] match_query_sound [OF m(5)]
  show "s = (case m2 of None \<Rightarrow> [] | Some x \<Rightarrow> x @ ''://'') @ m3 @
      (case m5 of None \<Rightarrow> [] | Some x \<Rightarrow> CHR '':'' # x) @ text_of m6 @ text_of m7"
    "pred_option (\<lambda>x. x \<noteq> [] \<and> list_all not_newline x) m2" "m3 \<noteq> []" "list_all url_host_char m3"
    "pred_option (\<lambda>x. x \<noteq> [] \<and> list_all IS_NUM x) m5"
    "pred_option (\<lambda>x. x \<noteq> [] \<and> hd x = CHR ''/'' \<and> list_all (\<lambda>c. c \<noteq> CHR ''?'') x) m6"
    "pred_option (\<lambda>x. x \<noteq> [] \<and> hd x = CHR ''?'' \<and> list_all not_newline (tl x)) m7"
    using sound h(2) by simp_all
qed

section \<open>Properties\<close>

definition default_port :: "char list \<Rightarrow> 16 word" where
  "default_port proto =
    (if proto = PROTOCOL_HTTP then DEFAULT_PORT_HTTP
     else if proto = PROTOCOL_HTTPS then DEFAULT_PORT_HTTPS else 0)"

text \<open>
  C21: What the constructor accepts is \<open>[protocol://]host[:port][/path][?query]\<close>, as its comment says:
  the components are the parts of the string, each of the characters of its part, a missing
  protocol is http, a missing path is a slash, and the port is the number given or the default
  of the protocol.
\<close>

theorem url_components_sound:
  assumes "get_url_components cast s = Inr u"
  shows "url_ok u \<and> (\<exists>scheme colon_port slash_path. s = scheme @ host u @ colon_port @ slash_path @ query u \<and>
    (scheme = [] \<and> protocol u = ''http'' \<or> scheme = protocol u @ ''://'') \<and>
    (slash_path = [] \<and> path u = ''/'' \<or> slash_path = path u) \<and>
    (colon_port = [] \<and> port u = default_port (protocol u) \<or>
     (\<exists>ds. colon_port = CHR '':'' # ds \<and> list_all IS_NUM ds \<and> cast ds = Some (port u))))"
proof (cases "url_matches s")
  case (Cons m ws)
  obtain m2 m3 m5 m6 m7 where m: "m = (m2, m3, m5, m6, m7)"
    by (cases m) auto
  note sound = url_matches_sound [OF Cons [unfolded m]]
  let ?scheme = "case m2 of None \<Rightarrow> [] | Some x \<Rightarrow> x @ ''://''"
  let ?port = "case m5 of None \<Rightarrow> [] | Some x \<Rightarrow> CHR '':'' # x"
  have u: "host u = m3" "query u = text_of m7" "protocol u = (case m2 of None \<Rightarrow> ''http'' | Some x \<Rightarrow> x)"
      "path u = (if text_of m6 = [] then ''/'' else text_of m6)"
      "case m5 of None \<Rightarrow> port u = default_port (protocol u) | Some ds \<Rightarrow> cast ds = Some (port u)"
    using assms Cons m sound(5)
    by (cases m5; auto simp: get_url_components_def Let_def text_of_def default_port_def PROTOCOL_HTTP_def
        split: option.splits)+
  have "url_ok u"
    using sound(2-4,6,7) u(1-4)
    by (cases m2; cases m6; cases m7) (auto simp: url_ok_def text_of_def not_newline_def)
  moreover have "s = ?scheme @ host u @ ?port @ text_of m6 @ query u"
    using sound(1) u(1,2) by simp
  moreover have "?scheme = [] \<and> protocol u = ''http'' \<or> ?scheme = protocol u @ ''://''"
    using u(3) by (cases m2) simp_all
  moreover have "text_of m6 = [] \<and> path u = ''/'' \<or> text_of m6 = path u"
    using u(4) by simp
  moreover have "?port = [] \<and> port u = default_port (protocol u) \<or>
      (\<exists>ds. ?port = CHR '':'' # ds \<and> list_all IS_NUM ds \<and> cast ds = Some (port u))"
    using u(5) sound(5) by (cases m5) simp_all
  ultimately show ?thesis by blast
qed (use assms in \<open>simp add: get_url_components_def\<close>)

definition example_cast :: "char list \<Rightarrow> 16 word option" where
  "example_cast ds = (if dec_from 0 ds \<le> 65535 then Some (of_nat (dec_from 0 ds)) else None)"

lemma example_cast_ok: "lexical_cast_u16 example_cast"
  by (simp add: lexical_cast_u16_def example_cast_def)

text \<open>How a string in this form is matched.\<close>

lemma host_char_not: "url_host_char c \<Longrightarrow> c \<noteq> CHR '':'' \<and> c \<noteq> CHR ''/'' \<and> c \<noteq> CHR ''?''"
  by (auto simp: url_host_char_def IS_ALPHANUM_def IS_NUM_def char_class)

lemma num_not: "IS_NUM c \<Longrightarrow> c \<noteq> CHR '':'' \<and> c \<noteq> CHR ''/'' \<and> c \<noteq> CHR ''?''"
  by (auto simp: IS_NUM_def)

lemma no_sep_port:
  assumes "ds \<noteq> []" "list_all IS_NUM ds" "no_sep s"
  shows "no_sep (CHR '':'' # ds @ s)"
proof -
  have "CHR '':'' \<notin> set ds" "hd ds \<noteq> CHR ''/''"
    using assms(1,2) num_not by (auto simp: list_all_iff)
  then show ?thesis
    using assms(1,3) no_sep_before [of ds s] by (cases ds) (simp_all add: no_sep_Cons)
qed

lemma url_match_printed:
  assumes "x \<noteq> []" "list_all not_newline x" "h \<noteq> []" "list_all url_host_char h"
    and "pred_option (\<lambda>ds. ds \<noteq> [] \<and> list_all IS_NUM ds) ds"
    and "list_all (\<lambda>c. c \<noteq> CHR ''?'') p" "q = [] \<or> hd q = CHR ''?'' \<and> list_all not_newline (tl q)"
    and "no_sep (CHR ''/'' # p @ q)"
  defines "colon \<equiv> (case ds of None \<Rightarrow> [] | Some d \<Rightarrow> CHR '':'' # d)"
  shows "\<exists>ws. url_matches (x @ ''://'' @ h @ colon @ CHR ''/'' # p @ q) =
    (Some x, h, ds, Some (CHR ''/'' # p), if q = [] then None else Some q) # ws"
proof -
  let ?rest = "CHR ''/'' # p @ q"
  have colon: "colon = [] \<or> (\<exists>d. colon = CHR '':'' # d \<and> d \<noteq> [] \<and> list_all IS_NUM d)"
    using assms(5) by (cases ds) (auto simp: colon_def)
  have "no_sep (colon @ ?rest)"
    using colon assms(8) no_sep_port by auto
  then have "no_sep (h @ colon @ ?rest)"
    using assms(4) host_char_not by (subst no_sep_before) (auto simp: list_all_iff)
  then obtain w1 where w1: "match_protocol (x @ ''://'' @ h @ colon @ ?rest) = (Some x, h @ colon @ ?rest) # w1"
    using match_protocol_last [OF assms(1,2)] by blast
  have "\<not> url_host_char (hd (colon @ ?rest))"
    using colon host_char_not [of "CHR ''/''"] host_char_not [of "CHR '':''"] by auto
  then obtain w2 where w2: "greedy1 url_host_char (h @ colon @ ?rest) = (h, colon @ ?rest) # w2"
    using greedy1_first [OF assms(3,4)] by blast
  have w3: "\<exists>w3. match_port (colon @ ?rest) = (ds, ?rest) # w3"
    using match_port_first(1) [of _ ?rest] match_port_first(2) [of ?rest] assms(5)
    by (cases ds) (auto simp: colon_def IS_NUM_def)
  obtain w4 where w4: "match_path ?rest = (Some (CHR ''/'' # p), q) # w4"
    using match_path_first(1) [OF assms(6), of q] assms(7) by blast
  have w5: "\<exists>w5. match_query q = (if q = [] then None else Some q, []) # w5"
    using match_query_first assms(7) by (cases q) auto
  show ?thesis
    using w3 w5 url_matches_first [OF w1 w2 _ w4] by blast
qed

text \<open>
  C22: A URL object, printed and parsed again, is the same object, provided the separator \<open>://\<close> does not
  occur in its path and query and its port is not an explicit 0 with the protocol http or https.
\<close>

theorem url_roundtrip:
  assumes "url_ok u" "no_sep (path u @ query u)" "lexical_cast_u16 cast"
    and "port u = 0 \<Longrightarrow> protocol u \<noteq> ''http'' \<and> protocol u \<noteq> ''https''"
  shows "get_url_components cast (url_to_string u) = Inr u"
proof -
  let ?plain = "protocol u = ''http'' \<and> port u = 80 \<or> protocol u = ''https'' \<and> port u = 443 \<or> port u = 0"
  define ds where "ds = (if ?plain then None else Some (decimal (unat (port u))))"
  obtain p where p: "path u = CHR ''/'' # p"
    using assms(1) by (cases "path u") (auto simp: url_ok_def)
  have str: "url_to_string u = protocol u @ ''://'' @ host u @
      (case ds of None \<Rightarrow> [] | Some d \<Rightarrow> CHR '':'' # d) @ CHR ''/'' # p @ query u"
    using p by (auto simp: url_to_string_def ds_def PROTOCOL_HTTP_def PROTOCOL_HTTPS_def
        DEFAULT_PORT_HTTP_def DEFAULT_PORT_HTTPS_def)
  have "\<exists>ws. url_matches (url_to_string u) =
      (Some (protocol u), host u, ds, Some (CHR ''/'' # p), if query u = [] then None else Some (query u)) # ws"
    unfolding str
    by (rule url_match_printed) (use assms(1,2) p in \<open>auto simp: url_ok_def ds_def decimal_digits\<close>)
  then obtain ws where m: "url_matches (url_to_string u) =
      (Some (protocol u), host u, ds, Some (CHR ''/'' # p), if query u = [] then None else Some (query u)) # ws"
    by blast
  have q: "text_of (if query u = [] then None else Some (query u)) = query u"
    by (simp add: text_of_def)
  have "unat (port u) \<le> 65535"
    using unsigned_less [of "port u", where ?'a = nat] by simp
  then have cast: "cast (decimal (unat (port u))) = Some (port u)"
    using assms(3) by (simp add: lexical_cast_u16_def decimal_digits decimal_value)
  show ?thesis
  proof (cases ?plain)
    case True
    then have "ds = None" "port u = default_port (protocol u)"
      using assms(4) by (auto simp: ds_def default_port_def PROTOCOL_HTTP_def PROTOCOL_HTTPS_def
          DEFAULT_PORT_HTTP_def DEFAULT_PORT_HTTPS_def)
    then show ?thesis
      using m q p by (simp add: get_url_components_def Let_def text_of_def default_port_def)
  next
    case False
    then have "ds = Some (decimal (unat (port u)))" by (auto simp: ds_def)
    then show ?thesis
      using m q p cast by (simp add: get_url_components_def Let_def text_of_def)
  qed
qed

definition example_page :: url where
  "example_page = \<lparr>protocol = ''https'', host = ''any.host.com'', port = 1234, path = ''/some/path'',
     query = ''?and_query''\<rparr>"

theorem url_roundtrip_witness:
  "get_url_components example_cast (url_to_string example_page) = Inr example_page"
  by (rule url_roundtrip)
    (simp_all add: example_page_def url_ok_def not_newline_def url_host_char_def IS_ALPHANUM_def char_class
      example_cast_ok no_sep_Cons)

lemma url_protocol_first:
  assumes "x \<noteq> []" "list_all not_newline x" "h \<noteq> []" "list_all url_host_char h"
  shows "get_url_components cast (x @ ''://'' @ h) =
    Inr \<lparr>protocol = x, host = h, port = default_port x, path = ''/'', query = []\<rparr>"
proof -
  have "no_sep h"
    using no_sep_before [of h "[]"] assms(4) host_char_not by (auto simp: list_all_iff)
  then obtain w1 where w1: "match_protocol (x @ ''://'' @ h) = (Some x, h) # w1"
    using match_protocol_last [OF assms(1,2)] by blast
  obtain w2 where w2: "greedy1 url_host_char h = (h, []) # w2"
    using greedy1_first [OF assms(3,4), of "[]"] by auto
  have "match_port [] = [(None, [])]" "match_path [] = [(None, [])]" "match_query [] = [(None, [])]"
    by (simp_all add: match_port_first(2) match_path_first(2) match_query_first(2))
  then have "\<exists>ws. url_matches (x @ ''://'' @ h) = (Some x, h, None, None, None) # ws"
    using url_matches_first [OF w1 w2] by blast
  then show ?thesis
    by (auto simp: get_url_components_def Let_def text_of_def default_port_def)
qed

text \<open>A path is no URL: it has no host.\<close>

lemma url_matches_path:
  assumes "no_sep s"
  shows "url_matches (CHR ''/'' # s) = []"
proof -
  have "no_sep (CHR ''/'' # s)"
    using assms by (simp add: no_sep_Cons)
  then have "match_protocol (CHR ''/'' # s) = [(None, CHR ''/'' # s)]"
    by (auto simp: match_protocol_def optional_def greedy1_def greedy_def no_sep_def)
  moreover have "greedy1 url_host_char (CHR ''/'' # s) = []"
    by (simp add: greedy1_def greedy_def url_host_char_def IS_ALPHANUM_def IS_NUM_def char_class)
  ultimately show ?thesis
    by (simp add: url_matches_def)
qed

text \<open>
  C38: The group for the protocol is greedy and its dot matches a slash: in a string that ends with a separator
  and a host, whatever stands before that separator, another URL with its path and query included, is taken for the
  protocol.
\<close>

theorem url_protocol_greedy:
  assumes "x \<noteq> []" "list_all not_newline x" "h \<noteq> []" "list_all url_host_char h"
  shows "get_url_components cast (x @ ''://'' @ h) =
    Inr \<lparr>protocol = x, host = h, port = default_port x, path = ''/'', query = []\<rparr>"
  using assms by (rule url_protocol_first)

theorem url_protocol_greedy_witness:
  "get_url_components example_cast (''http://a/b?u=http'' @ ''://'' @ ''x'') =
    Inr \<lparr>protocol = ''http://a/b?u=http'', host = ''x'', port = default_port ''http://a/b?u=http'',
      path = ''/'', query = []\<rparr>"
  by (rule url_protocol_greedy)
    (simp_all add: not_newline_def url_host_char_def IS_ALPHANUM_def char_class)

text \<open>The first property of this theory on a concrete string.\<close>

definition example_target :: url where
  "example_target = \<lparr>protocol = ''x'', host = ''h'', port = default_port ''x'', path = ''/'', query = []\<rparr>"

lemma example_target_parsed: "get_url_components example_cast (''x'' @ ''://'' @ ''h'') = Inr example_target"
  unfolding example_target_def
  by (rule url_protocol_first) (simp_all add: not_newline_def url_host_char_def IS_ALPHANUM_def char_class)

theorem url_components_sound_witness:
  "url_ok example_target \<and> (\<exists>scheme colon_port slash_path.
    ''x'' @ ''://'' @ ''h'' = scheme @ host example_target @ colon_port @ slash_path @ query example_target \<and>
    (scheme = [] \<and> protocol example_target = ''http'' \<or> scheme = protocol example_target @ ''://'') \<and>
    (slash_path = [] \<and> path example_target = ''/'' \<or> slash_path = path example_target) \<and>
    (colon_port = [] \<and> port example_target = default_port (protocol example_target) \<or>
     (\<exists>ds. colon_port = CHR '':'' # ds \<and> list_all IS_NUM ds \<and> example_cast ds = Some (port example_target))))"
  by (rule url_components_sound [OF example_target_parsed])

end
