(* ===== verification/Asio_Types.thy ===== *)
theory Asio_Types
  imports Asio_Url_Laws Http_Types
begin

text \<open>
  The data of the client: error codes, header lists, requests and results (\<open>error.h\<close>, \<open>http_request.h\<close>,
  \<open>http_request_result.h\<close>, \<open>http_client_settings.h\<close> and the result structure of \<open>http_content.h\<close>).

  A \<open>std::string\<close> and a \<open>std::vector<std::uint8_t>\<close> are lists of bytes.
\<close>

section \<open>Error codes\<close>

text \<open>
  The \<open>boost::system::error_code\<close> values the code compares with; \<open>Parser_code\<close> is the category of
  \<open>error.h\<close>, \<open>Other_code\<close> any other nonzero code of the network library.  A code of value 0 is no
  error whatever its category.
\<close>

datatype error_code =
  No_error | broken_pipe | connection_reset | eof | timed_out | operation_aborted
  | Parser_code http_errno | Other_code nat

primrec is_error :: "error_code \<Rightarrow> bool" where
  "is_error No_error = False"
| "is_error broken_pipe = True"
| "is_error connection_reset = True"
| "is_error eof = True"
| "is_error timed_out = True"
| "is_error operation_aborted = True"
| "is_error (Parser_code e) = (e \<noteq> HPE_OK)"
| "is_error (Other_code n) = True"

text \<open>\<open>http_parser_category::message\<close>.\<close>

definition http_parser_category_message :: "nat \<Rightarrow> string option" where
  "http_parser_category_message v = http_errno_name v"

section \<open>Headers\<close>

type_synonym headers = "(char list \<times> char list) list"

text \<open>\<open>tolower\<close> in the C locale.\<close>

definition iequals :: "char list \<Rightarrow> char list \<Rightarrow> bool" where
  "iequals a b \<longleftrightarrow> list_all2 (\<lambda>x y. ascii_tolower x = ascii_tolower y) a b"

definition get_header :: "headers \<Rightarrow> char list \<Rightarrow> char list" where
  "get_header hs name =
    (case find (\<lambda>h. iequals (fst h) name) hs of Some h \<Rightarrow> snd h | None \<Rightarrow> [])"

section \<open>Requests\<close>

record ssl_settings =
  client_private_key_file :: "char list"
  client_certificate_file :: "char list"
  certificate_authority_bundle_file :: "char list"

text \<open>The methods of the client: a class of four, not the parser's enumeration.\<close>

datatype client_method = GET | POST | PUT | HEAD

datatype compression_policy = never | when_better | always

record http_request =
  m_http_method :: client_method
  m_url :: url
  m_timeout_msec :: "32 word"
  m_certificates :: ssl_settings
  m_http_headers :: headers
  m_post_data :: "char list"
  m_compression_policy :: compression_policy

definition DEFAULT_TIMEOUT_MSEC :: "32 word" where "DEFAULT_TIMEOUT_MSEC = 120 * 1000"

text \<open>\<open>http_client::get\<close> and \<open>post\<close>: the request they build, or the exception of the URL.\<close>

definition get_request :: "(char list \<Rightarrow> 16 word option) \<Rightarrow> char list \<Rightarrow> ssl_settings \<Rightarrow> url_error + http_request" where
  "get_request cast url_string ssl =
    (case get_url_components cast url_string of
       Inl e \<Rightarrow> Inl e
     | Inr u \<Rightarrow> Inr \<lparr>m_http_method = GET, m_url = u, m_timeout_msec = DEFAULT_TIMEOUT_MSEC, m_certificates = ssl,
         m_http_headers = [], m_post_data = [], m_compression_policy = never\<rparr>)"

definition post_request ::
  "(char list \<Rightarrow> 16 word option) \<Rightarrow> char list \<Rightarrow> char list \<Rightarrow> char list \<Rightarrow> ssl_settings \<Rightarrow> url_error + http_request" where
  "post_request cast url_string bytes content_type ssl =
    (case get_url_components cast url_string of
       Inl e \<Rightarrow> Inl e
     | Inr u \<Rightarrow> Inr \<lparr>m_http_method = POST, m_url = u, m_timeout_msec = DEFAULT_TIMEOUT_MSEC, m_certificates = ssl,
         m_http_headers = [(''Content-Type'', content_type)], m_post_data = bytes,
         m_compression_policy = never\<rparr>)"

section \<open>Results\<close>

text \<open>\<open>http_result_data\<close>; the shared pointer to the request may be null.\<close>

record http_result_data =
  result_request :: "http_request option"
  result_headers :: headers
  result_status_code :: nat
  result_data :: "char list"

definition empty_result :: http_result_data where
  "empty_result = \<lparr>result_request = None, result_headers = [], result_status_code = 0, result_data = []\<rparr>"

text \<open>\<open>http_request_result\<close>, what the completion handler gets, without the timing statistics.\<close>

record http_request_result =
  http_response_code :: nat
  response_headers :: headers
  content_body :: "char list"
  response_error :: error_code

text \<open>The constructor from an error code leaves the response code uninitialised: \<open>junk\<close> is what is there.\<close>

definition error_result :: "nat \<Rightarrow> error_code \<Rightarrow> http_request_result" where
  "error_result junk ec =
    \<lparr>http_response_code = junk, response_headers = [], content_body = [], response_error = ec\<rparr>"

definition create_request_result :: "http_result_data \<Rightarrow> error_code \<Rightarrow> http_request_result" where
  "create_request_result r ec =
    \<lparr>http_response_code = result_status_code r, response_headers = result_headers r,
     content_body = result_data r, response_error = ec\<rparr>"

record http_client_settings =
  max_parallel_requests :: "32 word"
  max_attempts :: "32 word"

definition default_settings :: http_client_settings where
  "default_settings = \<lparr>max_parallel_requests = 25, max_attempts = 5\<rparr>"

section \<open>Lookup of headers\<close>

lemma iequals_refl [simp]: "iequals a a"
  by (simp add: iequals_def list_all2_refl)

lemma iequals_sym: "iequals a b = iequals b a"
  by (auto simp: iequals_def list_all2_conv_all_nth)

lemma iequals_map: "iequals a b \<longleftrightarrow> map ascii_tolower a = map ascii_tolower b"
  by (auto simp: iequals_def list_all2_conv_all_nth list_eq_iff_nth_eq)

lemma iequals_trans: "iequals a b \<Longrightarrow> iequals b c \<Longrightarrow> iequals a c"
  by (simp add: iequals_map)

lemma get_header_simps [simp]:
  "get_header [] name = []"
  "get_header ((n, v) # hs) name = (if iequals n name then v else get_header hs name)"
  by (simp_all add: get_header_def)

end
