(* ===== verification/Compression.thy ===== *)
theory Compression
  imports Asio_Types
begin

text \<open>
  \<open>compression.cpp\<close>: the loops around zlib.  The library itself is outside the repository and a
  parameter, a record of the functions the code calls.  What the code shares with the library is in the
  model: a \<open>z_stream\<close> with the input not yet taken, the count of the output and the library's own state;
  one call of \<open>inflate\<close> or \<open>deflate\<close> with an output buffer gives its return code, how many bytes it took,
  the bytes it wrote and its state after it.  \<open>z_uncompress\<close> is \<open>uncompress\<close> with a buffer of the given
  size (return code, the size it reports and the bytes).  The output buffers and the counters are
  those of the code, with 64 bits for \<open>uLong\<close>.
\<close>

section \<open>The library\<close>

datatype z_code = Z_OK | Z_STREAM_END | Z_BUF_ERROR | Z_OTHER_ERROR

type_synonym 'z z_function = "'z \<Rightarrow> char list \<Rightarrow> nat \<Rightarrow> z_code \<times> nat \<times> char list \<times> 'z"

record 'z zlib =
  inflate_init :: "'z option"
  z_inflate :: "'z z_function"
  deflate_init :: "int \<Rightarrow> 'z option"
  z_deflate :: "'z z_function"
  deflate_bound :: "nat \<Rightarrow> nat"
  z_uncompress :: "char list \<Rightarrow> 64 word \<Rightarrow> z_code \<times> 64 word \<times> char list"

text \<open>\<open>avail_in\<close> is the length of \<open>next_in\<close>.\<close>

record 'z z_stream =
  next_in :: "char list"
  total_out :: "64 word"
  internal_state :: 'z

definition z_call :: "'z z_function \<Rightarrow> nat \<Rightarrow> 'z z_stream \<Rightarrow> z_code \<times> char list \<times> 'z z_stream" where
  "z_call f avail_out z =
    (case f (internal_state z) (next_in z) avail_out of (ret, used, out, i) \<Rightarrow>
       (ret, out, \<lparr>next_in = drop used (next_in z), total_out = total_out z + of_nat (length out),
          internal_state = i\<rparr>))"

definition outbuffer_size :: nat where "outbuffer_size = 32768"

definition Z_BEST_COMPRESSION :: int where "Z_BEST_COMPRESSION = 9"

text \<open>\<open>avail_in\<close> has 32 bits: of a longer vector only the remainder is given to the library.\<close>

definition z_input :: "char list \<Rightarrow> char list" where
  "z_input bytes = take (length bytes mod 2 ^ 32) bytes"

definition new_stream :: "char list \<Rightarrow> 'z \<Rightarrow> 'z z_stream" where
  "new_stream bytes i = \<lparr>next_in = z_input bytes, total_out = 0, internal_state = i\<rparr>"

section \<open>The loops\<close>

text \<open>
  \<open>do { ... } while (ret == Z_OK)\<close>, with the output buffer and the bytes collected so far; \<open>None\<close> when it
  does not end.
\<close>

partial_function (option) z_loop ::
  "'z z_function \<Rightarrow> 'z z_stream \<Rightarrow> char list \<Rightarrow> char list \<Rightarrow> (z_code \<times> char list) option" where
  "z_loop f z outbuffer result =
    (case z_call f (length outbuffer) z of (ret, out, z') \<Rightarrow>
       let outbuffer = out @ drop (length out) outbuffer;
           result = (if length result < unat (total_out z')
                     then result @ take (unat (total_out z') - length result) outbuffer else result)
       in if ret = Z_OK then z_loop f z' outbuffer result else Some (ret, result))"

definition decompress_gzip :: "'z zlib \<Rightarrow> char list \<Rightarrow> char list option" where
  "decompress_gzip zl bytes =
    (case inflate_init zl of
       None \<Rightarrow> Some []
     | Some i \<Rightarrow>
         map_option snd (z_loop (z_inflate zl) (new_stream bytes i) (replicate outbuffer_size NUL) []))"

definition compress_level :: "'z zlib \<Rightarrow> char list \<Rightarrow> int \<Rightarrow> char list option" where
  "compress_level zl bytes level =
    (case deflate_init zl level of
       None \<Rightarrow> Some []
     | Some i \<Rightarrow>
         map_option (\<lambda>(ret, out). if ret = Z_STREAM_END then out else [])
           (z_loop (z_deflate zl) (new_stream bytes i) (replicate outbuffer_size NUL) []))"

definition compress :: "'z zlib \<Rightarrow> char list \<Rightarrow> char list option" where
  "compress zl bytes = compress_level zl bytes Z_BEST_COMPRESSION"

text \<open>
  \<open>decompress_deflate\<close>: the buffer doubles until it is large enough.  \<open>len\<close> has the width of \<open>uLongf\<close> and
  wraps; \<open>buffer.resize\<close> throws for more bytes than a vector can have.  \<open>None\<close> is both the exception and a
  loop that does not end: either way nothing is returned.
\<close>

definition vector_max_size :: nat where "vector_max_size = 2 ^ 63 - 1"

partial_function (option) uncompress_loop ::
  "'z zlib \<Rightarrow> char list \<Rightarrow> 64 word \<Rightarrow> (z_code \<times> char list) option" where
  "uncompress_loop zl bytes len =
    (let len = len * 2 in
     if vector_max_size < unat len then None
     else case z_uncompress zl bytes len of (error_code, len, buffer) \<Rightarrow>
       if error_code = Z_BUF_ERROR then uncompress_loop zl bytes len
       else Some (error_code, take (unat len) buffer))"

definition decompress_deflate :: "'z zlib \<Rightarrow> char list \<Rightarrow> char list option" where
  "decompress_deflate zl bytes =
    (if bytes = [] then Some []
     else map_option (\<lambda>(error_code, out). if error_code = Z_OK then out else [])
       (uncompress_loop zl bytes (of_nat (length bytes) * 2)))"

section \<open>What the library documents\<close>

text \<open>The states of a stream after calls that returned \<open>Z_OK\<close>, with the number of bytes written by them.\<close>

inductive z_reach :: "'z z_function \<Rightarrow> 'z z_stream \<Rightarrow> nat \<Rightarrow> 'z z_stream \<Rightarrow> bool" for f z0 where
  start: "z_reach f z0 0 z0"
| call: "z_reach f z0 written z \<Longrightarrow> 0 < room \<Longrightarrow> z_call f room z = (Z_OK, out, z') \<Longrightarrow>
    z_reach f z0 (written + length out) z'"

text \<open>
  The manual of \<open>inflate\<close> and \<open>deflate\<close>: a call takes what is there and writes what fits; it returns
  \<open>Z_OK\<close> only if some progress was made, more input taken or more output produced, and \<open>Z_BUF_ERROR\<close> if
  none was possible.  All the output of a stream together stays within a \<open>bound\<close>.
\<close>

definition z_documented :: "'z z_function \<Rightarrow> 'z z_stream \<Rightarrow> nat \<Rightarrow> bool" where
  "z_documented f z0 bound \<longleftrightarrow> (\<forall>written z room ret used out i.
     z_reach f z0 written z \<longrightarrow> 0 < room \<longrightarrow> f (internal_state z) (next_in z) room = (ret, used, out, i) \<longrightarrow>
     used \<le> length (next_in z) \<and> length out \<le> room \<and> written + length out \<le> bound \<and>
     (ret = Z_OK \<longrightarrow> 0 < used \<or> out \<noteq> []))"

text \<open>
  The bounds the manual gives: no stream inflates to more than 1032 times its size, and none deflates to more
  than \<open>deflateBound\<close> of its size.  \<open>uncompress\<close> returns \<open>Z_BUF_ERROR\<close> when the output does not fit, and has
  then filled the buffer.
\<close>

definition max_inflation :: nat where "max_inflation = 1032"

definition zlib_ok :: "'z zlib \<Rightarrow> bool" where
  "zlib_ok zl \<longleftrightarrow>
     (\<forall>i bytes. inflate_init zl = Some i \<longrightarrow>
        z_documented (z_inflate zl) (new_stream bytes i) (max_inflation * length bytes)) \<and>
     (\<forall>i bytes level. deflate_init zl level = Some i \<longrightarrow>
        z_documented (z_deflate zl) (new_stream bytes i) (deflate_bound zl (length bytes))) \<and>
     (\<forall>bytes len len' buffer. z_uncompress zl bytes len = (Z_BUF_ERROR, len', buffer) \<longrightarrow>
        len' = len \<and> unat len < max_inflation * length bytes)"

section \<open>Termination\<close>

lemma z_documentedD:
  assumes "z_documented f z0 bound" "z_reach f z0 written z" "0 < room"
    and "f (internal_state z) (next_in z) room = (ret, used, out, i)"
  shows "used \<le> length (next_in z)" "written + length out \<le> bound" "ret = Z_OK \<Longrightarrow> 0 < used \<or> out \<noteq> []"
  using assms unfolding z_documented_def by blast+

text \<open>Input left and output still possible: one of them shrinks with every \<open>Z_OK\<close>.\<close>

lemma z_loop_ends:
  assumes "z_documented f z0 bound" "z_reach f z0 written z" "outbuffer \<noteq> []"
  shows "z_loop f z outbuffer result \<noteq> None"
  using assms(2,3)
proof (induction "length (next_in z) + (bound - written)" arbitrary: z written outbuffer result rule: less_induct)
  case less
  obtain ret used out i where f: "f (internal_state z) (next_in z) (length outbuffer) = (ret, used, out, i)"
    by (cases "f (internal_state z) (next_in z) (length outbuffer)") auto
  obtain z' where c: "z_call f (length outbuffer) z = (ret, out, z')" "next_in z' = drop used (next_in z)"
    by (simp add: z_call_def f)
  have "0 < length outbuffer"
    using less.prems(2) by simp
  note ok = z_documentedD [OF assms(1) less.prems(1) this f]
  show ?case
  proof (cases "ret = Z_OK")
    case True
    then have reach: "z_reach f z0 (written + length out) z'"
      using z_reach.call [OF less.prems(1) \<open>0 < length outbuffer\<close>] c(1) by simp
    have "length (next_in z') + (bound - (written + length out)) < length (next_in z) + (bound - written)"
      using ok(1,2) ok(3) [OF True] c(2) by (cases out) auto
    then show ?thesis
      using less.hyps [OF _ reach] less.prems(2) True
      by (subst z_loop.simps) (simp add: c(1) Let_def)
  qed (subst z_loop.simps, simp add: c(1) Let_def)
qed

lemma doubled:
  assumes "unat (len :: 64 word) < 2 ^ 62"
  shows "unat (len * 2) = unat len * 2"
  using assms by (simp add: unat_word_ariths)

lemma uncompress_loop_ends:
  assumes "zlib_ok zl" "length bytes < 2 ^ 50" "0 < unat len" "unat len < 2 ^ 61"
  shows "uncompress_loop zl bytes len \<noteq> None"
  using assms(3,4)
proof (induction "2 ^ 62 - unat len" arbitrary: len rule: less_induct)
  case less
  have twice: "unat (len * 2) = unat len * 2"
    using less.prems(2) by (intro doubled) simp
  obtain ret len' out where s: "z_uncompress zl bytes (len * 2) = (ret, len', out)"
    by (cases "z_uncompress zl bytes (len * 2)") auto
  show ?case
  proof (cases "ret = Z_BUF_ERROR")
    case True
    then have "len' = len * 2" "unat (len * 2) < max_inflation * length bytes"
      using assms(1) s unfolding zlib_ok_def by blast+
    moreover from this(2) have "unat (len * 2) < 2 ^ 61"
      using assms(2) by (simp add: max_inflation_def)
    ultimately show ?thesis
      using less.hyps [of len'] less.prems s True twice
      by (subst uncompress_loop.simps) (simp add: vector_max_size_def Let_def)
  qed (use less.prems(2) twice s in \<open>subst uncompress_loop.simps, simp add: vector_max_size_def Let_def\<close>)
qed

lemma loop_returns:
  "z_documented f (new_stream bytes i) bound \<Longrightarrow>
    \<exists>r. z_loop f (new_stream bytes i) (replicate outbuffer_size NUL) [] = Some r"
  using z_loop_ends [OF _ z_reach.start, of f "new_stream bytes i" bound] by (auto simp: outbuffer_size_def)

lemma decompress_gzip_returns: "zlib_ok zl \<Longrightarrow> \<exists>out. decompress_gzip zl bytes = Some out"
  using loop_returns [of "z_inflate zl" bytes]
  unfolding decompress_gzip_def zlib_ok_def by (cases "inflate_init zl") fastforce+

lemma compress_returns: "zlib_ok zl \<Longrightarrow> \<exists>out. compress zl bytes = Some out"
  using loop_returns [of "z_deflate zl" bytes]
  unfolding compress_def compress_level_def zlib_ok_def
  by (cases "deflate_init zl Z_BEST_COMPRESSION") fastforce+

lemma decompress_deflate_returns:
  assumes "zlib_ok zl" "length bytes < 2 ^ 50"
  shows "\<exists>out. decompress_deflate zl bytes = Some out"
proof (cases bytes)
  case (Cons b bs)
  have "unat (of_nat (length bytes) :: 64 word) = length bytes"
    using assms(2) by (simp add: unat_of_nat)
  then have "unat (of_nat (length bytes) * 2 :: 64 word) = length bytes * 2"
    using doubled [of "of_nat (length bytes)"] assms(2) by simp
  then have "uncompress_loop zl bytes (of_nat (length bytes) * 2) \<noteq> None"
    using assms(2) Cons by (intro uncompress_loop_ends [OF assms]) auto
  then show ?thesis
    using Cons by (auto simp: decompress_deflate_def)
qed (simp add: decompress_deflate_def)

text \<open>
  C23: On a zlib that behaves as documented, the three functions return.  The loops around \<open>inflate\<close> and
  \<open>deflate\<close> end because every turn takes input or writes some of a bounded output, and \<open>decompress_deflate\<close>
  because its buffer, doubled in 64 bits, becomes large enough for the output before it wraps or is more
  than a vector can hold; this last for data of fewer than \<open>2 ^ 50\<close> bytes.
\<close>

theorem compression_total:
  assumes "zlib_ok zl"
  shows "decompress_gzip zl bytes \<noteq> None \<and> compress zl bytes \<noteq> None \<and>
    (length bytes < 2 ^ 50 \<longrightarrow> decompress_deflate zl bytes \<noteq> None)"
  using decompress_gzip_returns [OF assms] compress_returns [OF assms] decompress_deflate_returns [OF assms]
  by (metis option.distinct(1))

text \<open>A library that stores: it writes the input as it is, as far as there is room.\<close>

definition stored_function :: "unit z_function" where
  "stored_function i input room =
    (if length input \<le> room then Z_STREAM_END else Z_OK, min room (length input), take room input, ())"

definition stored_zlib :: "unit zlib" where
  "stored_zlib = \<lparr>inflate_init = Some (), z_inflate = stored_function, deflate_init = (\<lambda>_. Some ()),
     z_deflate = stored_function, deflate_bound = id,
     z_uncompress = (\<lambda>bytes len. if length bytes \<le> unat len then (Z_OK, of_nat (length bytes), bytes)
                                  else (Z_BUF_ERROR, len, take (unat len) bytes))\<rparr>"

lemma stored_reach:
  assumes "z_reach stored_function (new_stream bytes i) written z"
  shows "written + length (next_in z) \<le> length bytes"
  using assms
proof (induction rule: z_reach.induct)
  case start
  show ?case
    by (simp add: new_stream_def z_input_def)
next
  case (call written z room out z')
  then show ?case
    by (auto simp: z_call_def stored_function_def split: if_splits)
qed

lemma stored_ok: "zlib_ok stored_zlib"
proof -
  have "z_documented stored_function (new_stream bytes i) bound" if "length bytes \<le> bound" for bytes i bound
    using that stored_reach [of bytes i]
    by (fastforce simp: z_documented_def stored_function_def split: if_splits)
  then show ?thesis
    by (auto simp: zlib_ok_def stored_zlib_def max_inflation_def split: if_splits)
qed

theorem compression_total_witness:
  "decompress_gzip stored_zlib ''abc'' \<noteq> None \<and> compress stored_zlib ''abc'' \<noteq> None \<and>
    decompress_deflate stored_zlib ''abc'' \<noteq> None"
  using compression_total [OF stored_ok, of "''abc''"] by simp

end
