(* ===== verification/Data_Transfer.thy ===== *)
theory Data_Transfer
  imports Compression
begin

text \<open>
  \<open>data_source.cpp\<close> and \<open>data_sink.cpp\<close>: the body of a request as a stream that is read in blocks, and
  the body of a response as it is collected and decompressed.
\<close>

section \<open>Data source\<close>

text \<open>
  \<open>m_data\<close> is a string stream: its bytes, the read position and whether its state is good.
\<close>

record data_source =
  source_bytes :: "char list"
  source_pos :: nat
  source_good :: bool
  m_size :: nat
  m_encoding_headers :: "char list list"

definition compress_data_source ::
  "'z zlib \<Rightarrow> char list \<Rightarrow> compression_policy \<Rightarrow> (char list \<times> char list list) option" where
  "compress_data_source zl bytes policy =
    (if policy \<noteq> never \<and> bytes \<noteq> [] then
       (case compress zl bytes of
          None \<Rightarrow> None
        | Some compressed \<Rightarrow>
            Some (if compressed \<noteq> [] \<and> (policy = always \<or> length compressed < length bytes)
                  then (compressed, [''Content-Encoding: gzip'']) else (bytes, [])))
     else Some (bytes, []))"

text \<open>The constructor; \<open>None\<close> when the compression does not return.\<close>

definition data_source_init :: "'z zlib \<Rightarrow> char list \<Rightarrow> compression_policy \<Rightarrow> data_source option" where
  "data_source_init zl bytes policy =
    map_option (\<lambda>(bs, hs). \<lparr>source_bytes = bs, source_pos = 0, source_good = True, m_size = length bs,
        m_encoding_headers = hs\<rparr>)
      (compress_data_source zl bytes policy)"

text \<open>
  \<open>std::istream::read\<close>: nothing from a stream that is not good; a read that hits the end leaves it
  not good.  The result is what was read, so \<open>gcount\<close> is its length.
\<close>

definition read_callback :: "nat \<Rightarrow> data_source \<Rightarrow> char list \<times> data_source" where
  "read_callback n s =
    (if \<not> source_good s then ([], s)
     else let out = take n (drop (source_pos s) (source_bytes s)) in
       (out, s\<lparr>source_pos := source_pos s + length out, source_good := (length out = n)\<rparr>))"

datatype seekdir = seek_beg | seek_cur | seek_end

definition seek_callback :: "32 word \<Rightarrow> seekdir \<Rightarrow> data_source \<Rightarrow> bool \<times> data_source" where
  "seek_callback offset origin s =
    (let base = (case origin of seek_beg \<Rightarrow> 0 | seek_cur \<Rightarrow> int (source_pos s)
                 | seek_end \<Rightarrow> int (length (source_bytes s)));
         target = base + sint offset
     in if 0 \<le> target \<and> target \<le> int (length (source_bytes s))
        then (True, s\<lparr>source_good := True, source_pos := nat target\<rparr>)
        else (False, s\<lparr>source_good := False\<rparr>))"

definition get_size :: "data_source \<Rightarrow> nat" where
  "get_size s = m_size s"

definition get_encoding_headers :: "data_source \<Rightarrow> char list list" where
  "get_encoding_headers s = m_encoding_headers s"

section \<open>Data sink\<close>

datatype sink_compression = no_compression | deflate | gzip

record data_sink =
  sink_bytes :: "char list"
  m_compression :: sink_compression

definition data_sink_init :: data_sink where
  "data_sink_init = \<lparr>sink_bytes = [], m_compression = no_compression\<rparr>"

text \<open>\<open>at\<close> are the bytes the pointer gives access to, of which \<open>size * count\<close> (in 32 bits) are written.\<close>

definition write_callback :: "char list \<Rightarrow> 32 word \<Rightarrow> 32 word \<Rightarrow> data_sink \<Rightarrow> 32 word \<times> data_sink" where
  "write_callback at n count s =
    (let ret = n * count in (ret, s\<lparr>sink_bytes := sink_bytes s @ take (unat ret) at\<rparr>))"

definition get_data :: "'z zlib \<Rightarrow> data_sink \<Rightarrow> char list option" where
  "get_data zl s =
    (case m_compression s of
       no_compression \<Rightarrow> Some (sink_bytes s)
     | deflate \<Rightarrow> decompress_deflate zl (sink_bytes s)
     | gzip \<Rightarrow> decompress_gzip zl (sink_bytes s))"

text \<open>It returns, unless zlib does not or the body is too large for its buffer.\<close>

lemma get_data_returns:
  "zlib_ok zl \<Longrightarrow> length (sink_bytes s) < 2 ^ 50 \<Longrightarrow> \<exists>out. get_data zl s = Some out"
  using decompress_gzip_returns decompress_deflate_returns by (cases "m_compression s") (auto simp: get_data_def)

definition header_callback :: "headers \<Rightarrow> data_sink \<Rightarrow> data_sink" where
  "header_callback hs s =
    (let value = get_header hs ''Content-Encoding'' in
     if iequals value ''deflate'' then s\<lparr>m_compression := deflate\<rparr>
     else if iequals value ''gzip'' then s\<lparr>m_compression := gzip\<rparr>
     else s)"

section \<open>Reading in blocks\<close>

text \<open>The blocks that successive calls give, up to the first empty one.\<close>

function source_blocks :: "nat \<Rightarrow> data_source \<Rightarrow> char list list" where
  "source_blocks n s =
    (case read_callback n s of (out, s') \<Rightarrow> if out = [] then [] else out # source_blocks n s')"
  by auto
termination
  by (relation "measure (\<lambda>(n, s). length (source_bytes s) - source_pos s)")
    (auto simp: read_callback_def Let_def split: if_splits)

declare source_blocks.simps [simp del]

lemma source_blocks_content:
  assumes "0 < n" "source_good s"
  shows "concat (source_blocks n s) = drop (source_pos s) (source_bytes s) \<and>
    list_all (\<lambda>b. b \<noteq> [] \<and> length b \<le> n) (source_blocks n s)"
  using assms
proof (induction n s rule: source_blocks.induct)
  case (1 n s)
  let ?out = "take n (drop (source_pos s) (source_bytes s))"
  let ?s' = "s\<lparr>source_pos := source_pos s + length ?out, source_good := (length ?out = n)\<rparr>"
  have r: "read_callback n s = (?out, ?s')"
    using "1.prems"(2) by (simp add: read_callback_def Let_def)
  show ?case
  proof (cases "?out = []")
    case True
    then show ?thesis
      using "1.prems"(1) r by (subst (1 2) source_blocks.simps) simp
  next
    case nonempty: False
    show ?thesis
    proof (cases "length ?out = n")
      case True
      have "concat (source_blocks n ?s') = drop (source_pos s + n) (source_bytes s) \<and>
          list_all (\<lambda>b. b \<noteq> [] \<and> length b \<le> n) (source_blocks n ?s')"
        using "1.IH" [OF r [symmetric] nonempty "1.prems"(1)] True by simp
      then show ?thesis
        using r nonempty True append_take_drop_id [of n "drop (source_pos s) (source_bytes s)"]
        by (subst (1 2) source_blocks.simps) (simp add: add.commute)
    next
      case False
      then have less: "length (source_bytes s) - source_pos s < n"
        by (auto simp: min_def split: if_splits)
      then have "drop (source_pos s) (source_bytes s) = ?out" by simp
      moreover have "source_blocks n ?s' = []"
        using False by (subst source_blocks.simps) (simp add: read_callback_def)
      ultimately show ?thesis
        using r nonempty less by (subst (1 2) source_blocks.simps) simp
    qed
  qed
qed

section \<open>Properties\<close>

text \<open>
  C28: What a data source is read as, in blocks of any size, is its body: exactly as many bytes as
  its size says, which is what goes into \<open>Content-Length\<close>.  The body is the gzip of the data, with the encoding
  header, exactly when the policy is not \<open>never\<close>, there is data, its compression gives something, and the policy is
  \<open>always\<close> or the compressed data is shorter; else it is the data as given, with no header.
\<close>

theorem data_source_body:
  assumes "data_source_init zl bytes policy = Some s" "0 < n"
  shows "concat (source_blocks n s) = source_bytes s \<and> length (source_bytes s) = get_size s \<and>
    list_all (\<lambda>b. b \<noteq> [] \<and> length b \<le> n) (source_blocks n s) \<and>
    (if policy \<noteq> never \<and> bytes \<noteq> [] \<and>
        (\<exists>z. compress zl bytes = Some z \<and> z \<noteq> [] \<and> (policy = always \<or> length z < length bytes))
     then compress zl bytes = Some (source_bytes s) \<and> get_encoding_headers s = [''Content-Encoding: gzip'']
     else source_bytes s = bytes \<and> get_encoding_headers s = [])"
proof -
  have s: "source_good s" "source_pos s = 0" "length (source_bytes s) = m_size s"
    using assms(1) by (auto simp: data_source_init_def)
  have "if policy \<noteq> never \<and> bytes \<noteq> [] \<and>
        (\<exists>z. compress zl bytes = Some z \<and> z \<noteq> [] \<and> (policy = always \<or> length z < length bytes))
     then compress zl bytes = Some (source_bytes s) \<and> get_encoding_headers s = [''Content-Encoding: gzip'']
     else source_bytes s = bytes \<and> get_encoding_headers s = []"
    using assms(1)
    by (auto simp: data_source_init_def compress_data_source_def get_encoding_headers_def
        split: if_splits option.splits)
  then show ?thesis
    using source_blocks_content [OF assms(2) s(1)] s(2,3) by (simp add: get_size_def)
qed

definition example_stream :: data_source where
  "example_stream = \<lparr>source_bytes = ''abc'', source_pos = 0, source_good = True, m_size = 3,
     m_encoding_headers = [''Content-Encoding: gzip'']\<rparr>"

lemma stored_compress: "compress stored_zlib ''abc'' = Some ''abc''"
proof -
  have "z_loop stored_function (new_stream ''abc'' ()) (replicate outbuffer_size NUL) [] =
      Some (Z_STREAM_END, ''abc'')"
    by (subst z_loop.simps)
      (simp add: z_call_def stored_function_def new_stream_def z_input_def outbuffer_size_def)
  then show ?thesis
    by (simp add: compress_def compress_level_def stored_zlib_def)
qed

lemma example_source: "data_source_init stored_zlib ''abc'' always = Some example_stream"
  by (simp add: data_source_init_def compress_data_source_def stored_compress example_stream_def)

theorem data_source_body_witness:
  "data_source_init stored_zlib ''abc'' always = Some example_stream \<and>
    concat (source_blocks 2 example_stream) = source_bytes example_stream \<and>
    length (source_bytes example_stream) = get_size example_stream \<and>
    list_all (\<lambda>b. b \<noteq> [] \<and> length b \<le> 2) (source_blocks 2 example_stream) \<and>
    compress stored_zlib ''abc'' = Some (source_bytes example_stream) \<and>
    get_encoding_headers example_stream = [''Content-Encoding: gzip'']"
  using data_source_body [OF example_source, of 2] example_source stored_compress by simp

definition write_all :: "char list list \<Rightarrow> data_sink \<Rightarrow> data_sink" where
  "write_all blocks s = fold (\<lambda>b s. snd (write_callback b (of_nat (length b)) 1 s)) blocks s"

lemma write_all_bytes:
  "list_all (\<lambda>b. length b < 2 ^ 32) blocks \<Longrightarrow>
    write_all blocks s = s\<lparr>sink_bytes := sink_bytes s @ concat blocks\<rparr>"
proof (induction blocks arbitrary: s)
  case (Cons b bs)
  then have "unat (of_nat (length b) :: 32 word) = length b"
    by (simp add: unat_of_nat)
  then show ?case
    using Cons by (simp add: write_all_def write_callback_def)
qed (simp add: write_all_def)

text \<open>
  C29: A sink that saw the headers and was then given the body in any blocks hands the whole body over,
  through the decompression its \<open>Content-Encoding\<close> asks for (in any case), and as it is when the
  header is missing.
\<close>

theorem data_sink_body:
  assumes "list_all (\<lambda>b. length b < 2 ^ 32) blocks"
  shows "get_data zl (write_all blocks (header_callback hs data_sink_init)) =
    (let encoding = get_header hs ''Content-Encoding'' in
     if iequals encoding ''deflate'' then decompress_deflate zl (concat blocks)
     else if iequals encoding ''gzip'' then decompress_gzip zl (concat blocks)
     else Some (concat blocks))"
  using write_all_bytes [OF assms]
  by (simp add: header_callback_def get_data_def data_sink_init_def Let_def)

theorem data_sink_body_witness:
  "get_data stored_zlib (write_all [''ab'', ''c''] (header_callback [(''content-encoding'', ''GZIP'')] data_sink_init)) =
    (let encoding = get_header [(''content-encoding'', ''GZIP'')] ''Content-Encoding'' in
     if iequals encoding ''deflate'' then decompress_deflate stored_zlib (concat [''ab'', ''c''])
     else if iequals encoding ''gzip'' then decompress_gzip stored_zlib (concat [''ab'', ''c''])
     else Some (concat [''ab'', ''c'']))"
  by (rule data_sink_body) simp

end
