(* ===== verification/Http_Connection.thy ===== *)
theory Http_Connection
  imports Data_Transfer Parser_Client
begin

text \<open>
  One connection: the stack of \<open>http_content\<close>, \<open>encoding\<close>, \<open>http_client_connection\<close> and a socket layer
  (\<open>http_content.h\<close>, \<open>encoding.h\<close>, \<open>http_client_connection.h\<close>, \<open>socket.h\<close>).

  The handlers run one at a time, on one strand (the timer's is not bound to it, so this asks for an
  \<open>io_context\<close> with one thread): the stack is a state and every handler a function on it.  What a
  handler asks of the network library, of the timer and of the request manager is appended to a log
  of effects, in order.  The network library itself is outside the repository: its completions are
  the events the handlers take.  \<open>encoding\<close> hands every call through and has no state.
\<close>

section \<open>State\<close>

datatype connection_state = state_in_progress | state_writing_body | state_done

record request_buffers =
  req_method :: client_method
  request_headers :: headers
  recv_headers :: headers
  req_url :: url
  current_header :: "char list \<times> char list"
  m_state :: connection_state

text \<open>\<open>Completed\<close> is the call of \<open>m_completed_request_callback\<close>; an endpoint is a number.\<close>

datatype effect =
    Async_resolve "char list" "char list" | Async_connect nat | Async_handshake
  | Async_write "char list" | Async_read | Socket_shutdown | Timer_wait "32 word" | Timer_cancel
  | Completed http_result_data error_code

text \<open>
  \<open>has_callback\<close>: \<open>m_completed_request_callback != nullptr\<close>.  \<open>body_source\<close> and \<open>body_sink\<close> are the
  objects behind the unique pointers, which \<open>start\<close> sets before anything reads them.
\<close>

record stack =
  the_request :: "http_request option"
  has_callback :: bool
  m_result :: http_result_data
  body_sink :: data_sink
  body_source :: data_source
  stack_host :: "char list \<times> 16 word"
  current_request :: request_buffers
  m_not_reusable :: bool
  socket_open :: bool
  socket_ssl :: bool
  endpoints :: "nat list"
  effects :: "effect list"
  hung :: bool

text \<open>
  \<open>hung\<close> is not a member of the code.  It is set where the code does not go on because \<open>data_sink::get_data\<close> does
  not return; what the model computes after that is thrown away with the handler (\<open>returned\<close>), so no
  handler ends in such a stack.
\<close>

definition returned :: "stack \<Rightarrow> stack option" where
  "returned s = (if hung s then None else Some s)"

lemma returned_simps [simp]:
  "returned s = Some s' \<longleftrightarrow> s' = s \<and> \<not> hung s" "returned s = None \<longleftrightarrow> hung s"
  by (auto simp: returned_def)

text \<open>
  A stack as its layers' constructors leave it.  They do not set \<open>m_status_code\<close>, which is \<open>junk\<close>, nor
  the method, and the pointers to the request, the sink and the source are null; \<open>start\<close> sets these before
  anything reads them.
\<close>

definition new_stack :: "nat \<Rightarrow> char list \<times> 16 word \<Rightarrow> bool \<Rightarrow> stack" where
  "new_stack junk host_port ssl =
    \<lparr>the_request = None, has_callback = False, m_result = empty_result\<lparr>result_status_code := junk\<rparr>,
     body_sink = data_sink_init,
     body_source = \<lparr>source_bytes = [], source_pos = 0, source_good = True, m_size = 0, m_encoding_headers = []\<rparr>,
     stack_host = host_port,
     current_request = \<lparr>req_method = GET, request_headers = [], recv_headers = [],
       req_url = \<lparr>protocol = [], host = [], port = 0, path = [], query = []\<rparr>,
       current_header = ([], []), m_state = state_in_progress\<rparr>,
     m_not_reusable = False, socket_open = False, socket_ssl = ssl, endpoints = [], effects = [], hung = False\<rparr>"

definition emit :: "effect \<Rightarrow> stack \<Rightarrow> stack" where
  "emit e s = s\<lparr>effects := effects s @ [e]\<rparr>"

section \<open>Sockets\<close>

text \<open>\<open>generic_stream\<close> and \<open>ssl_socket\<close>: the calls from above.\<close>

definition socket_connect :: "char list \<Rightarrow> char list \<Rightarrow> stack \<Rightarrow> stack" where
  "socket_connect h p = emit (Async_resolve h p)"

definition socket_write :: "char list \<Rightarrow> stack \<Rightarrow> stack" where
  "socket_write bytes = emit (Async_write bytes)"

definition socket_read :: "stack \<Rightarrow> stack" where
  "socket_read = emit Async_read"

definition socket_close :: "stack \<Rightarrow> stack" where
  "socket_close s = (if socket_open s then emit Socket_shutdown (s\<lparr>socket_open := False\<rparr>) else s)"

section \<open>Content layer\<close>

text \<open>\<open>zl\<close> is the zlib in use.\<close>

definition complete_request :: "'z zlib \<Rightarrow> error_code \<Rightarrow> stack \<Rightarrow> stack" where
  "complete_request zl ec s =
    (if has_callback s then
       let s = emit Timer_cancel s in
       (case get_data zl (body_sink s) of
          None \<Rightarrow> s\<lparr>hung := True\<rparr>
        | Some bytes \<Rightarrow>
            let r = (m_result s)\<lparr>result_data := bytes, result_request := the_request s\<rparr>
            in (emit (Completed r ec) s)\<lparr>m_result := empty_result, has_callback := False\<rparr>)
     else s)"

definition on_error :: "'z zlib \<Rightarrow> error_code \<Rightarrow> stack \<Rightarrow> stack" where
  "on_error zl ec = complete_request zl ec"

definition on_headers :: "nat \<Rightarrow> headers \<Rightarrow> stack \<Rightarrow> stack" where
  "on_headers code hs s =
    s\<lparr>m_result := (m_result s)\<lparr>result_status_code := code, result_headers := hs\<rparr>,
      body_sink := header_callback hs (body_sink s)\<rparr>"

definition content_on_body :: "char list \<Rightarrow> stack \<Rightarrow> stack" where
  "content_on_body at s =
    s\<lparr>body_sink := snd (write_callback at (of_nat (length at)) 1 (body_sink s))\<rparr>"

definition content_message_complete :: "'z zlib \<Rightarrow> stack \<Rightarrow> stack" where
  "content_message_complete zl = complete_request zl No_error"

definition get_body_data :: "nat \<Rightarrow> stack \<Rightarrow> char list \<times> stack" where
  "get_body_data n s =
    (case read_callback n (body_source s) of (out, src) \<Rightarrow> (out, s\<lparr>body_source := src\<rparr>))"

definition get_host_and_port :: "stack \<Rightarrow> char list \<times> 16 word" where
  "get_host_and_port s = stack_host s"

section \<open>Connection layer\<close>

fun http_method_to_string :: "client_method \<Rightarrow> string" where
  "http_method_to_string GET = ''GET''"
| "http_method_to_string HEAD = ''HEAD''"
| "http_method_to_string PUT = ''PUT''"
| "http_method_to_string POST = ''POST''"

text \<open>\<open>s.erase(s.find_last_not_of("\n\r\t ") + 1)\<close>\<close>

definition trim_right :: "char list \<Rightarrow> char list" where
  "trim_right v = rev (dropWhile (\<lambda>c. c = LF \<or> c = CR \<or> c = TAB \<or> c = CHR '' '') (rev v))"

definition push_current_header :: "request_buffers \<Rightarrow> request_buffers" where
  "push_current_header b =
    b\<lparr>recv_headers := recv_headers b @ [(fst (current_header b), trim_right (snd (current_header b)))],
      current_header := ([], [])\<rparr>"

definition print_request_headers :: "request_buffers \<Rightarrow> char list" where
  "print_request_headers b =
    http_method_to_string (req_method b) @ '' '' @ path (req_url b) @ '' HTTP/1.1'' @ [CR, LF] @
    concat (map (\<lambda>(n, v). n @ '': '' @ v @ [CR, LF]) (request_headers b)) @ [CR, LF]"

definition send_headers :: "stack \<Rightarrow> stack" where
  "send_headers s = socket_write (print_request_headers (current_request s)) s"

definition write_headers :: "client_method \<Rightarrow> url \<Rightarrow> headers \<Rightarrow> stack \<Rightarrow> stack" where
  "write_headers m u hs s =
    (let s = s\<lparr>current_request := \<lparr>req_method = m, request_headers = hs, recv_headers = [], req_url = u,
                 current_header = ([], []), m_state = state_in_progress\<rparr>\<rparr>
     in if socket_open s then send_headers s
        else socket_connect (host u) (decimal (unat (port u))) s)"

definition on_connected :: "'z zlib \<Rightarrow> error_code \<Rightarrow> stack \<Rightarrow> stack" where
  "on_connected zl ec s = (if \<not> is_error ec then send_headers s else on_error zl ec s)"

definition on_write :: "'z zlib \<Rightarrow> error_code \<Rightarrow> stack \<Rightarrow> stack" where
  "on_write zl ec s =
    (let s = (if is_error ec then on_error zl ec s else s) in
     case get_body_data 1024 s of (buf, s) \<Rightarrow>
       if buf = [] then socket_read s else socket_write buf s)"

text \<open>The callbacks of the parser; the application's memory they change is the stack.\<close>

definition upd_request :: "(request_buffers \<Rightarrow> request_buffers) \<Rightarrow> stack \<Rightarrow> stack" where
  "upd_request f s = s\<lparr>current_request := f (current_request s)\<rparr>"

definition cb_on_body :: "stack http_data_cb" where
  "cb_on_body pr at s = (0, pr, content_on_body at s)"

definition cb_on_message_complete :: "'z zlib \<Rightarrow> stack http_cb" where
  "cb_on_message_complete zl pr s =
    (0, pr, content_message_complete zl
       (upd_request (\<lambda>b. b\<lparr>m_state := state_done\<rparr>)
         (if \<not> http_should_keep_alive pr then s\<lparr>m_not_reusable := True\<rparr> else s)))"

definition cb_on_headers_complete :: "stack http_cb" where
  "cb_on_headers_complete pr s =
    (let s = (if fst (current_header (current_request s)) \<noteq> [] then upd_request push_current_header s else s);
         s = on_headers (unat (status_code pr)) (recv_headers (current_request s)) s
     in (if req_method (current_request s) = HEAD then 1 else 0, pr, s))"

definition cb_on_status :: "stack http_data_cb" where
  "cb_on_status pr at s = (0, pr, s)"

definition append_field :: "char list \<Rightarrow> request_buffers \<Rightarrow> request_buffers" where
  "append_field at b = b\<lparr>current_header := (fst (current_header b) @ at, snd (current_header b))\<rparr>"

definition append_value :: "char list \<Rightarrow> request_buffers \<Rightarrow> request_buffers" where
  "append_value at b = b\<lparr>current_header := (fst (current_header b), snd (current_header b) @ at)\<rparr>"

definition cb_on_header_field :: "stack http_data_cb" where
  "cb_on_header_field pr at s =
    (0, pr, upd_request (append_field at)
       (if snd (current_header (current_request s)) \<noteq> [] then upd_request push_current_header s else s))"

definition cb_on_header_value :: "stack http_data_cb" where
  "cb_on_header_value pr at s =
    (let s = upd_request (append_value at) s in
     (0, pr, if snd (current_header (current_request s)) = [] then upd_request push_current_header s else s))"

definition client_callbacks :: "'z zlib \<Rightarrow> stack http_parser_settings" where
  "client_callbacks zl = http_parser_settings_init
    \<lparr>on_body := Some cb_on_body, on_message_complete := Some (cb_on_message_complete zl),
     on_status := Some cb_on_status, on_header_field := Some cb_on_header_field,
     on_header_value := Some cb_on_header_value, on_headers_complete := Some cb_on_headers_complete\<rparr>"

text \<open>
  \<open>on_read\<close>, on the parser \<open>m_parser\<close> and the stack.  \<open>nsize\<close> is set only when the parser was run; the
  code looks at it in other cases too, but then \<open>size != 0\<close> decides.  \<open>None\<close>: the call of the parser
  does not return or fails an assertion.
\<close>

definition on_read ::
  "'z zlib \<Rightarrow> char list \<Rightarrow> error_code \<Rightarrow> http_parser \<times> stack \<Rightarrow> (http_parser \<times> stack) option" where
  "on_read zl bytes ec c =
    (let pr = fst c; s = (if is_error ec then (snd c)\<lparr>m_not_reusable := True\<rparr> else snd c);
         finish = (\<lambda>(nsize, pr, s).
           if m_state (current_request s) \<noteq> state_done then
             (pr, if bytes \<noteq> [] \<and> nsize \<noteq> length bytes then on_error zl (Parser_code (http_errno pr)) s
                  else if \<not> is_error ec then socket_read s
                  else on_error zl ec s)
           else (pr, s))
     in if bytes \<noteq> [] \<and> m_state (current_request s) \<noteq> state_done then
          (case http_parser_execute (client_callbacks zl) bytes pr s of
             Some (Returned n pr' s') \<Rightarrow> Some (finish (n, pr', s'))
           | _ \<Rightarrow> None)
        else Some (finish (0, pr, s)))"

section \<open>Starting and cancelling\<close>

text \<open>\<open>http_content::start\<close>; \<open>None\<close> when the compression of the body does not return.\<close>

definition content_headers :: "http_request \<Rightarrow> data_source \<Rightarrow> headers" where
  "content_headers req src = m_http_headers req @ [(''Host'', host (m_url req))] @
    (if get_size src \<noteq> 0 then [(''Content-Length'', decimal (get_size src))] else [])"

definition content_start :: "'z zlib \<Rightarrow> http_request \<Rightarrow> stack \<Rightarrow> stack option" where
  "content_start zl req s =
    (case data_source_init zl (m_post_data req) (m_compression_policy req) of
       None \<Rightarrow> None
     | Some src \<Rightarrow>
         let s = s\<lparr>the_request := Some req, body_source := src, body_sink := data_sink_init,
                   has_callback := True\<rparr>;
             s = emit (Timer_wait (m_timeout_msec req)) s
         in Some (write_headers (m_http_method req) (m_url req) (content_headers req src) s))"

definition content_cancel :: "'z zlib \<Rightarrow> stack \<Rightarrow> stack option" where
  "content_cancel zl s = returned (socket_close (complete_request zl operation_aborted s))"

definition timer_handler :: "'z zlib \<Rightarrow> error_code \<Rightarrow> stack \<Rightarrow> stack option" where
  "timer_handler zl ec s = returned (if \<not> is_error ec then complete_request zl timed_out s else s)"

section \<open>Handlers of the sockets\<close>

text \<open>
  The iterator of the endpoints still to be tried is the list \<open>endpoints\<close>; taking the first of an
  empty list is the read past the end that the code would do if the resolver gave no endpoint.
  An attempt to connect opens the socket.
\<close>

definition next_endpoint :: "stack \<Rightarrow> stack option" where
  "next_endpoint s =
    (case endpoints s of
       [] \<Rightarrow> None
     | ep # eps \<Rightarrow> Some (emit (Async_connect ep) (s\<lparr>endpoints := eps, socket_open := True\<rparr>)))"

definition resolve_handler ::
  "'z zlib \<Rightarrow> error_code \<Rightarrow> nat list \<Rightarrow> stack \<Rightarrow> stack option" where
  "resolve_handler zl ec eps s =
    (if is_error ec then returned (on_connected zl ec s) else next_endpoint (s\<lparr>endpoints := eps\<rparr>))"

definition tcp_connect_handler :: "'z zlib \<Rightarrow> error_code \<Rightarrow> stack \<Rightarrow> stack option" where
  "tcp_connect_handler zl ec s =
    (if \<not> is_error ec \<or> endpoints s = [] then returned (on_connected zl ec s) else next_endpoint s)"

definition ssl_connect_handler :: "'z zlib \<Rightarrow> error_code \<Rightarrow> stack \<Rightarrow> stack option" where
  "ssl_connect_handler zl ec s =
    (if \<not> is_error ec then Some (emit Async_handshake s)
     else if endpoints s \<noteq> [] then next_endpoint s
     else returned (on_connected zl ec s))"

definition connect_handler :: "'z zlib \<Rightarrow> error_code \<Rightarrow> stack \<Rightarrow> stack option" where
  "connect_handler zl ec s =
    (if socket_ssl s then ssl_connect_handler zl ec s else tcp_connect_handler zl ec s)"

lemmas connect_handler_defs = connect_handler_def ssl_connect_handler_def tcp_connect_handler_def

definition handshake_handler :: "'z zlib \<Rightarrow> error_code \<Rightarrow> stack \<Rightarrow> stack option" where
  "handshake_handler zl ec s = returned (on_connected zl ec s)"

definition write_handler :: "'z zlib \<Rightarrow> error_code \<Rightarrow> stack \<Rightarrow> stack option" where
  "write_handler zl ec s = returned (on_write zl ec s)"

definition read_handler ::
  "'z zlib \<Rightarrow> error_code \<Rightarrow> char list \<Rightarrow> http_parser \<times> stack \<Rightarrow> (http_parser \<times> stack) option" where
  "read_handler zl ec bytes c =
    (case on_read zl bytes ec c of None \<Rightarrow> None | Some (pr, s) \<Rightarrow> map_option (Pair pr) (returned s))"

end
