(* ===== verification/Parser_Simulation.thy ===== *)
theory Parser_Simulation
  imports Parser_Execute
begin

text \<open>
  What the parser does depends on its application only through the results of the callbacks.  For
  two applications whose callbacks, on related memories, return the same result, leave the same
  parser and keep the memories related, every call of \<open>http_parser_execute\<close> reports the same and
  keeps them related too.  With equal applications and a relation inside the equality this is: an
  invariant of every callback is an invariant of the call.
\<close>

section \<open>Related applications\<close>

text \<open>
  A missing callback does what one does that returns 0 and touches nothing, except that the state of
  the parser is not stored before it.  The relations therefore ignore \<open>state\<close>, which the code reads on
  entry only, and callbacks that are given the parser without its state stored
  (\<open>on_headers_complete\<close>) must not look at it.  A data callback that is there checks the bytes it hands
  over, so the first application has one wherever the second has; and nothing is said of a second
  run when the first fails an assertion.
\<close>

definition run_cb :: "'w http_cb option \<Rightarrow> 'w http_cb" where
  "run_cb cb = (case cb of None \<Rightarrow> \<lambda>pr w. (0, pr, w) | Some f \<Rightarrow> f)"

definition run_data_cb :: "'w http_data_cb option \<Rightarrow> 'w http_data_cb" where
  "run_data_cb cb = (case cb of None \<Rightarrow> \<lambda>pr bytes w. (0, pr, w) | Some f \<Rightarrow> f)"

definition cb_rel :: "('w \<Rightarrow> 'v \<Rightarrow> bool) \<Rightarrow> 'w http_cb option \<Rightarrow> 'v http_cb option \<Rightarrow> bool" where
  "cb_rel R cb cb' \<longleftrightarrow> (\<forall>pr w v. R w v \<longrightarrow>
     (\<exists>r pr' w' v'. run_cb cb pr w = (r, pr', w') \<and> run_cb cb' pr v = (r, pr', v') \<and> R w' v'))"

definition data_cb_rel :: "('w \<Rightarrow> 'v \<Rightarrow> bool) \<Rightarrow> 'w http_data_cb option \<Rightarrow> 'v http_data_cb option \<Rightarrow> bool" where
  "data_cb_rel R cb cb' \<longleftrightarrow> (cb = None \<longrightarrow> cb' = None) \<and> (\<forall>pr bytes w v. R w v \<longrightarrow>
     (\<exists>r pr' w' v'. run_data_cb cb pr bytes w = (r, pr', w') \<and> run_data_cb cb' pr bytes v = (r, pr', v') \<and>
       R w' v'))"

definition stateless_cb_rel :: "('w \<Rightarrow> 'v \<Rightarrow> bool) \<Rightarrow> 'w http_cb option \<Rightarrow> 'v http_cb option \<Rightarrow> bool" where
  "stateless_cb_rel R cb cb' \<longleftrightarrow> (\<forall>pr x w v. R w v \<longrightarrow>
     (\<exists>r pr' w' v'. run_cb cb pr w = (r, pr', w') \<and> run_cb cb' (pr\<lparr>state := x\<rparr>) v = (r, pr'\<lparr>state := x\<rparr>, v') \<and>
       R w' v'))"

definition same :: "('w \<Rightarrow> 'v \<Rightarrow> bool) \<Rightarrow> 'w locals \<Rightarrow> 'v locals \<Rightarrow> bool" where
  "same R l m \<longleftrightarrow> R (app l) (app m) \<and> (\<exists>x. parser m = (parser l)\<lparr>state := x\<rparr>) \<and> cur_ch m = cur_ch l \<and>
    cur_p m = cur_p l \<and> p_state m = p_state l \<and> header_field_mark m = header_field_mark l \<and>
    header_value_mark m = header_value_mark l \<and> url_mark m = url_mark l \<and> body_mark m = body_mark l \<and>
    status_mark m = status_mark l \<and> lenient m = lenient l"

definition flow_rel :: "('w \<Rightarrow> 'v \<Rightarrow> bool) \<Rightarrow> 'w flow \<Rightarrow> 'v flow \<Rightarrow> bool" where
  "flow_rel R x y \<longleftrightarrow>
    (case (x, y) of
       (Break l, Break m) \<Rightarrow> same R l m
     | (Reexecute l, Reexecute m) \<Rightarrow> same R l m
     | (Goto_error l, Goto_error m) \<Rightarrow> same R l m
     | (Return n l, Return k m) \<Rightarrow> n = k \<and> same R l m \<and> parser m = parser l
     | (Abort, _) \<Rightarrow> True
     | _ \<Rightarrow> False)"

lemma flow_rel_simps [simp]:
  "flow_rel R (Break l) (Break m) = same R l m"
  "flow_rel R (Reexecute l) (Reexecute m) = same R l m"
  "flow_rel R (Goto_error l) (Goto_error m) = same R l m"
  "flow_rel R (Return n l) (Return k m) \<longleftrightarrow> n = k \<and> same R l m \<and> parser m = parser l"
  "flow_rel R Abort y"
  by (simp_all add: flow_rel_def)

lemma flow_relD:
  "flow_rel R (Break l) y \<Longrightarrow> \<exists>m. y = Break m \<and> same R l m"
  "flow_rel R (Reexecute l) y \<Longrightarrow> \<exists>m. y = Reexecute m \<and> same R l m"
  "flow_rel R (Goto_error l) y \<Longrightarrow> \<exists>m. y = Goto_error m \<and> same R l m"
  "flow_rel R (Return n l) y \<Longrightarrow> \<exists>m. y = Return n m \<and> same R l m \<and> parser m = parser l"
  by (cases y; simp add: flow_rel_def)+

lemma flow_rel_if:
  "(c \<Longrightarrow> flow_rel R x x') \<Longrightarrow> (\<not> c \<Longrightarrow> flow_rel R y y') \<Longrightarrow>
    flow_rel R (if c then x else y) (if c then x' else y')"
  by simp

lemma sameD:
  assumes "same R l m"
  shows "R (app l) (app m)" "cur_ch m = cur_ch l" "cur_p m = cur_p l"
    "p_state m = p_state l" "header_field_mark m = header_field_mark l"
    "header_value_mark m = header_value_mark l" "url_mark m = url_mark l" "body_mark m = body_mark l"
    "status_mark m = status_mark l" "lenient m = lenient l"
  using assms by (simp_all add: same_def)

lemma sameE:
  assumes "same R l m"
  obtains x where "parser m = (parser l)\<lparr>state := x\<rparr>"
  using assms by (auto simp: same_def)

lemma same_upd [simp]:
  assumes "same R l m"
  shows "a'\<lparr>state := s_dead\<rparr> = a\<lparr>state := s_dead\<rparr> \<Longrightarrow> same R (l\<lparr>parser := a\<rparr>) (m\<lparr>parser := a'\<rparr>)"
    "same R (l\<lparr>cur_ch := b\<rparr>) (m\<lparr>cur_ch := b\<rparr>)"
    "same R (l\<lparr>cur_p := c\<rparr>) (m\<lparr>cur_p := c\<rparr>)" "same R (l\<lparr>p_state := d\<rparr>) (m\<lparr>p_state := d\<rparr>)"
    "same R (l\<lparr>header_field_mark := e\<rparr>) (m\<lparr>header_field_mark := e\<rparr>)"
    "same R (l\<lparr>header_value_mark := e\<rparr>) (m\<lparr>header_value_mark := e\<rparr>)"
    "same R (l\<lparr>url_mark := e\<rparr>) (m\<lparr>url_mark := e\<rparr>)" "same R (l\<lparr>body_mark := e\<rparr>) (m\<lparr>body_mark := e\<rparr>)"
    "same R (l\<lparr>status_mark := e\<rparr>) (m\<lparr>status_mark := e\<rparr>)"
    "R w v \<Longrightarrow> same R (l\<lparr>app := w\<rparr>) (m\<lparr>app := v\<rparr>)"
proof -
  show "same R (l\<lparr>parser := a\<rparr>) (m\<lparr>parser := a'\<rparr>)" if "a'\<lparr>state := s_dead\<rparr> = a\<lparr>state := s_dead\<rparr>"
  proof -
    have "a' = a\<lparr>state := state a'\<rparr>"
      using arg_cong [OF that, of "\<lambda>pr. pr\<lparr>state := state a'\<rparr>"] by simp
    then show ?thesis
      using assms by (auto simp: same_def)
  qed
qed (use assms in \<open>simp_all add: same_def\<close>)

text \<open>Functions of the parser that do not read its state.\<close>

lemma framing_state [simp]:
  "http_message_needs_eof (pr\<lparr>state := x\<rparr>) = http_message_needs_eof pr"
  "http_should_keep_alive (pr\<lparr>state := x\<rparr>) = http_should_keep_alive pr"
  "NEW_MESSAGE (pr\<lparr>state := x\<rparr>) = NEW_MESSAGE pr"
  "finish_header (pr\<lparr>state := x\<rparr>) = (finish_header pr)\<lparr>state := x\<rparr>"
  by (simp_all add: http_message_needs_eof_def http_should_keep_alive_def NEW_MESSAGE_def start_state_def
      finish_header_def split: header_states.split)

lemma state_sel:
  "flags (pr\<lparr>state := x\<rparr>) = flags pr" "content_length (pr\<lparr>state := x\<rparr>) = content_length pr"
  "upgrade (pr\<lparr>state := x\<rparr>) = upgrade pr" "parser_method (pr\<lparr>state := x\<rparr>) = parser_method pr"
  "header_state (pr\<lparr>state := x\<rparr>) = header_state pr" "http_errno (pr\<lparr>state := x\<rparr>) = http_errno pr"
  by simp_all

lemma field_loop_state:
  "header_field_loop (pr\<lparr>state := x\<rparr>) ch xs n =
    map_option (\<lambda>(pr, ch, k). (pr\<lparr>state := x\<rparr>, ch, k)) (header_field_loop pr ch xs n)"
proof (induction xs arbitrary: pr ch n)
  case (Cons c xs)
  have "header_field_char (pr\<lparr>state := x\<rparr>) c (TOKEN c) =
      map_option (\<lambda>pr. pr\<lparr>state := x\<rparr>) (header_field_char pr c (TOKEN c))"
    by (cases "header_state pr") (simp_all add: header_field_char_def Let_def)
  then show ?case
    using Cons.IH by (simp split: option.split)
qed simp

lemma value_char_state:
  "header_value_char (pr\<lparr>state := x\<rparr>) h c =
    (case header_value_char pr h c of
       Next_byte pr' h' \<Rightarrow> Next_byte (pr'\<lparr>state := x\<rparr>) h' | Value_error e \<Rightarrow> Value_error e
     | Value_assert \<Rightarrow> Value_assert)"
  by (cases h) (simp_all add: header_value_char_def decimal_step_def Let_def)

lemma value_loop_state:
  "header_value_loop lnt (pr\<lparr>state := x\<rparr>) h ch xs n =
    (case header_value_loop lnt pr h ch xs n of (stop, pr', rest) \<Rightarrow> (stop, pr'\<lparr>state := x\<rparr>, rest))"
proof (induction lnt pr h ch xs n rule: header_value_loop.induct)
  case (2 lnt pr h ch c xs n)
  then show ?case
    by (auto simp: value_char_state split: value_step.split)
qed simp

lemma stored_like:
  assumes "same R l m"
  shows "(parser m)\<lparr>state := p_state m\<rparr> = (parser l)\<lparr>state := p_state l\<rparr>"
    "http_errno (parser m) = http_errno (parser l)"
  using assms by (auto simp: same_def)

lemma after_rel:
  assumes "same R l m"
  shows "R w v \<Longrightarrow> same R (after_callback e (r, pr, w) l) (after_callback e (r, pr, v) m)"
    "R (app l) v \<Longrightarrow> same R l (after_callback e (0, (parser l)\<lparr>state := p_state l\<rparr>, v) m)"
    "R w (app m) \<Longrightarrow> same R (after_callback e (0, (parser l)\<lparr>state := p_state l\<rparr>, w) l) m"
    "http_errno (parser (after_callback e (0, (parser l)\<lparr>state := p_state l\<rparr>, w) n)) = http_errno (parser l)"
    "parser (after_callback e (r, pr, v) m) = parser (after_callback e (r, pr, w) l)"
proof -
  have refl: "\<exists>x. pr = pr\<lparr>state := x\<rparr>" for pr :: http_parser
    by (rule exI [of _ "state pr"]) simp
  show "same R (after_callback e (r, pr, w) l) (after_callback e (r, pr, v) m)" if "R w v"
    using assms that refl by (simp add: after_callback_def same_def Let_def)
qed (use assms in \<open>auto simp: after_callback_def same_def Let_def\<close>)

lemma notify_rel:
  assumes "same R l m" "cb_rel R cb cb'"
    and k: "\<And>l' m'. same R l' m' \<Longrightarrow> flow_rel R (k l') (k' m')"
  shows "flow_rel R (callback_notify cb e er l k) (callback_notify cb' e er m k')"
proof -
  obtain r pr' w' v' where run: "run_cb cb ((parser l)\<lparr>state := p_state l\<rparr>) (app l) = (r, pr', w')"
      "run_cb cb' ((parser l)\<lparr>state := p_state l\<rparr>) (app m) = (r, pr', v')" "R w' v'"
    using assms(2) sameD(1) [OF assms(1)] unfolding cb_rel_def by blast
  note after = after_rel [OF assms(1)]
  show ?thesis
    using run assms(1) k after(1) [OF run(3)] after(5) [of e r pr' v' w'] after(2-4)
    by (cases cb; cases cb'; cases "http_errno (parser l) = HPE_OK")
      (simp_all add: run_cb_def callback_notify_def Let_def stored_like [OF assms(1)])
qed

lemma data_rel:
  assumes "same R l m" "data_cb_rel R cb cb'" "mark' = mark"
    and k: "\<And>l' m'. same R l' m' \<Longrightarrow> flow_rel R (k l') (k' m')"
    and clear: "\<And>l' m'. same R l' m' \<Longrightarrow> same R (clear l') (clear' m')"
  shows "flow_rel R (callback_data mark clear cb e buf q er l k) (callback_data mark' clear' cb' e buf q er m k')"
proof (cases mark)
  case None
  then show ?thesis
    using assms(1,3) k stored_like [OF assms(1)] by (simp add: callback_data_def)
next
  case (Some b)
  obtain r pr' w' v' where run: "run_data_cb cb ((parser l)\<lparr>state := p_state l\<rparr>) (subbuf buf b q) (app l) = (r, pr', w')"
      "run_data_cb cb' ((parser l)\<lparr>state := p_state l\<rparr>) (subbuf buf b q) (app m) = (r, pr', v')" "R w' v'"
    using assms(2) sameD(1) [OF assms(1)] unfolding data_cb_rel_def by blast
  have none: "cb = None \<Longrightarrow> cb' = None"
    using assms(2) by (simp add: data_cb_rel_def)
  note after = after_rel [OF assms(1)]
  show ?thesis
    using run assms(1,3) none Some k clear after(1) [OF run(3)] after(5) [of e r pr' v' w'] after(2-4)
    by (cases cb; cases cb'; cases "http_errno (parser l) = HPE_OK"; cases "b \<le> q"; cases "q \<le> length buf")
      (simp_all add: run_data_cb_def callback_data_def Let_def stored_like [OF assms(1)])
qed

lemma count_rel:
  assumes "same R l m" and "\<And>l' m'. same R l' m' \<Longrightarrow> flow_rel R (k l') (k' m')"
  shows "flow_rel R (count_header_size v l k) (count_header_size v m k')"
proof -
  obtain x where "parser m = (parser l)\<lparr>state := x\<rparr>"
    by (rule sameE [OF assms(1)])
  then show ?thesis
    using assms by (simp add: count_header_size_def goto_error_def set_errno_def upd_parser_def Let_def)
qed

text \<open>The two applications of a call.\<close>

locale similar_clients =
  fixes st :: "'w http_parser_settings" and st' :: "'v http_parser_settings" and R :: "'w \<Rightarrow> 'v \<Rightarrow> bool"
  assumes message_begin: "cb_rel R (on_message_begin st) (on_message_begin st')"
    and url: "data_cb_rel R (on_url st) (on_url st')"
    and status: "data_cb_rel R (on_status st) (on_status st')"
    and header_field: "data_cb_rel R (on_header_field st) (on_header_field st')"
    and header_value: "data_cb_rel R (on_header_value st) (on_header_value st')"
    and headers_complete: "stateless_cb_rel R (on_headers_complete st) (on_headers_complete st')"
    and body: "data_cb_rel R (on_body st) (on_body st')"
    and message_complete: "cb_rel R (on_message_complete st) (on_message_complete st')"
    and chunk_header: "cb_rel R (on_chunk_header st) (on_chunk_header st')"
    and chunk_complete: "cb_rel R (on_chunk_complete st) (on_chunk_complete st')"


lemma same_steps [simp]:
  assumes "same R l m"
  shows "same R (update_state s l) (update_state s m)" "(\<And>pr x. (f (pr\<lparr>state := x\<rparr>))\<lparr>state := s_dead\<rparr> = (f pr)\<lparr>state := s_dead\<rparr>) \<Longrightarrow>
      same R (upd_parser f l) (upd_parser f m)"
    "same R (set_errno e l) (set_errno e m)" "same R (mark_header_field l) (mark_header_field m)"
    "same R (mark_header_value l) (mark_header_value m)" "same R (mark_url l) (mark_url m)"
    "same R (mark_body l) (mark_body m)" "same R (mark_status l) (mark_status m)"
    "same R (reset_message l) (reset_message m)" "same R (take_body buf l) (take_body buf m)"
proof -
  obtain x where x: "parser m = (parser l)\<lparr>state := x\<rparr>"
    by (rule sameE [OF assms])
  show "same R (update_state s l) (update_state s m)" "same R (set_errno e l) (set_errno e m)"
    "same R (mark_header_field l) (mark_header_field m)" "same R (mark_header_value l) (mark_header_value m)"
    "same R (mark_url l) (mark_url m)" "same R (mark_body l) (mark_body m)"
    "same R (mark_status l) (mark_status m)" "same R (reset_message l) (reset_message m)"
    "same R (take_body buf l) (take_body buf m)"
    using assms by (simp_all add: macro_defs to_read_def Let_def x sameD(2-) [OF assms])
  show "same R (upd_parser f l) (upd_parser f m)"
    if "\<And>pr x. (f (pr\<lparr>state := x\<rparr>))\<lparr>state := s_dead\<rparr> = (f pr)\<lparr>state := s_dead\<rparr>"
    using assms that by (simp add: upd_parser_def x)
qed

lemma pure_rel:
  assumes "same R l m"
  shows "flow_rel R (case_dead l) (case_dead m)"
    "flow_rel R (case_res_or_resp_H l) (case_res_or_resp_H m)"
    "flow_rel R (case_res_H l) (case_res_H m)" "flow_rel R (case_res_HT l) (case_res_HT m)"
    "flow_rel R (case_res_HTT l) (case_res_HTT m)" "flow_rel R (case_res_HTTP l) (case_res_HTTP m)"
    "flow_rel R (case_res_http_major l) (case_res_http_major m)"
    "flow_rel R (case_res_http_dot l) (case_res_http_dot m)"
    "flow_rel R (case_res_http_minor l) (case_res_http_minor m)"
    "flow_rel R (case_res_http_end l) (case_res_http_end m)"
    "flow_rel R (case_res_first_status_code l) (case_res_first_status_code m)"
    "flow_rel R (case_res_status_code l) (case_res_status_code m)"
    "flow_rel R (case_res_status_start l) (case_res_status_start m)"
    "flow_rel R (case_res_line_almost_done l) (case_res_line_almost_done m)"
    "flow_rel R (case_req_method l) (case_req_method m)"
    "flow_rel R (case_req_spaces_before_url l) (case_req_spaces_before_url m)"
    "flow_rel R (case_req_schema l) (case_req_schema m)"
    "flow_rel R (case_req_http_start l) (case_req_http_start m)"
    "flow_rel R (case_req_http_H l) (case_req_http_H m)" "flow_rel R (case_req_http_HT l) (case_req_http_HT m)"
    "flow_rel R (case_req_http_HTT l) (case_req_http_HTT m)"
    "flow_rel R (case_req_http_HTTP l) (case_req_http_HTTP m)"
    "flow_rel R (case_req_http_major l) (case_req_http_major m)"
    "flow_rel R (case_req_http_dot l) (case_req_http_dot m)"
    "flow_rel R (case_req_http_minor l) (case_req_http_minor m)"
    "flow_rel R (case_req_http_end l) (case_req_http_end m)"
    "flow_rel R (case_req_line_almost_done l) (case_req_line_almost_done m)"
    "flow_rel R (case_header_field_start l) (case_header_field_start m)"
    "flow_rel R (case_header_value_discard_ws_almost_done l) (case_header_value_discard_ws_almost_done m)"
    "flow_rel R (case_header_value_lws l) (case_header_value_lws m)"
    "flow_rel R (case_header_almost_done l) (case_header_almost_done m)"
    "flow_rel R (case_chunk_size_start l) (case_chunk_size_start m)"
    "flow_rel R (case_chunk_size l) (case_chunk_size m)"
    "flow_rel R (case_chunk_parameters l) (case_chunk_parameters m)"
    "flow_rel R (case_chunk_data buf l) (case_chunk_data buf m)"
    "flow_rel R (case_body_identity_eof buf l) (case_body_identity_eof buf m)"
  by (rule sameE [OF assms],
      simp add: assms sameD(2-) [OF assms] case_defs macro_defs Let_def to_read_def split: option.split)+

lemma value_start_rel:
  assumes "same R l m"
  shows "flow_rel R (case_header_value_start l) (case_header_value_start m)"
    "flow_rel R (case_header_value_discard_ws l) (case_header_value_discard_ws m)"
proof -
  obtain x where x: "parser m = (parser l)\<lparr>state := x\<rparr>"
    by (rule sameE [OF assms])
  show "flow_rel R (case_header_value_start l) (case_header_value_start m)"
    by (cases "header_state (parser l)")
      (simp_all add: assms x sameD(2-) [OF assms] case_header_value_start_def macro_defs Let_def)
  then show "flow_rel R (case_header_value_discard_ws l) (case_header_value_discard_ws m)"
    by (simp add: assms sameD(2-) [OF assms] case_header_value_discard_ws_def)
qed

lemma error_rel:
  assumes "same R l m"
  shows "flow_rel R (goto_error e l) (goto_error e m)" "flow_rel R (do_return n l) (do_return n m)"
    "flow_rel R (exec_error l) (exec_error m)" "flow_rel R (exec_fetch buf l) (exec_fetch buf m)"
    "flow_rel R (url_step l) (url_step m)"
  by (rule sameE [OF assms],
      simp add: assms sameD(2-) [OF assms] macro_defs exec_error_def exec_fetch_def url_step_def Let_def)+

lemma strict_rel:
  assumes "same R l m" and "\<And>l' m'. same R l' m' \<Longrightarrow> flow_rel R (k l') (k' m')"
  shows "flow_rel R (strict_check c l k) (strict_check c m k')"
  using assms by (simp add: strict_check_def error_rel)

lemma headers_complete_run:
  "call_headers_complete st l =
    (case run_cb (on_headers_complete st) (parser l) (app l) of
       (r, pr, w) \<Rightarrow>
         let l' = l\<lparr>parser := pr, app := w\<rparr>;
             finish = (\<lambda>l. if http_errno (parser l) \<noteq> HPE_OK then do_return (cur_p l) l else Reexecute l);
             skip_body = upd_parser (\<lambda>pr. pr\<lparr>flags := flags pr OR F_SKIPBODY\<rparr>)
         in if r = 0 then finish l'
            else if r = 2 then finish (skip_body (upd_parser (\<lambda>pr. pr\<lparr>upgrade := True\<rparr>) l'))
            else if r = 1 then finish (skip_body l')
            else do_return (cur_p l') (set_errno HPE_CB_headers_complete l'))"
  by (cases "on_headers_complete st") (simp_all add: call_headers_complete_def run_cb_def Let_def split: prod.split)

lemma headers_complete_rel:
  assumes "same R l m" "stateless_cb_rel R (on_headers_complete st) (on_headers_complete st')"
  shows "flow_rel R (call_headers_complete st l) (call_headers_complete st' m)"
proof -
  obtain x where x: "parser m = (parser l)\<lparr>state := x\<rparr>"
    by (rule sameE [OF assms(1)])
  obtain r pr' w' v' where run: "run_cb (on_headers_complete st) (parser l) (app l) = (r, pr', w')"
      "run_cb (on_headers_complete st') ((parser l)\<lparr>state := x\<rparr>) (app m) = (r, pr'\<lparr>state := x\<rparr>, v')"
      "R w' v'"
    using assms(2) sameD(1) [OF assms(1)] unfolding stateless_cb_rel_def by blast
  show ?thesis
    using assms(1) run(3)
    by (simp add: headers_complete_run x run(1,2) Let_def macro_defs sameD(2-) [OF assms(1)])
qed

context similar_clients
begin

lemma field_rel:
  assumes "same R l m" and "\<And>l' m'. same R l' m' \<Longrightarrow> flow_rel R (k l') (k' m')"
  shows "flow_rel R (callback_header_field st buf q er l k) (callback_header_field st' buf q er m k')"
    "flow_rel R (callback_header_value st buf q er l k) (callback_header_value st' buf q er m k')"
    "flow_rel R (callback_url st buf q er l k) (callback_url st' buf q er m k')"
    "flow_rel R (callback_body st buf q er l k) (callback_body st' buf q er m k')"
    "flow_rel R (callback_status st buf q er l k) (callback_status st' buf q er m k')"
  unfolding callback_header_field_def callback_header_value_def callback_url_def callback_body_def
    callback_status_def
  using assms header_field header_value url body status sameD(5-9) [OF assms(1)]
  by (auto intro!: data_rel)

lemma complete_rel:
  assumes "same R l m" and "\<And>l' m'. same R l' m' \<Longrightarrow> flow_rel R (k l') (k' m')"
  shows "flow_rel R (message_complete st l k) (message_complete st' m k')"
proof -
  obtain x where x: "parser m = (parser l)\<lparr>state := x\<rparr>"
    by (rule sameE [OF assms(1)])
  then show ?thesis
    using assms message_complete
    by (simp add: message_complete_def sameD(2-) [OF assms(1)] notify_rel)
qed

lemma steps_sel [simp]:
  "cur_ch (update_state s l) = cur_ch l" "cur_p (update_state s l) = cur_p l"
  "cur_ch (upd_parser f l) = cur_ch l" "cur_p (upd_parser f l) = cur_p l"
  "cur_ch (reset_message l) = cur_ch l" "cur_p (reset_message l) = cur_p l"
  by (simp_all add: macro_defs)

lemma start_rel:
  assumes "same R l m"
  shows "flow_rel R (case_start_req_or_res st l) (case_start_req_or_res st' m)"
    "flow_rel R (case_start_res st l) (case_start_res st' m)"
    "flow_rel R (case_start_req st l) (case_start_req st' m)"
proof -
  have same: "same R (reset_message l) (reset_message m)"
    using assms by simp
  show "flow_rel R (case_start_req_or_res st l) (case_start_req_or_res st' m)"
    "flow_rel R (case_start_res st l) (case_start_res st' m)"
    "flow_rel R (case_start_req st l) (case_start_req st' m)"
    using same assms message_begin
    by (auto simp: case_start_req_or_res_def case_start_res_def case_start_req_def Let_def
        sameD(2-) [OF assms] sameD(2-) [OF same] split: option.split
        intro!: flow_rel_if notify_rel error_rel same_steps)
qed

lemma line_rel:
  assumes "same R l m"
  shows "flow_rel R (case_res_status st buf l) (case_res_status st' buf m)"
    "flow_rel R (case_req_url st buf l) (case_req_url st' buf m)"
    "flow_rel R (case_header_value_discard_lws st buf l) (case_header_value_discard_lws st' buf m)"
  unfolding case_res_status_def case_req_url_def case_header_value_discard_lws_def sameD(2-) [OF assms]
  using assms by (auto intro!: flow_rel_if field_rel error_rel same_steps)

lemma field_end_rel:
  assumes "same R l m"
  shows "flow_rel R
    (if cur_p l = length buf then Break (l\<lparr>cur_p := cur_p l - 1\<rparr>)
     else if cur_ch l = CHR '':'' then
       callback_header_field st buf (cur_p l) (cur_p l + 1) (update_state s_header_value_discard_ws l) Break
     else goto_error HPE_INVALID_HEADER_TOKEN l)
    (if cur_p m = length buf then Break (m\<lparr>cur_p := cur_p m - 1\<rparr>)
     else if cur_ch m = CHR '':'' then
       callback_header_field st' buf (cur_p m) (cur_p m + 1) (update_state s_header_value_discard_ws m) Break
     else goto_error HPE_INVALID_HEADER_TOKEN m)"
  using assms by (simp add: sameD(2-) [OF assms] field_rel error_rel)

lemma value_end_rel:
  assumes "same R l m"
  shows "flow_rel R (count_header_size n (upd_parser (\<lambda>pr. pr\<lparr>header_state := h\<rparr>) l)
      (\<lambda>l. Break (if cur_p l = length buf then l\<lparr>cur_p := cur_p l - 1\<rparr> else l)))
    (count_header_size n (upd_parser (\<lambda>pr. pr\<lparr>header_state := h\<rparr>) m)
      (\<lambda>l. Break (if cur_p l = length buf then l\<lparr>cur_p := cur_p l - 1\<rparr> else l)))"
proof (rule count_rel)
  fix l' :: "'w locals" and m' :: "'v locals"
  assume l': "same R l' m'"
  show "flow_rel R (Break (if cur_p l' = length buf then l'\<lparr>cur_p := cur_p l' - 1\<rparr> else l'))
      (Break (if cur_p m' = length buf then m'\<lparr>cur_p := cur_p m' - 1\<rparr> else m'))"
    using l' by (simp add: sameD(3) [OF l'])
qed (use assms in simp)

lemma value_LF_rel:
  assumes "same R l m"
  shows "flow_rel R (callback_header_value st buf (cur_p l) (cur_p l) (upd_parser (\<lambda>pr. pr\<lparr>header_state := h\<rparr>) l) Reexecute)
    (callback_header_value st' buf (cur_p m) (cur_p m) (upd_parser (\<lambda>pr. pr\<lparr>header_state := h\<rparr>) m) Reexecute)"
  using assms by (simp add: sameD(3) [OF assms] field_rel)

lemma header_rel:
  assumes "same R l m"
  shows "flow_rel R (case_header_field st buf l) (case_header_field st' buf m)"
    "flow_rel R (case_header_value st buf l) (case_header_value st' buf m)"
proof -
  obtain x where x: "parser m = (parser l)\<lparr>state := x\<rparr>"
    by (rule sameE [OF assms])
  show "flow_rel R (case_header_field st buf l) (case_header_field st' buf m)"
    unfolding case_header_field_def sameD(2-) [OF assms] x field_loop_state
    by (cases "header_field_loop (parser l) (cur_ch l) (drop (cur_p l) buf) 0")
      (auto simp: assms intro!: count_rel field_end_rel)
  obtain stop pr h_state ch n where res: "header_value_loop (lenient l) (parser l) (header_state (parser l))
      (cur_ch l) (drop (cur_p l) buf) 0 = (stop, pr, h_state, ch, n)"
    by (cases "header_value_loop (lenient l) (parser l) (header_state (parser l)) (cur_ch l)
      (drop (cur_p l) buf) 0") auto
  let ?l = "l\<lparr>parser := pr, cur_ch := ch, cur_p := cur_p l + n\<rparr>"
  let ?m = "m\<lparr>parser := pr\<lparr>state := x\<rparr>, cur_ch := ch, cur_p := cur_p l + n\<rparr>"
  have same: "same R ?l ?m"
    using assms by simp
  show "flow_rel R (case_header_value st buf l) (case_header_value st' buf m)"
    unfolding case_header_value_def sameD(2-) [OF assms] x state_sel value_loop_state res
    unfolding prod.case Let_def sameD(3) [OF same]
    using same
    by (cases stop; simp only: value_stop.case;
        (intro field_rel count_rel value_end_rel value_LF_rel error_rel)?; simp)
qed

lemma body_done_rel:
  assumes "same R l m"
  shows "flow_rel R (if upgrade (parser l) then do_return (cur_p l + 1) l else Break l)
      (if upgrade (parser m) then do_return (cur_p m + 1) m else Break m)"
    "flow_rel R (do_return (cur_p l + 1) l) (do_return (cur_p m + 1) m)"
proof -
  obtain x where x: "parser m = (parser l)\<lparr>state := x\<rparr>"
    by (rule sameE [OF assms])
  show "flow_rel R (if upgrade (parser l) then do_return (cur_p l + 1) l else Break l)
      (if upgrade (parser m) then do_return (cur_p m + 1) m else Break m)"
    "flow_rel R (do_return (cur_p l + 1) l) (do_return (cur_p m + 1) m)"
    using assms by (simp_all add: x sameD(2-) [OF assms] error_rel)
qed

lemma headers_end_rel:
  assumes "same R l m"
  shows "flow_rel R (case_headers_almost_done st l) (case_headers_almost_done st' m)"
    "flow_rel R (case_headers_done st l) (case_headers_done st' m)"
proof -
  obtain x where x: "parser m = (parser l)\<lparr>state := x\<rparr>"
    by (rule sameE [OF assms])
  show "flow_rel R (case_headers_almost_done st l) (case_headers_almost_done st' m)"
    using assms chunk_complete headers_complete
    by (simp add: case_headers_almost_done_def strict_check_def x sameD(2-) [OF assms] Let_def error_rel
        headers_complete_rel notify_rel)
  let ?l = "upd_parser (\<lambda>pr. pr\<lparr>nread := 0\<rparr>) l" and ?m = "upd_parser (\<lambda>pr. pr\<lparr>nread := 0\<rparr>) m"
  have same: "same R ?l ?m"
    using assms by simp
  obtain y where y: "parser ?m = (parser ?l)\<lparr>state := y\<rparr>"
    by (rule sameE [OF same])
  show "flow_rel R (case_headers_done st l) (case_headers_done st' m)"
    unfolding case_headers_done_def strict_check_def Let_def sameD(2-) [OF assms] sameD(2-) [OF same]
    unfolding y state_sel framing_state
    using assms same by (intro flow_rel_if complete_rel body_done_rel error_rel) simp_all
qed

lemma body_rel:
  assumes "same R l m"
  shows "flow_rel R (case_chunk_size_almost_done st l) (case_chunk_size_almost_done st' m)"
    "flow_rel R (case_chunk_data_almost_done st buf l) (case_chunk_data_almost_done st' buf m)"
    "flow_rel R (case_chunk_data_done st l) (case_chunk_data_done st' m)"
    "flow_rel R (case_message_done st l) (case_message_done st' m)"
    "flow_rel R (case_body_identity st buf l) (case_body_identity st' buf m)"
proof -
  obtain x where x: "parser m = (parser l)\<lparr>state := x\<rparr>"
    by (rule sameE [OF assms])
  have same: "same R (take_body buf l) (take_body buf m)"
    using assms by simp
  obtain y where y: "parser (take_body buf m) = (parser (take_body buf l))\<lparr>state := y\<rparr>"
    by (rule sameE [OF same])
  show "flow_rel R (case_body_identity st buf l) (case_body_identity st' buf m)"
    unfolding case_body_identity_def Let_def sameD(2-) [OF assms] sameD(2-) [OF same]
    using same by (simp add: x y field_rel)
  show "flow_rel R (case_message_done st l) (case_message_done st' m)"
    unfolding case_message_done_def using assms by (intro complete_rel body_done_rel)
  show "flow_rel R (case_chunk_size_almost_done st l) (case_chunk_size_almost_done st' m)"
    "flow_rel R (case_chunk_data_almost_done st buf l) (case_chunk_data_almost_done st' buf m)"
    "flow_rel R (case_chunk_data_done st l) (case_chunk_data_done st' m)"
    using assms chunk_header chunk_complete
    by (simp_all add: case_chunk_size_almost_done_def case_chunk_data_almost_done_def
        case_chunk_data_done_def strict_check_def x sameD(2-) [OF assms] Let_def error_rel notify_rel
        field_rel macro_defs)
qed

section \<open>Calls\<close>

lemma switch_rel:
  assumes "same R l m"
  shows "flow_rel R (exec_switch st buf l) (exec_switch st' buf m)"
  unfolding exec_switch_def sameD(4) [OF assms]
  using start_rel [OF assms] line_rel [OF assms] header_rel [OF assms] headers_end_rel [OF assms] body_rel [OF assms]
    pure_rel [OF assms] value_start_rel [OF assms]
  by (cases "p_state l") simp_all

lemma finish_rel:
  assumes "same R l m"
  shows "flow_rel R (exec_finish st buf l) (exec_finish st' buf m)"
proof -
  have "marks_left m = marks_left l"
    by (simp add: marks_left_def sameD(5-9) [OF assms])
  then show ?thesis
    unfolding exec_finish_def sameD(3) [OF assms] Let_def
    using assms by (auto intro!: flow_rel_if field_rel error_rel)
qed

lemma eof_rel:
  assumes "R w v"
  shows "flow_rel R (exec_eof st (init_locals pr w)) (exec_eof st' (init_locals pr v))"
proof -
  obtain r pr' w' v' where run: "run_cb (on_message_complete st) pr w = (r, pr', w')"
      "run_cb (on_message_complete st') pr v = (r, pr', v')" "R w' v'"
    using message_complete assms unfolding cb_rel_def by blast
  have same: "same R (init_locals pr w) (init_locals pr v)"
    using assms by (simp add: same_def init_locals_def) (rule exI [of _ "state pr"], simp)
  have "flow_rel R (callback_notify (on_message_complete st) e er (init_locals pr w) (Return 0))
      (callback_notify (on_message_complete st') e er (init_locals pr v) (Return 0))" for e er
    using run assms
    by (cases "on_message_complete st"; cases "on_message_complete st'")
      (auto simp: run_cb_def callback_notify_def after_callback_def init_locals_def Let_def same_def
        intro: exI [of _ "state pr"] exI [of _ "state pr'"])
  moreover have "cur_p (init_locals pr v) = cur_p (init_locals pr w)"
      "p_state (init_locals pr v) = p_state (init_locals pr w)"
      "parser (init_locals pr v) = parser (init_locals pr w)"
    by (simp_all add: init_locals_def)
  ultimately show ?thesis
    using same by (simp add: exec_eof_def set_errno_def)
qed

definition result_rel :: "'w exec_result \<Rightarrow> 'v exec_result \<Rightarrow> bool" where
  "result_rel x y \<longleftrightarrow>
    (case (x, y) of
       (Returned n pr w, Returned k pr' v) \<Rightarrow> k = n \<and> pr' = pr \<and> R w v
     | (Aborted, _) \<Rightarrow> True
     | _ \<Rightarrow> False)"

lemma flow_result_rel: "flow_rel R x y \<Longrightarrow> result_rel (flow_result x) (flow_result y)"
  by (cases x; cases y) (auto simp: flow_rel_def result_rel_def flow_result_def same_def)

lemma run_rel:
  assumes "exec_run st buf re l = Some res" "same R l m" "res \<noteq> Aborted"
  shows "\<exists>res'. exec_run st' buf re m = Some res' \<and> result_rel res res'"
proof -
  let ?P = "\<lambda>s b re l res. s = st \<longrightarrow> b = buf \<longrightarrow> res \<noteq> Aborted \<longrightarrow>
    (\<forall>m. same R l m \<longrightarrow> (\<exists>res'. exec_run st' buf re m = Some res' \<and> result_rel res res'))"
  have "?P st buf re l res"
  proof (rule exec_run.raw_induct [of ?P, OF _ assms(1)], intro impI allI)
    fix run s b re l res m
    assume IH: "\<And>s b re l res. run s b re l = Some res \<Longrightarrow> ?P s b re l res"
      and res: "(if \<not> re \<and> cur_p l = length b then Some (flow_result (exec_finish s b l))
        else case if re then exec_switch s b l else exec_fetch b l of
            Break l' \<Rightarrow> run s b False (l'\<lparr>cur_p := cur_p l' + 1\<rparr>)
          | Reexecute l' \<Rightarrow> run s b True l'
          | Goto_error l' \<Rightarrow> Some (flow_result (exec_error l'))
          | Return n l' \<Rightarrow> Some (flow_result (Return n l'))
          | Abort \<Rightarrow> Some Aborted) = Some res"
      and eq: "s = st" "b = buf" "res \<noteq> Aborted" and m: "same R l m"
    show "\<exists>res'. exec_run st' buf re m = Some res' \<and> result_rel res res'"
    proof (cases "\<not> re \<and> cur_p l = length buf")
      case True
      then show ?thesis
        using res eq finish_rel [OF m, of buf]
        by (subst exec_run.simps) (auto simp: sameD(3) [OF m] intro: flow_result_rel)
    next
      case False
      have again: "\<exists>res'. exec_run st' buf r m' = Some res' \<and> result_rel res res'"
        if "run st buf r l' = Some res" "same R l' m'" for r l' m'
        using IH that eq(3) by blast
      define x where "x = (if re then exec_switch st buf l else exec_fetch buf l)"
      define y where "y = (if re then exec_switch st' buf m else exec_fetch buf m)"
      have fl: "flow_rel R x y"
        using switch_rel [OF m] error_rel(4) [OF m] by (simp add: x_def y_def)
      have run: "exec_run st' buf re m = (case y of
            Break l' \<Rightarrow> exec_run st' buf False (l'\<lparr>cur_p := cur_p l' + 1\<rparr>)
          | Reexecute l' \<Rightarrow> exec_run st' buf True l'
          | Goto_error l' \<Rightarrow> Some (flow_result (exec_error l'))
          | Return n l' \<Rightarrow> Some (flow_result (Return n l'))
          | Abort \<Rightarrow> Some Aborted)"
        using False by (subst exec_run.simps) (simp only: sameD(3) [OF m] if_False y_def)
      have res': "(case x of
            Break l' \<Rightarrow> run s b False (l'\<lparr>cur_p := cur_p l' + 1\<rparr>)
          | Reexecute l' \<Rightarrow> run s b True l'
          | Goto_error l' \<Rightarrow> Some (flow_result (exec_error l'))
          | Return n l' \<Rightarrow> Some (flow_result (Return n l'))
          | Abort \<Rightarrow> Some Aborted) = Some res"
        using res False eq by (simp only: if_False x_def)
      show ?thesis
      proof (cases x)
        case (Break l')
        then obtain m' where "y = Break m'" "same R l' m'"
          using flow_relD(1) fl by metis
        then show ?thesis
          using run res' Break eq again [of False "l'\<lparr>cur_p := cur_p l' + 1\<rparr>" "m'\<lparr>cur_p := cur_p m' + 1\<rparr>"]
            sameD(3) [of R l' m']
          by simp
      next
        case (Reexecute l')
        then obtain m' where "y = Reexecute m'" "same R l' m'"
          using flow_relD(2) fl by metis
        then show ?thesis
          using run res' Reexecute eq again [of True l' m'] by simp
      next
        case (Goto_error l')
        then obtain m' where "y = Goto_error m'" "same R l' m'"
          using flow_relD(3) fl by metis
        then show ?thesis
          using run res' Goto_error flow_result_rel [OF error_rel(3)] by auto
      next
        case (Return n l')
        then obtain m' where "y = Return n m'" "same R l' m'" "parser m' = parser l'"
          using flow_relD(4) fl by metis
        then show ?thesis
          using run res' Return flow_result_rel [of "Return n l'" "Return n m'"] by auto
      next
        case Abort
        then show ?thesis
          using res' eq(3) by simp
      qed
    qed
  qed
  then show ?thesis using assms(2,3) by blast
qed

lemma execute_similar:
  assumes "http_parser_execute st buf pr w = Some (Returned n pr' w')" "R w v"
  shows "\<exists>v'. http_parser_execute st' buf pr v = Some (Returned n pr' v') \<and> R w' v'"
proof -
  have init: "same R (init_locals pr w) (init_locals pr v)"
    using assms(2) by (simp add: same_def init_locals_def) (rule exI [of _ "state pr"], simp)
  have "\<exists>res'. http_parser_execute st' buf pr v = Some res' \<and> result_rel (Returned n pr' w') res'"
  proof (cases "http_errno pr = HPE_OK \<and> buf \<noteq> []")
    case True
    then show ?thesis
      using assms(1) run_rel [OF _ init, of buf False "Returned n pr' w'"] by (simp add: http_parser_execute_def)
  next
    case False
    then show ?thesis
      using assms flow_result_rel [OF eof_rel [OF assms(2)], of pr]
      by (auto simp: http_parser_execute_def result_rel_def split: if_splits)
  qed
  then obtain res' where "http_parser_execute st' buf pr v = Some res'" "result_rel (Returned n pr' w') res'"
    by blast
  then show ?thesis
    by (cases res') (auto simp: result_rel_def)
qed

end

end
