(* ===== verification/Connection_Steps.thy ===== *)
theory Connection_Steps
  imports Http_Connection Parser_Simulation Parser_Safety_Body "HOL-Library.Sublist"
begin

text \<open>
  Runs of one connection.  The completions of the network library, the timer and the calls from
  above are events; a step is the handler that takes one.  No order is assumed of them but one: a
  request is started only when none is pending, as the connection pool does.  Events come one at a
  time, which the code ensures for all but the timer, whose handler is not bound to the strand; runs
  are those of an \<open>io_context\<close> with a single thread.
\<close>

section \<open>Events\<close>

datatype conn_event =
    Start http_request | Cancel | Timer error_code | Resolved error_code "nat list"
  | Connected error_code | Handshaken error_code | Written error_code | Received error_code "char list"

fun conn_step :: "'z zlib \<Rightarrow> conn_event \<Rightarrow> http_parser \<times> stack \<Rightarrow> (http_parser \<times> stack) option" where
  "conn_step zl (Start req) (pr, s) = map_option (Pair pr) (content_start zl req s)"
| "conn_step zl Cancel (pr, s) = map_option (Pair pr) (content_cancel zl s)"
| "conn_step zl (Timer ec) (pr, s) = map_option (Pair pr) (timer_handler zl ec s)"
| "conn_step zl (Resolved ec eps) (pr, s) = map_option (Pair pr) (resolve_handler zl ec eps s)"
| "conn_step zl (Connected ec) (pr, s) = map_option (Pair pr) (connect_handler zl ec s)"
| "conn_step zl (Handshaken ec) (pr, s) = map_option (Pair pr) (handshake_handler zl ec s)"
| "conn_step zl (Written ec) (pr, s) = map_option (Pair pr) (write_handler zl ec s)"
| "conn_step zl (Received ec bytes) (pr, s) = read_handler zl ec bytes (pr, s)"

text \<open>The results that were handed back, in order, and the requests that were handed back or are pending.\<close>

definition completions :: "stack \<Rightarrow> (http_result_data \<times> error_code) list" where
  "completions s = concat (map (\<lambda>e. case e of Completed r ec \<Rightarrow> [(r, ec)] | _ \<Rightarrow> []) (effects s))"

definition handed :: "stack \<Rightarrow> http_request option list" where
  "handed s = map (\<lambda>(r, ec). result_request r) (completions s) @ (if has_callback s then [the_request s] else [])"

text \<open>A connection as it is made: its parser initialised, nothing asked of the network yet.\<close>

definition fresh_conn :: "http_parser \<times> stack \<Rightarrow> bool" where
  "fresh_conn c \<longleftrightarrow> fst c = http_parser_init zero_parser HTTP_RESPONSE \<and> \<not> has_callback (snd c) \<and>
     effects (snd c) = [] \<and> \<not> socket_open (snd c) \<and> \<not> hung (snd c)"

text \<open>
  What the network library keeps to: a read fills at most the buffer of 1024 bytes, and a resolver
  that does not fail gives an endpoint.
\<close>

definition read_buffer_size :: nat where "read_buffer_size = 1024"

fun event_ok :: "conn_event \<Rightarrow> bool" where
  "event_ok (Received ec bytes) \<longleftrightarrow> length bytes \<le> read_buffer_size"
| "event_ok (Resolved ec eps) \<longleftrightarrow> is_error ec \<or> eps \<noteq> []"
| "event_ok (Start req) \<longleftrightarrow> False"
| "event_ok ev \<longleftrightarrow> True"

text \<open>The runs, with the requests that were started in them, in order.\<close>

inductive conn_reach :: "'z zlib \<Rightarrow> http_request list \<Rightarrow> http_parser \<times> stack \<Rightarrow> bool" for zl where
  fresh: "fresh_conn c \<Longrightarrow> conn_reach zl [] c"
| start: "conn_reach zl reqs c \<Longrightarrow> \<not> has_callback (snd c) \<Longrightarrow> conn_step zl (Start req) c = Some c' \<Longrightarrow>
    conn_reach zl (reqs @ [req]) c'"
| event: "conn_reach zl reqs c \<Longrightarrow> event_ok ev \<Longrightarrow> conn_step zl ev c = Some c' \<Longrightarrow> conn_reach zl reqs c'"

section \<open>What the operations do to a request\<close>

lemma completions_emit [simp]:
  "completions (emit e s) = completions s @ (case e of Completed r ec \<Rightarrow> [(r, ec)] | _ \<Rightarrow> [])"
  by (simp add: completions_def emit_def)

lemma emit_sel [simp]:
  "has_callback (emit e s) = has_callback s" "current_request (emit e s) = current_request s"
  "body_sink (emit e s) = body_sink s" "body_source (emit e s) = body_source s"
  "the_request (emit e s) = the_request s" "m_result (emit e s) = m_result s"
  "socket_open (emit e s) = socket_open s" "endpoints (emit e s) = endpoints s"
  "socket_ssl (emit e s) = socket_ssl s" "hung (emit e s) = hung s" "effects (emit e s) = effects s @ [e]"
  by (simp_all add: emit_def)

lemma completions_upd [simp]:
  "completions (s\<lparr>the_request := a\<rparr>) = completions s" "completions (s\<lparr>has_callback := b\<rparr>) = completions s"
  "completions (s\<lparr>m_result := c\<rparr>) = completions s" "completions (s\<lparr>body_sink := d\<rparr>) = completions s"
  "completions (s\<lparr>body_source := e\<rparr>) = completions s" "completions (s\<lparr>stack_host := f\<rparr>) = completions s"
  "completions (s\<lparr>current_request := g\<rparr>) = completions s" "completions (s\<lparr>m_not_reusable := h\<rparr>) = completions s"
  "completions (s\<lparr>socket_open := i\<rparr>) = completions s" "completions (s\<lparr>endpoints := j\<rparr>) = completions s"
  "completions (s\<lparr>hung := k\<rparr>) = completions s"
  by (simp_all add: completions_def)

lemmas operation_defs = socket_connect_def socket_write_def socket_read_def socket_close_def
  complete_request_def on_error_def on_headers_def content_on_body_def content_message_complete_def
  get_body_data_def send_headers_def write_headers_def on_connected_def on_write_def upd_request_def
  content_cancel_def timer_handler_def next_endpoint_def handshake_handler_def write_handler_def Let_def

lemma complete_request_once:
  "has_callback s \<Longrightarrow> \<not> hung (complete_request zl ec s) \<Longrightarrow>
    \<exists>r. completions (complete_request zl ec s) = completions s @ [(r, ec)] \<and>
      result_request r = the_request s \<and> \<not> has_callback (complete_request zl ec s)"
  "\<not> has_callback s \<Longrightarrow> complete_request zl ec s = s"
  by (simp_all add: complete_request_def Let_def split: option.splits)

section \<open>The parser's callbacks\<close>

lemma client_sel [simp]:
  "on_message_begin (client_callbacks zl) = None" "on_url (client_callbacks zl) = None"
  "on_status (client_callbacks zl) = Some cb_on_status"
  "on_header_field (client_callbacks zl) = Some cb_on_header_field"
  "on_header_value (client_callbacks zl) = Some cb_on_header_value"
  "on_headers_complete (client_callbacks zl) = Some cb_on_headers_complete"
  "on_body (client_callbacks zl) = Some cb_on_body"
  "on_message_complete (client_callbacks zl) = Some (cb_on_message_complete zl)"
  "on_chunk_header (client_callbacks zl) = None" "on_chunk_complete (client_callbacks zl) = None"
  by (simp_all add: client_callbacks_def http_parser_settings_init_def)

lemmas callback_defs = cb_on_status_def cb_on_header_field_def cb_on_header_value_def
  cb_on_headers_complete_def cb_on_body_def cb_on_message_complete_def Let_def

interpretation client: parser_client "client_callbacks zl" for zl
  by unfold_locales (simp_all add: polite_cb_def polite_data_cb_def callback_defs)

section \<open>Invariants of a stack\<close>

text \<open>
  Only \<open>start\<close> and \<open>complete_request\<close> change what is pending and what was handed back; every other operation is
  quiet.  So what \<open>complete_request\<close> and quiet changes keep, every handler but \<open>start\<close> keeps, and every
  callback of the parser.
\<close>

definition quiet :: "stack \<Rightarrow> stack \<Rightarrow> bool" where
  "quiet s s' \<longleftrightarrow> the_request s' = the_request s \<and> has_callback s' = has_callback s \<and>
     completions s' = completions s \<and> hung s' = hung s"

lemma quiet_operations [simp]:
  "quiet s (socket_read s)" "quiet s (socket_write out s)" "quiet s (socket_connect h p s)"
  "quiet s (socket_close s)" "quiet s (send_headers s)" "quiet s (upd_request f s)" "quiet s (on_headers code hs s)"
  "quiet s (content_on_body bytes s)" "quiet s (s\<lparr>m_not_reusable := b\<rparr>)" "quiet s (emit Async_handshake s)"
  by (simp_all add: operation_defs quiet_def)

lemma quiet_next_endpoint: "next_endpoint s = Some s' \<Longrightarrow> quiet s s'" "quiet s (s\<lparr>endpoints := eps\<rparr>)"
  by (auto simp: next_endpoint_def quiet_def split: list.splits)

lemma quiet_body_data: "get_body_data n s = (out, s') \<Longrightarrow> quiet s s'"
  by (auto simp: get_body_data_def quiet_def split: prod.splits)

locale stack_invariant =
  fixes zl :: "'z zlib" and P :: "stack \<Rightarrow> bool"
  assumes complete: "P s \<Longrightarrow> P (complete_request zl ec s)" and quiet: "P s \<Longrightarrow> quiet s s' \<Longrightarrow> P s'"
begin

lemma operations:
  "P s \<Longrightarrow> P (on_error zl ec s)" "P s \<Longrightarrow> P (socket_read s)" "P s \<Longrightarrow> P (socket_write out s)"
  "P s \<Longrightarrow> P (socket_close s)" "P s \<Longrightarrow> P (upd_request f s)" "P s \<Longrightarrow> P (on_headers code hs s)"
  "P s \<Longrightarrow> P (content_on_body bytes s)" "P s \<Longrightarrow> P (s\<lparr>m_not_reusable := b\<rparr>)" "P s \<Longrightarrow> P (emit Async_handshake s)"
  "P s \<Longrightarrow> P (on_connected zl ec s)" "P s \<Longrightarrow> P (content_message_complete zl s)"
  by (auto simp: on_error_def on_connected_def content_message_complete_def complete intro: quiet)

lemma endpoint: "P s \<Longrightarrow> next_endpoint s = Some s' \<Longrightarrow> P s'"
  using quiet quiet_next_endpoint(1) by blast

sublocale callbacks: similar_clients "client_callbacks zl" "client_callbacks zl" "\<lambda>w v. v = w \<and> P w"
  by unfold_locales
    (simp_all add: cb_rel_def data_cb_rel_def stateless_cb_rel_def run_cb_def run_data_cb_def callback_defs
      operations)

lemma on_write_keeps: "P s \<Longrightarrow> P (on_write zl ec s)"
proof -
  assume "P s"
  then have t: "P (if is_error ec then on_error zl ec s else s)"
    by (simp add: operations)
  obtain out s' where out: "get_body_data 1024 (if is_error ec then on_error zl ec s else s) = (out, s')"
    by fastforce
  show ?thesis
    using quiet [OF t quiet_body_data [OF out]] out by (simp add: on_write_def Let_def operations)
qed

lemma on_read_keeps:
  assumes "on_read zl bytes ec (pr, s) = Some (pr', s')" "P s"
  shows "P s'"
proof -
  define s0 where "s0 = (if is_error ec then s\<lparr>m_not_reusable := True\<rparr> else s)"
  have s0: "P s0"
    using assms(2) by (simp add: s0_def operations)
  show ?thesis
  proof (cases "bytes \<noteq> [] \<and> m_state (current_request s) \<noteq> state_done")
    case True
    then obtain n pr1 s1 where run: "http_parser_execute (client_callbacks zl) bytes pr s0 = Some (Returned n pr1 s1)"
        and s1: "s' \<in> {s1, on_error zl (Parser_code (http_errno pr1)) s1, socket_read s1, on_error zl ec s1}"
      using assms(1)
      by (auto simp: on_read_def Let_def s0_def split: option.splits exec_result.splits if_splits)
    have "P s1"
      using callbacks.execute_similar [OF run, of s0] s0 by auto
    then show ?thesis
      using s1 operations by auto
  next
    case False
    then show ?thesis
      using assms by (auto simp: on_read_def Let_def operations split: if_splits)
  qed
qed

lemma step_keeps:
  assumes "conn_step zl ev (pr, s) = Some (pr', s')" "\<forall>req. ev \<noteq> Start req" "P s"
  shows "P s'"
proof (cases ev)
  case (Resolved ec eps)
  then show ?thesis
    using assms endpoint [OF quiet [OF assms(3) quiet_next_endpoint(2)]]
    by (auto simp: resolve_handler_def operations split: if_splits)
next
  case (Connected ec)
  then show ?thesis
    using assms endpoint [OF assms(3)] by (auto simp: connect_handler_defs operations split: if_splits)
next
  case (Received ec bytes)
  then show ?thesis
    using assms on_read_keeps by (auto simp: read_handler_def split: option.splits)
qed (use assms in \<open>auto simp: content_cancel_def timer_handler_def handshake_handler_def write_handler_def complete
    operations on_write_keeps\<close>)

end

text \<open>
  Five of them: the requests that were handed back or are pending; that none becomes pending; that nothing
  handed back is taken back; that requests pending and results handed back name their request; and that
  what hangs stays so.
\<close>

interpretation handed: stack_invariant zl "\<lambda>s. handed s = reqs" for zl reqs
  by unfold_locales (auto simp: complete_request_def handed_def quiet_def Let_def split: if_splits option.splits)

interpretation pending: stack_invariant zl "\<lambda>s. has_callback s \<longrightarrow> b" for zl b
  by unfold_locales (simp_all add: complete_request_def quiet_def Let_def split: option.splits)

interpretation logged: stack_invariant zl "\<lambda>s. prefix rs (completions s)" for zl rs
  by unfold_locales (simp_all add: complete_request_def quiet_def Let_def split: option.splits)

definition named :: "stack \<Rightarrow> bool" where
  "named s \<longleftrightarrow> (has_callback s \<longrightarrow> the_request s \<noteq> None) \<and>
     list_all (\<lambda>(r, ec). result_request r \<noteq> None) (completions s)"

interpretation named: stack_invariant zl named for zl
  by unfold_locales (simp_all add: complete_request_def quiet_def named_def Let_def split: option.splits)

interpretation stuck: stack_invariant zl hung for zl
  by unfold_locales (simp_all add: complete_request_def quiet_def Let_def split: option.splits)

text \<open>So no handler ends in a stack that hangs, if it did not begin in one.\<close>

lemma endpoint_hung: "next_endpoint s = Some s' \<Longrightarrow> hung s' = hung s"
  using quiet_next_endpoint(1) by (simp add: quiet_def)

lemma step_unhung:
  assumes "conn_step zl ev (pr, s) = Some (pr', s')" "\<not> hung s"
  shows "\<not> hung s'"
proof (cases ev)
  case (Start req)
  then show ?thesis
    using assms by (auto simp: content_start_def write_headers_def socket_connect_def send_headers_def
        socket_write_def Let_def split: option.splits if_splits)
next
  case (Resolved ec eps)
  then show ?thesis
    using assms by (auto simp: resolve_handler_def dest!: endpoint_hung split: if_splits)
next
  case (Connected ec)
  then show ?thesis
    using assms by (auto simp: connect_handler_defs dest!: endpoint_hung split: if_splits)
next
  case (Received ec bytes)
  then show ?thesis
    using assms by (auto simp: read_handler_def split: option.splits)
qed (use assms in \<open>auto simp: content_cancel_def timer_handler_def handshake_handler_def write_handler_def\<close>)

text \<open>What a start does.\<close>

lemma start_pending:
  "content_start zl req s = Some s' \<Longrightarrow> has_callback s' \<and> completions s' = completions s \<and> the_request s' = Some req"
  by (cases "socket_open s") (auto simp: content_start_def operation_defs split: option.splits)

section \<open>The parser of a connection\<close>

lemma execute_client:
  assumes "parser_ok pr" "length bytes < 2 ^ 64"
  shows "\<exists>n pr' s'. http_parser_execute (client_callbacks zl) bytes pr s = Some (Returned n pr' s') \<and> parser_ok pr'"
  using client.execute_ok [OF assms, of zl s] by blast

lemma on_read_parser:
  assumes "on_read zl bytes ec (pr, s) = Some (pr', s')" "parser_ok pr" "length bytes < 2 ^ 64"
  shows "parser_ok pr'"
proof (cases "bytes \<noteq> [] \<and> m_state (current_request s) \<noteq> state_done")
  case True
  obtain n pr1 s1 where "http_parser_execute (client_callbacks zl) bytes pr
        (if is_error ec then s\<lparr>m_not_reusable := True\<rparr> else s) = Some (Returned n pr1 s1)" "parser_ok pr1"
    using execute_client [OF assms(2,3)] by blast
  then show ?thesis
    using assms(1) True by (auto simp: on_read_def Let_def split: if_splits)
next
  case False
  then show ?thesis
    using assms(1,2) by (auto simp: on_read_def Let_def split: if_splits)
qed

end
