(* ===== verification/Parser_Growth.thy ===== *)
theory Parser_Growth
  imports Parser_Safety_Body
begin

text \<open>
  How much of a body one call of \<open>http_parser_execute\<close> hands over.  An application that only counts the bytes
  of \<open>on_body\<close> shows it: one pass through the \<open>switch\<close> calls \<open>on_body\<close> once at most, with part of the buffer,
  and a call makes a number of passes that is linear in the buffer.
\<close>

section \<open>The counting application\<close>

definition counter :: "bool \<Rightarrow> nat http_parser_settings" where
  "counter skip =
    \<lparr>on_message_begin = None, on_url = None, on_status = Some (\<lambda>pr at n. (0, pr, n)),
     on_header_field = Some (\<lambda>pr at n. (0, pr, n)), on_header_value = Some (\<lambda>pr at n. (0, pr, n)),
     on_headers_complete = Some (\<lambda>pr n. (if skip then 1 else 0, pr, n)),
     on_body = Some (\<lambda>pr at n. (0, pr, n + length at)), on_message_complete = None,
     on_chunk_header = None, on_chunk_complete = None\<rparr>"

interpretation counter: parser_client "counter skip" for skip
  by unfold_locales (simp_all add: counter_def polite_cb_def polite_data_cb_def)

lemma counter_sel [simp]:
  "on_message_begin (counter skip) = None" "on_url (counter skip) = None"
  "on_status (counter skip) = Some (\<lambda>pr at n. (0, pr, n))"
  "on_header_field (counter skip) = Some (\<lambda>pr at n. (0, pr, n))"
  "on_header_value (counter skip) = Some (\<lambda>pr at n. (0, pr, n))"
  "on_headers_complete (counter skip) = Some (\<lambda>pr n. (if skip then 1 else 0, pr, n))"
  "on_body (counter skip) = Some (\<lambda>pr at n. (0, pr, n + length at))"
  "on_message_complete (counter skip) = None"
  "on_chunk_header (counter skip) = None" "on_chunk_complete (counter skip) = None"
  by (simp_all add: counter_def)

section \<open>One pass\<close>

text \<open>However the pass ends, at most \<open>n\<close> bytes are counted.\<close>

definition within :: "nat \<Rightarrow> nat flow \<Rightarrow> bool" where
  "within n fl = (case fl of Break l \<Rightarrow> app l \<le> n | Reexecute l \<Rightarrow> app l \<le> n | Goto_error l \<Rightarrow> app l \<le> n
     | Return k l \<Rightarrow> app l \<le> n | Abort \<Rightarrow> True)"

lemma within_simps [simp]:
  "within n (Break l) \<longleftrightarrow> app l \<le> n" "within n (Reexecute l) \<longleftrightarrow> app l \<le> n"
  "within n (Goto_error l) \<longleftrightarrow> app l \<le> n" "within n (Return k l) \<longleftrightarrow> app l \<le> n" "within n Abort"
  by (simp_all add: within_def)

lemma app_steps [simp]:
  "app (update_state s l) = app l" "app (upd_parser f l) = app l" "app (set_errno e l) = app l"
  "app (mark_body l) = app l" "app (mark_url l) = app l" "app (mark_header_field l) = app l"
  "app (mark_header_value l) = app l" "app (mark_status l) = app l" "app (reset_message l) = app l"
  "app (take_body buf l) = app l"
  by (simp_all add: macro_defs Let_def)

lemma within_notify [simp]:
  "callback_notify None e er l k = (if http_errno (parser l) \<noteq> HPE_OK then Abort else k l)"
  by (simp add: callback_notify_def)

lemma within_exits [simp]:
  "within n (goto_error e l) \<longleftrightarrow> app l \<le> n" "within n (do_return k l) \<longleftrightarrow> app l \<le> n"
  by (simp_all add: goto_error_def do_return_def)

lemma within_if: "(b \<Longrightarrow> within n x) \<Longrightarrow> (\<not> b \<Longrightarrow> within n y) \<Longrightarrow> within n (if b then x else y)"
  by simp

lemma within_strict: "app l \<le> n \<Longrightarrow> within n (k l) \<Longrightarrow> within n (strict_check c l k)"
  by (simp add: strict_check_def)

lemma within_count:
  "app l \<le> n \<Longrightarrow> (\<And>l'. app l' = app l \<Longrightarrow> within n (k l')) \<Longrightarrow> within n (count_header_size v l k)"
  by (simp add: count_header_size_def Let_def)

lemma after_callback_app [simp]: "app (after_callback e (r, pr, w) l) = w"
  by (simp add: after_callback_def Let_def)

lemma within_data:
  assumes "app l \<le> n" "\<And>l'. app (clear l') = app l'" "\<And>l'. app l' = app l \<Longrightarrow> within n (k l')"
  shows "within n (callback_data mark clear (Some (\<lambda>pr at m. (0, pr, m))) e buf q er l k)"
    "within n (callback_data mark clear None e buf q er l k)"
  using assms by (simp_all add: callback_data_def Let_def split: option.split)

lemma within_body:
  assumes "app l + length buf \<le> n" "\<And>l'. app l' \<le> n \<Longrightarrow> within n (k l')"
  shows "within n (callback_body (counter skip) buf q er l k)"
  using assms by (auto simp: callback_body_def callback_data_def Let_def split: option.split)

lemma within_text:
  assumes "app l \<le> n" "\<And>l'. app l' = app l \<Longrightarrow> within n (k l')"
  shows "within n (callback_header_field (counter skip) buf q er l k)"
    "within n (callback_header_value (counter skip) buf q er l k)"
    "within n (callback_url (counter skip) buf q er l k)"
    "within n (callback_status (counter skip) buf q er l k)"
  unfolding callback_header_field_def callback_header_value_def callback_url_def callback_status_def counter_sel
  by (rule within_data; use assms in simp)+

lemma within_pure:
  assumes "app l \<le> n"
  shows "within n (case_dead l)"
    "within n (case_res_or_resp_H l)"
    "within n (case_res_H l)" "within n (case_res_HT l)"
    "within n (case_res_HTT l)" "within n (case_res_HTTP l)"
    "within n (case_res_http_major l)" "within n (case_res_http_dot l)" "within n (case_res_http_minor l)"
    "within n (case_res_http_end l)" "within n (case_res_first_status_code l)"
    "within n (case_res_status_code l)" "within n (case_res_status_start l)"
    "within n (case_res_line_almost_done l)" "within n (case_req_method l)"
    "within n (case_req_spaces_before_url l)" "within n (case_req_schema l)"
    "within n (case_req_http_start l)" "within n (case_req_http_H l)" "within n (case_req_http_HT l)"
    "within n (case_req_http_HTT l)" "within n (case_req_http_HTTP l)" "within n (case_req_http_major l)"
    "within n (case_req_http_dot l)" "within n (case_req_http_minor l)" "within n (case_req_http_end l)"
    "within n (case_req_line_almost_done l)" "within n (case_header_field_start l)"
    "within n (case_header_value_discard_ws l)" "within n (case_header_value_start l)"
    "within n (case_header_value_discard_ws_almost_done l)" "within n (case_header_value_lws l)"
    "within n (case_header_almost_done l)" "within n (case_chunk_size_start l)" "within n (case_chunk_size l)"
    "within n (case_chunk_parameters l)" "within n (case_chunk_data buf l)"
    "within n (case_body_identity_eof buf l)"
    "within n (case_start_req_or_res (counter skip) l)" "within n (case_start_res (counter skip) l)"
    "within n (case_start_req (counter skip) l)" "within n (case_chunk_size_almost_done (counter skip) l)"
    "within n (case_chunk_data_done (counter skip) l)" "within n (case_message_done (counter skip) l)"
    "within n (case_headers_done (counter skip) l)" "within n (case_headers_almost_done (counter skip) l)"
  using assms by (simp_all add: case_defs macro_defs Let_def split: option.split header_states.split)

lemma within_header_field:
  assumes "app l \<le> n"
  shows "within n (case_header_field (counter skip) buf l)"
proof -
  have count: "within n (count_header_size v l' k)"
    if "app l' = app l" "\<And>l'. app l' = app l \<Longrightarrow> within n (k l')" for v l' k
    using that assms by (intro within_count) simp_all
  show ?thesis
    using assms by (auto simp: case_header_field_def Let_def split: option.split intro!: count within_text)
qed

lemma within_header_value:
  assumes "app l \<le> n"
  shows "within n (case_header_value (counter skip) buf l)"
proof -
  have count: "within n (count_header_size v l' k)"
    if "app l' = app l" "\<And>l'. app l' = app l \<Longrightarrow> within n (k l')" for v l' k
    using that assms by (intro within_count) simp_all
  show ?thesis
    using assms
    by (auto simp: case_header_value_def Let_def split: prod.split value_stop.split intro!: count within_text)
qed

lemma within_switch:
  assumes "app l + length buf \<le> n"
  shows "within n (exec_switch (counter skip) buf l)"
proof -
  have le: "app l \<le> n"
    using assms by simp
  have "within n (case_res_status (counter skip) buf l)" "within n (case_req_url (counter skip) buf l)"
    "within n (case_header_value_discard_lws (counter skip) buf l)"
    using le by (auto simp: case_res_status_def case_req_url_def case_header_value_discard_lws_def url_step_def
        Let_def split: option.split intro!: within_if within_text)
  moreover have "within n (case_body_identity (counter skip) buf l)"
    "within n (case_chunk_data_almost_done (counter skip) buf l)"
    using assms by (auto simp: case_body_identity_def case_chunk_data_almost_done_def Let_def
        intro!: within_strict within_body)
  ultimately show ?thesis
    using within_header_field [OF le] within_header_value [OF le] within_pure [OF le]
    by (cases "p_state l") (simp_all add: exec_switch_def)
qed

lemma within_fetch: "app l \<le> n \<Longrightarrow> within n (exec_fetch buf l)"
  by (simp add: exec_fetch_def count_header_size_def Let_def)

lemma within_finish:
  assumes "app l + length buf \<le> n"
  shows "within n (exec_finish (counter skip) buf l)"
proof -
  have "within n (callback_body (counter skip) buf p p l' (\<lambda>l. callback_status (counter skip) buf p p l
      (do_return (length buf))))" if "app l' = app l" for l' p
    using that assms by (intro within_body within_text) simp_all
  then show ?thesis
    using assms by (auto simp: exec_finish_def Let_def intro!: within_text)
qed

section \<open>A call\<close>

lemma result_within: "within n fl \<Longrightarrow> flow_result fl = Returned k pr w \<Longrightarrow> w \<le> n"
  by (cases fl) (auto simp: flow_result_def)

text \<open>The measure of \<open>run_ok\<close> bounds the passes.\<close>

definition passes :: "char list \<Rightarrow> bool \<Rightarrow> nat locals \<Rightarrow> nat" where
  "passes buf re l = 5 * (length buf - cur_p l) + (if re then rank (p_state l) else 4)"

text \<open>Where a pass does not end the run, it leads to a state with fewer passes to come; where it does, it is over.\<close>

definition goes_on :: "char list \<Rightarrow> bool \<Rightarrow> bool \<Rightarrow> nat locals \<Rightarrow> nat exec_result option \<Rightarrow> bool" where
  "goes_on buf skip re l res \<longleftrightarrow> (\<exists>re' l'. exec_inv buf re' l' \<and> passes buf re' l' < passes buf re l \<and>
     app l' \<le> app l + length buf \<and> res = exec_run (counter skip) buf re' l')"

definition is_over :: "char list \<Rightarrow> nat locals \<Rightarrow> nat exec_result option \<Rightarrow> bool" where
  "is_over buf l res \<longleftrightarrow> (\<forall>k pr w. res = Some (Returned k pr w) \<longrightarrow> w \<le> app l + length buf)"

lemma fetch_growth:
  assumes "exec_inv buf False l"
  shows "goes_on buf skip False l (exec_run (counter skip) buf False l) \<or>
    is_over buf l (exec_run (counter skip) buf False l)"
proof (cases "cur_p l = length buf")
  case True
  then show ?thesis
    using result_within [OF within_finish [of l buf "app l + length buf" skip]]
    by (auto simp: exec_run_end is_over_def)
next
  case False
  have f: "flow_sat (\<lambda>_. False) (\<lambda>l'. exec_inv buf True l' \<and> cur_p l' = cur_p l \<and> p_state l' = p_state l)
      (\<lambda>l'. cur_p l' \<le> length buf \<and> http_errno (parser l') \<noteq> HPE_PAUSED) (\<lambda>_ _. False) (exec_fetch buf l)"
    using fetch_ok [of buf l] assms False by simp
  have w: "within (app l + length buf) (exec_fetch buf l)"
    by (rule within_fetch) simp
  show ?thesis
  proof (cases "exec_fetch buf l")
    case (Reexecute l')
    then have "exec_inv buf True l'" "app l' \<le> app l + length buf" "passes buf True l' < passes buf False l"
      using f w rank_le [of "p_state l"] by (simp_all add: passes_def)
    then show ?thesis
      using False Reexecute by (auto simp: exec_run_fetch goes_on_def)
  next
    case (Goto_error l')
    then show ?thesis
      using w False by (simp add: exec_run_fetch exec_error_def flow_result_def do_return_def is_over_def)
  qed (use f in auto)
qed

lemma switch_growth:
  assumes "exec_inv buf True l" "length buf < 2 ^ 64"
  shows "goes_on buf skip True l (exec_run (counter skip) buf True l) \<or>
    is_over buf l (exec_run (counter skip) buf True l)"
proof -
  have ok: "step_ok buf (cur_p l) (rank (p_state l)) (exec_switch (counter skip) buf l)"
    using counter.pass_ok assms by simp
  have w: "within (app l + length buf) (exec_switch (counter skip) buf l)"
    by (rule within_switch) simp
  show ?thesis
  proof (cases "exec_switch (counter skip) buf l")
    case (Break l')
    let ?l = "l'\<lparr>cur_p := cur_p l' + 1\<rparr>"
    have "exec_inv buf False ?l" "app ?l \<le> app l + length buf" "cur_p l \<le> cur_p l'"
      using Break ok w by simp_all
    moreover from this have "passes buf False ?l < passes buf True l"
      using assms(1) by (auto simp: passes_def exec_inv_def)
    ultimately show ?thesis
      using Break unfolding goes_on_def by (intro disjI1 exI [of _ False] exI [of _ ?l]) (simp add: exec_run_switch)
  next
    case (Reexecute l')
    then have l': "exec_inv buf True l'" "app l' \<le> app l + length buf" "cur_p l \<le> cur_p l'"
        "rank (p_state l') < rank (p_state l)"
      using ok w by simp_all
    moreover have "5 * (length buf - cur_p l') \<le> 5 * (length buf - cur_p l)"
      using l'(3) by simp
    ultimately have "passes buf True l' < passes buf True l"
      unfolding passes_def by simp
    then show ?thesis
      using l' Reexecute unfolding goes_on_def by (intro disjI1 exI [of _ True] exI [of _ l']) (simp add: exec_run_switch)
  next
    case (Goto_error l')
    then show ?thesis
      using w by (simp add: exec_run_switch exec_error_def flow_result_def do_return_def is_over_def)
  next
    case (Return n l')
    then show ?thesis
      using w by (simp add: exec_run_switch flow_result_def is_over_def)
  qed (use ok in simp)
qed

lemma run_growth:
  assumes "exec_inv buf re l" "length buf < 2 ^ 64" "exec_run (counter skip) buf re l = Some (Returned k pr w)"
  shows "w \<le> app l + (passes buf re l + 1) * length buf"
  using assms(1,3)
proof (induction "passes buf re l" arbitrary: re l rule: less_induct)
  case less
  have "goes_on buf skip re l (exec_run (counter skip) buf re l) \<or>
      is_over buf l (exec_run (counter skip) buf re l)"
    using fetch_growth [of buf l skip] switch_growth [of buf l skip] less.prems(1) assms(2) by (cases re) simp_all
  then show ?case
  proof
    assume "goes_on buf skip re l (exec_run (counter skip) buf re l)"
    then obtain re' l' where l': "exec_inv buf re' l'" "passes buf re' l' < passes buf re l"
        "app l' \<le> app l + length buf" "exec_run (counter skip) buf re' l' = Some (Returned k pr w)"
      using less.prems(2) by (auto simp: goes_on_def)
    have "(passes buf re' l' + 1) * length buf + length buf \<le> (passes buf re l + 1) * length buf"
      using l'(2) mult_le_mono1 [of "passes buf re' l' + 2" "passes buf re l + 1" "length buf"]
      by (simp add: algebra_simps)
    then show ?thesis
      using less.hyps [OF l'(2,1,4)] l'(3) by linarith
  qed (use less.prems(2) in \<open>simp add: is_over_def algebra_simps\<close>)
qed

lemma execute_growth:
  assumes "parser_ok pr" "length buf < 2 ^ 64" "http_parser_execute (counter skip) buf pr 0 = Some (Returned k pr' n)"
  shows "n \<le> (5 * length buf + 5) * length buf"
proof (cases "http_errno pr = HPE_OK \<and> buf \<noteq> []")
  case True
  then have "exec_inv buf False (init_locals pr (0 :: nat))"
    using assms(1) by (intro counter.init_inv) (simp_all add: parser_ok_def)
  then show ?thesis
    using run_growth [of buf False "init_locals pr 0" skip k pr' n] assms(2,3) True
    by (simp add: http_parser_execute_def init_locals_def passes_def algebra_simps)
next
  case False
  then show ?thesis
    using assms(3) by (auto simp: http_parser_execute_def exec_eof_def init_locals_def flow_result_def
        set_errno_def split: if_splits)
qed

end
