(* ===== verification/Error_Handling.thy ===== *)
theory Error_Handling
  imports Asio_Types
begin

text \<open>
  \<open>http_error_handling.cpp\<close>: what the request manager does with a finished request, to retry it, to
  follow a redirection, or to hand it over.
\<close>

text \<open>The new request of a redirection, none, or the exception of the constructor of \<open>url\<close>.\<close>

definition create_redirection ::
  "(char list \<Rightarrow> 16 word option) \<Rightarrow> http_request \<Rightarrow> http_result_data \<Rightarrow> url_error + http_request option" where
  "create_redirection cast request r =
    (let location = get_header (result_headers r) ''Location'' in
     if location \<noteq> [] then
       (case get_url_components cast location of
          Inl e \<Rightarrow> Inl e
        | Inr u \<Rightarrow> Inr (Some (request\<lparr>m_url := u\<rparr>)))
     else Inr None)"

text \<open>
  The result is whether to try again and with which new request.  \<open>*http_result_data.m_request\<close> is
  read for a redirection only; the outer \<open>None\<close> is the null pointer.
\<close>

definition process_errors ::
  "(char list \<Rightarrow> 16 word option) \<Rightarrow> error_code \<Rightarrow> http_result_data \<Rightarrow>
    (url_error + bool \<times> http_request option) option" where
  "process_errors cast ec r =
    (if is_error ec \<and> (ec = broken_pipe \<or> ec = connection_reset \<or> ec = Parser_code HPE_INVALID_EOF_STATE \<or> ec = eof)
     then Some (Inr (True, None))
     else if 301 \<le> result_status_code r \<and> result_status_code r \<le> 308 then
       (case result_request r of
          None \<Rightarrow> None
        | Some request \<Rightarrow>
            Some (case create_redirection cast request r of
                    Inl e \<Rightarrow> Inl e
                  | Inr new_request \<Rightarrow> Inr (new_request \<noteq> None, new_request)))
     else Some (Inr (False, None)))"

section \<open>Behaviour\<close>

definition transient :: "error_code \<Rightarrow> bool" where
  "transient ec \<longleftrightarrow> ec \<in> {broken_pipe, connection_reset, eof, Parser_code HPE_INVALID_EOF_STATE}"

definition location_of :: "http_result_data \<Rightarrow> char list" where
  "location_of r = get_header (result_headers r) ''Location''"

definition redirection :: "http_result_data \<Rightarrow> bool" where
  "redirection r \<longleftrightarrow> 301 \<le> result_status_code r \<and> result_status_code r \<le> 308"

text \<open>
  C30: What becomes of a finished request, in every case and in no other.  It is tried again as it is exactly for the
  four transient errors.  For any other outcome with a status from 301 to 308 and a \<open>Location\<close> header, it is tried
  again as the old request with the URL that the header names, or the exception of the constructor of \<open>url\<close>
  leaves if it names none; without the header, or with another status, it is handed over.  Only a
  redirection of a result without a request reads through the null pointer.
\<close>

theorem process_errors_cases:
  "(process_errors cast ec r = Some (Inr (True, None)) \<longleftrightarrow> transient ec) \<and>
    (process_errors cast ec r = Some (Inr (True, Some req)) \<longleftrightarrow>
       \<not> transient ec \<and> redirection r \<and> location_of r \<noteq> [] \<and>
       (\<exists>old u. result_request r = Some old \<and> get_url_components cast (location_of r) = Inr u \<and>
          req = old\<lparr>m_url := u\<rparr>)) \<and>
    (process_errors cast ec r = Some (Inl e) \<longleftrightarrow>
       \<not> transient ec \<and> redirection r \<and> location_of r \<noteq> [] \<and>
       (\<exists>old. result_request r = Some old) \<and> get_url_components cast (location_of r) = Inl e) \<and>
    (process_errors cast ec r = Some (Inr (False, None)) \<longleftrightarrow>
       \<not> transient ec \<and> (if redirection r then location_of r = [] \<and> (\<exists>old. result_request r = Some old) else True)) \<and>
    (process_errors cast ec r = None \<longleftrightarrow> \<not> transient ec \<and> redirection r \<and> result_request r = None)"
proof (cases "transient ec")
  case True
  then show ?thesis
    by (auto simp: process_errors_def transient_def)
next
  case False
  then have "\<not> (is_error ec \<and>
      (ec = broken_pipe \<or> ec = connection_reset \<or> ec = Parser_code HPE_INVALID_EOF_STATE \<or> ec = eof))"
    by (auto simp: transient_def)
  then show ?thesis
    using False
    by (cases "result_request r"; cases "get_url_components cast (location_of r)")
      (auto simp: process_errors_def create_redirection_def redirection_def location_of_def Let_def)
qed

definition example_request :: http_request where
  "example_request = \<lparr>m_http_method = GET, m_url = example_page, m_timeout_msec = 1000,
     m_certificates = \<lparr>client_private_key_file = [], client_certificate_file = [],
       certificate_authority_bundle_file = []\<rparr>,
     m_http_headers = [], m_post_data = [], m_compression_policy = never\<rparr>"

definition example_result :: http_result_data where
  "example_result = \<lparr>result_request = Some example_request, result_headers = [(''location'', ''x'' @ ''://'' @ ''h'')],
     result_status_code = 302, result_data = []\<rparr>"

lemma example_location:
  "get_header (result_headers example_result) ''Location'' = ''x'' @ ''://'' @ ''h''"
  by (simp add: example_result_def iequals_def ascii_tolower_def)

lemma example_redirection:
  "process_errors example_cast No_error example_result =
    Some (Inr (True, Some (example_request\<lparr>m_url := example_target\<rparr>)))"
proof -
  show ?thesis
    using example_target_parsed
    unfolding process_errors_def create_redirection_def example_location Let_def
    by (simp add: example_result_def)
qed

text \<open>A redirection that is followed.\<close>

theorem process_errors_cases_witness:
  "process_errors example_cast No_error example_result =
      Some (Inr (True, Some (example_request\<lparr>m_url := example_target\<rparr>))) \<and>
    location_of example_result \<noteq> [] \<and>
    (\<exists>old u. result_request example_result = Some old \<and>
       get_url_components example_cast (location_of example_result) = Inr u \<and>
       example_request\<lparr>m_url := example_target\<rparr> = old\<lparr>m_url := u\<rparr>)"
  using process_errors_cases [of example_cast No_error example_result "example_request\<lparr>m_url := example_target\<rparr>"]
    example_redirection by blast

lemma path_no_url: "no_sep p \<Longrightarrow> get_url_components cast (CHR ''/'' # p) = Inl Failed_to_parse_url"
  using url_matches_path [of p] by (simp add: get_url_components_def)

text \<open>
  C35: A redirection whose \<open>Location\<close> is a path, as servers send, is not followed, unless the error is one of the
  four that are retried: the constructor of \<open>url\<close> throws, out of the handler of the finished request.  This is
  for a path in which no \<open>://\<close> occurs (one with it, as in a query, may be taken for a URL).
\<close>

theorem relative_redirection_throws:
  assumes "get_header (result_headers r) ''Location'' = CHR ''/'' # p" "no_sep p"
    and "301 \<le> result_status_code r" "result_status_code r \<le> 308" "result_request r = Some req"
    and "\<not> transient ec"
  shows "process_errors cast ec r = Some (Inl Failed_to_parse_url)"
proof -
  show ?thesis
    using assms path_no_url [OF assms(2), of cast] by (auto simp: process_errors_def create_redirection_def transient_def)
qed

definition relative_result :: http_result_data where
  "relative_result = example_result\<lparr>result_headers := [(''Location'', ''/login'')]\<rparr>"

theorem relative_redirection_throws_witness:
  "process_errors example_cast No_error relative_result = Some (Inl Failed_to_parse_url)"
  by (rule relative_redirection_throws [where p = "''login''" and req = example_request])
    (simp_all add: relative_result_def example_result_def no_sep_Cons transient_def)

end
