(* ===== verification/Connection_Laws.thy ===== *)
theory Connection_Laws
  imports Connection_Steps Parser_Growth Error_Handling
begin

text \<open>
  What a connection promises to the request manager: every request it is given is handed back, once,
  with its result or with the error that ended it, and no handler gets stuck.
\<close>

section \<open>Runs\<close>

lemma parser_ok_init: "parser_ok (http_parser_init pr HTTP_RESPONSE)"
  by (simp add: parser_ok_def http_parser_init_def)

lemma read_handler_on_read:
  "read_handler zl ec bytes c = Some (pr', s') \<longleftrightarrow> on_read zl bytes ec c = Some (pr', s') \<and> \<not> hung s'"
  by (auto simp: read_handler_def split: option.splits)

lemma conn_step_keeps:
  assumes "conn_step zl ev (pr, s) = Some (pr', s')" "event_ok ev" "parser_ok pr"
  shows "parser_ok pr' \<and> handed s' = handed s"
proof -
  have "\<forall>req. ev \<noteq> Start req"
    using assms(2) by auto
  moreover have "parser_ok pr'"
  proof (cases ev)
    case (Received ec bytes)
    then show ?thesis
      using assms on_read_parser [of zl bytes ec pr s pr' s'] by (simp add: read_handler_on_read read_buffer_size_def)
  qed (use assms in auto)
  ultimately show ?thesis
    using handed.step_keeps [OF assms(1)] by blast
qed

lemma conn_reach_inv:
  "conn_reach zl reqs c \<Longrightarrow>
    parser_ok (fst c) \<and> handed (snd c) = map Some reqs \<and> named (snd c) \<and> \<not> hung (snd c)"
proof (induction rule: conn_reach.induct)
  case (fresh c)
  then show ?case
    by (simp add: fresh_conn_def parser_ok_init handed_def named_def completions_def)
next
  case (start reqs c req c')
  then show ?case
    using step_unhung [of zl "Start req" "fst c" "snd c" "fst c'" "snd c'"]
    by (cases c) (auto simp: handed_def named_def dest!: start_pending)
next
  case (event reqs c ev c')
  then have "\<forall>req. ev \<noteq> Start req"
    by auto
  then show ?case
    using conn_step_keeps [of zl ev "fst c" "snd c" "fst c'" "snd c'"] event
      named.step_keeps [of zl ev "fst c" "snd c" "fst c'" "snd c'"]
      step_unhung [of zl ev "fst c" "snd c" "fst c'" "snd c'"] by simp
qed

section \<open>Handlers return\<close>

text \<open>
  A request is completed without hanging when its body so far is not too large for \<open>data_sink::get_data\<close>
  (\<open>get_data_returns\<close>).  That of a response grows by what one read may bring, which \<open>execute_growth\<close> bounds.
\<close>

lemma data_source_returns: "zlib_ok zl \<Longrightarrow> \<exists>src. data_source_init zl bytes policy = Some src"
  using compress_returns [of zl bytes] by (auto simp: data_source_init_def compress_data_source_def)

lemma complete_unhung:
  assumes "zlib_ok zl" "length (sink_bytes (body_sink s)) < 2 ^ 50"
  shows "hung (complete_request zl ec s) = hung s"
  using get_data_returns [OF assms] by (auto simp: complete_request_def Let_def)

lemma quiet_hung [simp]:
  "hung (socket_read s) = hung s" "hung (socket_write out s) = hung s" "hung (socket_close s) = hung s"
  "hung (send_headers s) = hung s" "hung (upd_request f s) = hung s" "hung (on_headers code hs s) = hung s"
  "hung (content_on_body bytes s) = hung s"
  by (simp_all add: operation_defs)

lemma on_write_unhung: "hung (on_write zl ec s) = hung (if is_error ec then on_error zl ec s else s)"
proof -
  obtain out s' where out: "get_body_data 1024 (if is_error ec then on_error zl ec s else s) = (out, s')"
    by fastforce
  then show ?thesis
    using quiet_body_data [OF out] by (simp add: on_write_def Let_def quiet_def)
qed

text \<open>\<open>n\<close> bytes of the body were handed over in this call, on top of \<open>base\<close> of them.\<close>

definition filling :: "'z zlib \<Rightarrow> nat \<Rightarrow> bool \<Rightarrow> nat \<Rightarrow> stack \<Rightarrow> bool" where
  "filling zl base skip n s \<longleftrightarrow> (req_method (current_request s) = HEAD \<longleftrightarrow> skip) \<and>
     length (sink_bytes (body_sink s)) \<le> base + n \<and>
     (zlib_ok zl \<and> base + n < 2 ^ 50 \<longrightarrow> \<not> hung s)"

lemma header_callback_bytes [simp]:
  "sink_bytes (header_callback hs s) = sink_bytes s"
  "header_callback hs (s\<lparr>sink_bytes := b\<rparr>) = (header_callback hs s)\<lparr>sink_bytes := b\<rparr>"
  by (simp_all add: header_callback_def Let_def)

lemma filling_steps:
  assumes "filling zl base skip n s"
  shows "filling zl base skip (n + length at) (content_on_body at s)"
    "filling zl base skip n (on_headers code hs s)"
    "(\<And>b. req_method (f b) = req_method b) \<Longrightarrow> filling zl base skip n (upd_request f s)"
    "filling zl base skip n (s\<lparr>m_not_reusable := b\<rparr>)"
    "filling zl base skip n (content_message_complete zl s)"
proof -
  show "filling zl base skip (n + length at) (content_on_body at s)"
    using assms by (auto simp: filling_def content_on_body_def write_callback_def Let_def)
  have "current_request (content_message_complete zl s) = current_request s"
    "body_sink (content_message_complete zl s) = body_sink s"
    by (simp_all add: content_message_complete_def complete_request_def Let_def split: option.splits)
  then show "filling zl base skip n (content_message_complete zl s)"
    using assms complete_unhung [of zl s No_error] by (auto simp: filling_def content_message_complete_def)
qed (use assms in \<open>auto simp: filling_def on_headers_def upd_request_def\<close>)

interpretation filling: similar_clients "counter skip" "client_callbacks zl" "filling zl base skip" for skip zl base
proof unfold_locales
  note steps = filling_steps [where zl = zl and base = base and skip = skip]
  have sel: "req_method (push_current_header b) = req_method b" "req_method (append_field at b) = req_method b"
    "req_method (append_value at b) = req_method b" for b at
    by (simp_all add: push_current_header_def append_field_def append_value_def)
  show "data_cb_rel (filling zl base skip) (on_header_field (counter skip)) (on_header_field (client_callbacks zl))"
    "data_cb_rel (filling zl base skip) (on_header_value (counter skip)) (on_header_value (client_callbacks zl))"
    "data_cb_rel (filling zl base skip) (on_body (counter skip)) (on_body (client_callbacks zl))"
    by (auto simp: data_cb_rel_def run_data_cb_def callback_defs sel intro!: steps)
  show "cb_rel (filling zl base skip) (on_message_complete (counter skip)) (on_message_complete (client_callbacks zl))"
    by (auto simp: cb_rel_def run_cb_def callback_defs intro!: steps)
  show "stateless_cb_rel (filling zl base skip) (on_headers_complete (counter skip)) (on_headers_complete (client_callbacks zl))"
    unfolding stateless_cb_rel_def
  proof (intro allI impI)
    fix pr :: http_parser and x n s assume f: "filling zl base skip n s"
    let ?s = "on_headers (unat (status_code pr))
        (recv_headers (current_request (if fst (current_header (current_request s)) \<noteq> [] then upd_request push_current_header s else s)))
        (if fst (current_header (current_request s)) \<noteq> [] then upd_request push_current_header s else s)"
    have "filling zl base skip n ?s"
      using f by (auto simp: sel intro!: steps)
    then show "\<exists>r pr' w' v'. run_cb (on_headers_complete (counter skip)) pr n = (r, pr', w') \<and>
        run_cb (on_headers_complete (client_callbacks zl)) (pr\<lparr>state := x\<rparr>) s = (r, pr'\<lparr>state := x\<rparr>, v') \<and>
        filling zl base skip w' v'"
      by (auto simp: run_cb_def callback_defs filling_def)
  qed
qed (simp_all add: cb_rel_def data_cb_rel_def run_cb_def run_data_cb_def callback_defs)

lemma execute_filling:
  assumes "parser_ok pr" "length bytes \<le> read_buffer_size" "zlib_ok zl" "\<not> hung s"
    and "length (sink_bytes (body_sink s)) < 2 ^ 49"
  shows "\<exists>n pr' s'. http_parser_execute (client_callbacks zl) bytes pr s = Some (Returned n pr' s') \<and>
    \<not> hung s' \<and> length (sink_bytes (body_sink s')) < 2 ^ 50"
proof -
  let ?skip = "req_method (current_request s) = HEAD" and ?base = "length (sink_bytes (body_sink s))"
  have len: "length bytes < 2 ^ 64"
    using assms(2) by (simp add: read_buffer_size_def)
  obtain n pr' k where run: "http_parser_execute (counter ?skip) bytes pr 0 = Some (Returned n pr' k)"
    using counter.execute_ok [OF assms(1) len] by blast
  have "k \<le> (5 * length bytes + 5) * length bytes"
    by (rule execute_growth [OF assms(1) len run])
  also have "\<dots> \<le> (5 * 1024 + 5) * 1024"
    using assms(2) by (intro mult_le_mono) (simp_all add: read_buffer_size_def)
  finally have k: "?base + k < 2 ^ 50"
    using assms(5) by simp
  have "filling zl ?base ?skip 0 s"
    using assms(4) by (simp add: filling_def)
  then obtain s' where "http_parser_execute (client_callbacks zl) bytes pr s = Some (Returned n pr' s')"
      "filling zl ?base ?skip k s'"
    using filling.execute_similar [OF run] by blast
  then show ?thesis
    using assms(3) k by (auto simp: filling_def)
qed

lemma read_returns:
  assumes "parser_ok pr" "length bytes \<le> read_buffer_size" "zlib_ok zl" "\<not> hung s"
    and "length (sink_bytes (body_sink s)) < 2 ^ 49"
  shows "\<exists>pr' s'. read_handler zl ec bytes (pr, s) = Some (pr', s')"
proof -
  let ?s = "if is_error ec then s\<lparr>m_not_reusable := True\<rparr> else s"
  have done_unhung: "\<not> hung (on_error zl e t)" "\<not> hung (socket_read t)"
    if "\<not> hung t" "length (sink_bytes (body_sink t)) < 2 ^ 50" for e t
    using that complete_unhung [OF assms(3) that(2)] by (simp_all add: on_error_def)
  have s: "\<not> hung ?s" "length (sink_bytes (body_sink ?s)) < 2 ^ 49"
    using assms(4,5) by simp_all
  obtain n pr1 s1 where "http_parser_execute (client_callbacks zl) bytes pr ?s = Some (Returned n pr1 s1)"
      "\<not> hung s1" "length (sink_bytes (body_sink s1)) < 2 ^ 50"
    using execute_filling [OF assms(1-3) s] by blast
  then show ?thesis
    using assms(4,5) done_unhung [of s1] done_unhung [of ?s]
    by (auto simp: read_handler_def on_read_def Let_def)
qed

lemma conn_step_returns:
  assumes "parser_ok pr" "\<not> hung s" "zlib_ok zl" "length (sink_bytes (body_sink s)) < 2 ^ 49"
    and "event_ok ev \<or> (\<exists>req. ev = Start req)"
  shows "\<exists>pr' s'. conn_step zl ev (pr, s) = Some (pr', s')"
proof -
  have complete: "\<not> hung (complete_request zl ec s)" for ec
    using assms(2-4) complete_unhung [of zl s ec] by simp
  then have connected: "\<not> hung (on_connected zl ec s)" "\<not> hung (on_write zl ec s)" for ec
    using assms(2) by (simp_all add: on_connected_def on_error_def on_write_unhung)
  show ?thesis
  proof (cases ev)
    case (Start req)
    then show ?thesis
      using data_source_returns [OF assms(3), of "m_post_data req" "m_compression_policy req"]
      by (auto simp: content_start_def Let_def)
  next
    case (Resolved ec eps)
    then show ?thesis
      using assms(5) connected by (cases eps) (auto simp: resolve_handler_def next_endpoint_def)
  next
    case (Connected ec)
    then show ?thesis
      using connected by (cases "endpoints s") (auto simp: connect_handler_defs next_endpoint_def)
  next
    case (Received ec bytes)
    then show ?thesis
      using assms read_returns [of pr bytes zl s ec] by simp
  qed (use complete connected assms(2) in \<open>simp_all add: content_cancel_def timer_handler_def handshake_handler_def
      write_handler_def\<close>)
qed

text \<open>An example: a connection as it is made, with one request started.\<close>

definition example_conn :: "http_parser \<times> stack" where
  "example_conn = (http_parser_init zero_parser HTTP_RESPONSE, new_stack 0 (''any.host.com'', 1234) True)"

definition example_started :: stack where
  "example_started = the (content_start stored_zlib example_request (snd example_conn))"

lemma example_started_simps:
  "conn_step stored_zlib (Start example_request) example_conn = Some (fst example_conn, example_started)"
  "has_callback example_started" "current_request example_started = \<lparr>req_method = GET,
     request_headers = content_headers example_request (body_source example_started), recv_headers = [],
     req_url = example_page, current_header = ([], []), m_state = state_in_progress\<rparr>"
  "the_request example_started = Some example_request" "body_sink example_started = data_sink_init"
  "completions example_started = []" "endpoints example_started = []"
  "body_source example_started = \<lparr>source_bytes = [], source_pos = 0, source_good = True, m_size = 0,
     m_encoding_headers = []\<rparr>" "socket_open example_started = False"
  "hung example_started = False" "effects example_started = [Timer_wait 1000, Async_resolve (host example_page) (decimal (unat (port example_page)))]"
  by (simp_all add: example_started_def example_conn_def new_stack_def content_start_def data_source_init_def
      compress_data_source_def example_request_def write_headers_def socket_connect_def Let_def
      content_headers_def completions_def)

lemma example_reach: "conn_reach stored_zlib [example_request] (fst example_conn, example_started)"
proof -
  have "conn_reach stored_zlib [] example_conn"
    by (rule conn_reach.fresh) (simp add: fresh_conn_def example_conn_def new_stack_def)
  then show ?thesis
    using conn_reach.start [of stored_zlib "[]", OF _ _ example_started_simps(1)]
    by (simp add: example_conn_def new_stack_def)
qed

text \<open>
  C8: A connection hands back exactly the requests it was given, one at a time and in order: after whatever starts and
  events, the requests of the results handed back, followed by the one still pending, are the
  requests it was started with, each of them once.
\<close>

theorem each_request_answered_once:
  assumes "conn_reach zl reqs (pr, s)"
  shows "map (\<lambda>(r, ec). result_request r) (completions s) @ (if has_callback s then [the_request s] else []) =
      map Some reqs \<and> parser_ok pr"
  using conn_reach_inv [OF assms] by (simp add: handed_def)

lemma example_done:
  "conn_reach stored_zlib [example_request] (fst example_conn, the (timer_handler stored_zlib No_error example_started))"
  "map (\<lambda>(r, ec). result_request r) (completions (the (timer_handler stored_zlib No_error example_started))) =
    [Some example_request]"
proof -
  have run: "timer_handler stored_zlib No_error example_started = Some (complete_request stored_zlib timed_out example_started)"
    by (simp add: timer_handler_def complete_request_def Let_def get_data_def data_sink_init_def example_started_simps)
  then show "conn_reach stored_zlib [example_request]
      (fst example_conn, the (timer_handler stored_zlib No_error example_started))"
    using conn_reach.event [OF example_reach, of "Timer No_error"] by simp
  show "map (\<lambda>(r, ec). result_request r) (completions (the (timer_handler stored_zlib No_error example_started))) =
      [Some example_request]"
    by (simp add: run complete_request_def Let_def get_data_def data_sink_init_def example_started_simps)
qed

theorem each_request_answered_once_witness:
  "map (\<lambda>(r, ec). result_request r) (completions (the (timer_handler stored_zlib No_error example_started))) @
      (if has_callback (the (timer_handler stored_zlib No_error example_started))
       then [the_request (the (timer_handler stored_zlib No_error example_started))] else []) =
      map Some [example_request] \<and>
    parser_ok (fst example_conn)"
  by (rule each_request_answered_once [OF example_done(1)])

text \<open>
  C17: No handler of a connection gets stuck.  After any run, every event the network library, the timer or
  the request manager may bring is handled: the parser returns and no assertion of it fails, no
  iterator is read past its end, and, on a zlib that behaves as documented, the compression of the body of a
  request and the decompression of that of a response end, the latter when fewer than \<open>2 ^ 49\<close> bytes of it have
  come.
\<close>

theorem handlers_return:
  assumes "conn_reach zl reqs c" "zlib_ok zl" "length (sink_bytes (body_sink (snd c))) < 2 ^ 49"
    and "event_ok ev \<or> (\<exists>req. ev = Start req)"
  shows "conn_step zl ev c \<noteq> None"
  using conn_step_returns [of "fst c" "snd c", OF _ _ assms(2-4)] conn_reach_inv [OF assms(1)] by auto

theorem handlers_return_witness:
  "conn_step stored_zlib (Received eof ''HTTP'') (fst example_conn, example_started) \<noteq> None"
  by (rule handlers_return [OF example_reach stored_ok])
    (simp_all add: read_buffer_size_def example_started_simps data_sink_init_def)

section \<open>Ends that are errors\<close>

text \<open>The error an event ends a pending request with, if it does.\<close>

fun failing :: "stack \<Rightarrow> conn_event \<Rightarrow> error_code option" where
  "failing s Cancel = Some operation_aborted"
| "failing s (Timer ec) = (if is_error ec then None else Some timed_out)"
| "failing s (Resolved ec eps) = (if is_error ec then Some ec else None)"
| "failing s (Connected ec) = (if is_error ec \<and> endpoints s = [] then Some ec else None)"
| "failing s (Handshaken ec) = (if is_error ec then Some ec else None)"
| "failing s (Written ec) = (if is_error ec then Some ec else None)"
| "failing s (Received ec bytes) =
    (if is_error ec \<and> bytes = [] \<and> m_state (current_request s) \<noteq> state_done then Some ec else None)"
| "failing s (Start req) = None"

lemma on_write_completes:
  "\<exists>out src. completions (on_write zl ec s) = completions (if is_error ec then on_error zl ec s else s) \<and>
    has_callback (on_write zl ec s) = has_callback (if is_error ec then on_error zl ec s else s)"
proof -
  have "completions (case get_body_data n t of (buf, t) \<Rightarrow> if buf = [] then socket_read t else socket_write buf t) =
      completions t \<and>
    has_callback (case get_body_data n t of (buf, t) \<Rightarrow> if buf = [] then socket_read t else socket_write buf t) =
      has_callback t" for n t
    by (cases "get_body_data n t") (auto simp: operation_defs split: prod.splits)
  then show ?thesis
    by (simp add: on_write_def Let_def)
qed

text \<open>
  C18: While a request is pending, a cancellation, the timer, a name that does not resolve, the last
  endpoint that refuses, a failed handshake, a failed write and a read that brings an error and no
  bytes hand it back at once, with that error and the request itself; no other event does but a
  read that brings bytes.
\<close>

theorem request_ends:
  assumes "has_callback s" "conn_step zl ev (pr, s) = Some (pr', s')"
    and "event_ok ev" "\<forall>ec b bs. ev \<noteq> Received ec (b # bs)"
  shows "case failing s ev of
      Some ec \<Rightarrow> (\<exists>r. completions s' = completions s @ [(r, ec)] \<and> result_request r = the_request s) \<and>
        \<not> has_callback s'
    | None \<Rightarrow> completions s' = completions s \<and> has_callback s'"
proof -
  note once = complete_request_once(1) [OF assms(1), of zl]
  show ?thesis
  proof (cases ev)
    case Cancel
    then show ?thesis
      using assms(2) once [of operation_aborted] by (auto simp: content_cancel_def socket_close_def split: if_splits)
  next
    case (Timer ec)
    then show ?thesis
      using assms(1,2) once [of timed_out] by (auto simp: timer_handler_def)
  next
    case (Resolved ec eps)
    then show ?thesis
      using assms once [of ec]
      by (cases eps) (auto simp: resolve_handler_def on_connected_def on_error_def next_endpoint_def)
  next
    case (Connected ec)
    then show ?thesis
      using assms once [of ec]
      by (cases "endpoints s") (auto simp: connect_handler_defs on_connected_def on_error_def send_headers_def
          next_endpoint_def socket_write_def split: if_splits)
  next
    case (Handshaken ec)
    then show ?thesis
      using assms(1,2) once [of ec]
      by (auto simp: handshake_handler_def on_connected_def on_error_def send_headers_def socket_write_def)
  next
    case (Written ec)
    then show ?thesis
      using assms(1,2) on_write_completes [of zl ec s] once [of ec]
      by (auto simp: write_handler_def on_error_def on_write_unhung)
  next
    case (Received ec bytes)
    then show ?thesis
      using assms complete_request_once(1) [of "s\<lparr>m_not_reusable := True\<rparr>" zl ec]
      by (cases bytes; cases "is_error ec"; cases "m_state (current_request s) = state_done")
        (auto simp: read_handler_def on_read_def on_error_def socket_read_def)
  qed (use assms(3) in simp)
qed

theorem request_ends_witness:
  "\<exists>s'. timer_handler stored_zlib No_error example_started = Some s' \<and>
    (\<exists>r. completions s' = completions example_started @ [(r, timed_out)] \<and>
      result_request r = the_request example_started) \<and> \<not> has_callback s'"
  using request_ends [of example_started stored_zlib "Timer No_error" "fst example_conn" "fst example_conn"
      "the (timer_handler stored_zlib No_error example_started)"] example_started_simps(2)
  by (simp add: timer_handler_def complete_request_def Let_def get_data_def data_sink_init_def example_started_simps)

end
