(* ===== verification/Connection_Pool.thy ===== *)
theory Connection_Pool
  imports Asio_Types
begin

text \<open>
  \<open>connection_pool.cpp\<close>: the connections that are free, a stack of them for each host and port.  The locale
  \<open>handle_pool\<close> is what the request manager relies on: a connection is in one place only.
\<close>

section \<open>Connections\<close>

text \<open>
  The pointer to a connection's layers, as what it points to and never changes: its identity, the host
  and port given to \<open>http_content\<close>, and the settings its TLS layer was made with, if it has one.
\<close>

type_synonym host_port = "char list \<times> 16 word"

record http_stack =
  stack_id :: nat
  stack_host_port :: host_port
  stack_transport :: "ssl_settings option"

text \<open>\<open>operator[]\<close> makes an empty stack for a missing key, so the map is total; the top comes first.\<close>

record connection_pool =
  m_connection_pool :: "host_port \<Rightarrow> http_stack list"
  m_allocations :: "64 word"
  next_stack :: nat

definition new_connection_pool :: connection_pool where
  "new_connection_pool = \<lparr>m_connection_pool = (\<lambda>_. []), m_allocations = 0, next_stack = 0\<rparr>"

definition create_stack :: "url \<Rightarrow> ssl_settings \<Rightarrow> connection_pool \<Rightarrow> http_stack \<times> connection_pool" where
  "create_stack u ssl pool =
    (\<lparr>stack_id = next_stack pool, stack_host_port = (host u, port u),
      stack_transport = (if protocol u = ''https'' then Some ssl else None)\<rparr>,
     pool\<lparr>next_stack := next_stack pool + 1\<rparr>)"

definition get_connection :: "url \<Rightarrow> ssl_settings \<Rightarrow> connection_pool \<Rightarrow> http_stack \<times> connection_pool" where
  "get_connection u ssl pool =
    (let hp = (host u, port u) in
     case m_connection_pool pool hp of
       [] \<Rightarrow> (case create_stack u ssl pool of
                (h, pool) \<Rightarrow> (h, pool\<lparr>m_allocations := m_allocations pool + 1\<rparr>))
     | h # hs \<Rightarrow> (h, pool\<lparr>m_connection_pool := (m_connection_pool pool)(hp := hs)\<rparr>))"

definition release_connection :: "http_stack \<Rightarrow> bool \<Rightarrow> connection_pool \<Rightarrow> connection_pool" where
  "release_connection h clean_up pool =
    (let hp = stack_host_port h; p = m_connection_pool pool in
     pool\<lparr>m_connection_pool := p(hp := if clean_up then [] else h # p hp)\<rparr>)"

section \<open>The interface\<close>

text \<open>
  \<open>busy h\<close> counts what is under way on a connection.  A connection that is free has nothing under way, one
  that is not has one thing at most.
\<close>

definition exclusive :: "('h \<Rightarrow> nat) \<Rightarrow> ('h \<Rightarrow> nat) \<Rightarrow> ('h \<Rightarrow> bool) \<Rightarrow> bool" where
  "exclusive idle busy known \<longleftrightarrow> (\<forall>h. idle h + busy h \<le> 1 \<and> (0 < busy h \<longrightarrow> known h))"

locale handle_pool =
  fixes acquire :: "'k \<Rightarrow> 'p \<Rightarrow> 'h \<times> 'p" and give_back :: "'h \<Rightarrow> bool \<Rightarrow> 'p \<Rightarrow> 'p"
    and inv :: "'p \<Rightarrow> bool" and idle :: "'p \<Rightarrow> 'h \<Rightarrow> nat" and known :: "'p \<Rightarrow> 'h \<Rightarrow> bool"
  assumes idle_known: "inv p \<Longrightarrow> 0 < idle p h \<Longrightarrow> known p h"
    and acquire_inv: "inv p \<Longrightarrow> acquire k p = (h, p') \<Longrightarrow> inv p' \<and> known p' h"
    and acquire_known: "inv p \<Longrightarrow> acquire k p = (h, p') \<Longrightarrow> known p x \<Longrightarrow> known p' x"
    and acquire_idle: "inv p \<Longrightarrow> acquire k p = (h, p') \<Longrightarrow>
      (\<forall>x. x \<noteq> h \<longrightarrow> idle p' x = idle p x) \<and>
      (idle p h = Suc (idle p' h) \<or> \<not> known p h \<and> idle p' h = idle p h)"
    and give_back_inv: "inv p \<Longrightarrow> known p h \<Longrightarrow> inv (give_back h b p)"
    and give_back_known: "known (give_back h b p) x = known p x"
    and give_back_idle: "inv p \<Longrightarrow> idle (give_back h b p) x \<le> idle p x + (if x = h then 1 else 0)"
begin

lemma acquire_exclusive:
  assumes "inv p" "exclusive (idle p) busy (known p)" "acquire k p = (h, p')"
  shows "busy h = 0 \<and> exclusive (idle p') (busy(h := 1)) (known p')"
proof -
  have h: "idle p h = Suc (idle p' h) \<or> \<not> known p h \<and> idle p' h = idle p h"
    using acquire_idle [OF assms(1,3)] by blast
  have le: "idle p h + busy h \<le> 1" "0 < busy h \<longrightarrow> known p h"
    using assms(2) by (simp_all add: exclusive_def)
  have "busy h = 0 \<and> idle p' h = 0"
    using h le idle_known [OF assms(1), of h] by fastforce
  then show ?thesis
    using assms(2) acquire_inv [OF assms(1,3)] acquire_known [OF assms(1,3)] acquire_idle [OF assms(1,3)]
    by (auto simp: exclusive_def)
qed

lemma give_back_exclusive:
  assumes "inv p" "exclusive (idle p) busy (known p)" "0 < busy h"
  shows "inv (give_back h b p) \<and>
    exclusive (idle (give_back h b p)) (busy(h := busy h - 1)) (known (give_back h b p))"
proof -
  have h: "idle p h + busy h \<le> 1" "known p h"
    using assms(2,3) by (auto simp: exclusive_def)
  have "idle (give_back h b p) x + (busy(h := busy h - 1)) x \<le> 1 \<and>
      (0 < (busy(h := busy h - 1)) x \<longrightarrow> known p x)" for x
  proof (cases "x = h")
    case True
    then show ?thesis
      using h assms(3) give_back_idle [OF assms(1), of h b h] by simp
  next
    case False
    have "idle p x + busy x \<le> 1" "0 < busy x \<longrightarrow> known p x"
      using assms(2) by (simp_all add: exclusive_def)
    then show ?thesis
      using False give_back_idle [OF assms(1), of h b x] by simp
  qed
  then show ?thesis
    using give_back_inv [OF assms(1) h(2)] by (simp add: exclusive_def give_back_known)
qed

end

section \<open>The pool provides it\<close>

text \<open>A free connection is one of its host's stack.\<close>

definition pool_ok :: "connection_pool \<Rightarrow> bool" where
  "pool_ok pool \<longleftrightarrow> (\<forall>hp. \<forall>h \<in> set (m_connection_pool pool hp).
     stack_host_port h = hp \<and> stack_id h < next_stack pool)"

lemma pool_okD:
  "pool_ok pool \<Longrightarrow> h \<in> set (m_connection_pool pool hp) \<Longrightarrow>
    stack_host_port h = hp \<and> stack_id h < next_stack pool"
  unfolding pool_ok_def by blast

lemma pool_okI:
  "(\<And>hp h. h \<in> set (m_connection_pool pool hp) \<Longrightarrow> stack_host_port h = hp \<and> stack_id h < next_stack pool) \<Longrightarrow>
    pool_ok pool"
  unfolding pool_ok_def by blast

definition pool_idle :: "connection_pool \<Rightarrow> http_stack \<Rightarrow> nat" where
  "pool_idle pool h = count_list (m_connection_pool pool (stack_host_port h)) h"

definition pool_known :: "connection_pool \<Rightarrow> http_stack \<Rightarrow> bool" where
  "pool_known pool h \<longleftrightarrow> stack_id h < next_stack pool"

abbreviation get_connection' :: "url \<times> ssl_settings \<Rightarrow> connection_pool \<Rightarrow> http_stack \<times> connection_pool" where
  "get_connection' k \<equiv> get_connection (fst k) (snd k)"

lemma get_connection_cases:
  assumes "get_connection u ssl pool = (h, pool')"
  obtains (new) "m_connection_pool pool (host u, port u) = []" "stack_id h = next_stack pool"
      "stack_host_port h = (host u, port u)" "m_connection_pool pool' = m_connection_pool pool"
      "next_stack pool' = Suc (next_stack pool)"
  | (reused) hs where "m_connection_pool pool (host u, port u) = h # hs"
      "pool' = pool\<lparr>m_connection_pool := (m_connection_pool pool)((host u, port u) := hs)\<rparr>"
  using assms
  by (cases "m_connection_pool pool (host u, port u)")
    (auto simp: get_connection_def create_stack_def Let_def)

interpretation pool: handle_pool get_connection' release_connection pool_ok pool_idle pool_known
proof unfold_locales
  fix pool pool' :: connection_pool and h x :: http_stack and k :: "url \<times> ssl_settings" and b :: bool
  show "pool_known pool h" if "pool_ok pool" "0 < pool_idle pool h"
  proof -
    have "h \<in> set (m_connection_pool pool (stack_host_port h))"
      using that(2) count_list_0_iff [of "m_connection_pool pool (stack_host_port h)" h]
      by (auto simp: pool_idle_def)
    then show ?thesis
      using pool_okD [OF that(1)] unfolding pool_known_def by blast
  qed
  show "pool_ok pool' \<and> pool_known pool' h" if "pool_ok pool" "get_connection' k pool = (h, pool')"
    using that(2)
  proof (cases rule: get_connection_cases)
    case new
    have "pool_ok pool'"
      by (rule pool_okI) (use pool_okD [OF that(1)] new(4,5) less_SucI in \<open>metis\<close>)
    then show ?thesis
      using new by (simp add: pool_known_def)
  next
    case (reused hs)
    have "pool_ok pool'"
    proof (rule pool_okI)
      fix hp x assume "x \<in> set (m_connection_pool pool' hp)"
      then have "x \<in> set (m_connection_pool pool hp)"
        using reused by (simp split: if_splits)
      then show "stack_host_port x = hp \<and> stack_id x < next_stack pool'"
        using pool_okD [OF that(1)] reused(2) by fastforce
    qed
    moreover have "h \<in> set (m_connection_pool pool (host (fst k), port (fst k)))"
      using reused by simp
    ultimately show ?thesis
      using reused(2) pool_okD [OF that(1), of h] by (simp add: pool_known_def)
  qed
  show "pool_known pool' x" if "pool_ok pool" "get_connection' k pool = (h, pool')" "pool_known pool x"
    using that(2) by (cases rule: get_connection_cases) (use that(3) in \<open>simp_all add: pool_known_def\<close>)
  show "(\<forall>x. x \<noteq> h \<longrightarrow> pool_idle pool' x = pool_idle pool x) \<and>
      (pool_idle pool h = Suc (pool_idle pool' h) \<or> \<not> pool_known pool h \<and> pool_idle pool' h = pool_idle pool h)"
    if "pool_ok pool" "get_connection' k pool = (h, pool')"
    using that(2)
  proof (cases rule: get_connection_cases)
    case new
    then show ?thesis
      by (simp add: pool_idle_def pool_known_def)
  next
    case (reused hs)
    have "stack_host_port h = (host (fst k), port (fst k))"
      using reused(1) pool_okD [OF that(1), of h "(host (fst k), port (fst k))"] by simp
    then show ?thesis
      using reused by (auto simp: pool_idle_def)
  qed
  show "pool_ok (release_connection h b pool)" if "pool_ok pool" "pool_known pool h"
  proof (rule pool_okI)
    fix hp x assume "x \<in> set (m_connection_pool (release_connection h b pool) hp)"
    then have "x \<in> set (m_connection_pool pool hp) \<or> x = h \<and> hp = stack_host_port h"
      by (auto simp: release_connection_def Let_def split: if_splits)
    then show "stack_host_port x = hp \<and> stack_id x < next_stack (release_connection h b pool)"
      using pool_okD [OF that(1)] that(2) by (fastforce simp: release_connection_def Let_def pool_known_def)
  qed
  show "pool_known (release_connection h b pool) x = pool_known pool x"
    by (simp add: pool_known_def release_connection_def Let_def)
  show "pool_idle (release_connection h b pool) x \<le> pool_idle pool x + (if x = h then 1 else 0)"
    if "pool_ok pool"
    by (simp add: pool_idle_def release_connection_def Let_def)
qed

lemma new_pool: "pool_ok new_connection_pool" "pool_idle new_connection_pool h = 0"
  by (rule pool_okI) (simp_all add: pool_idle_def new_connection_pool_def)

section \<open>Property\<close>

text \<open>
  C31: A connection that is given back without an error is the next one handed out for its host and port, and
  the pool is then as it was; after an error it is not handed out again, nor is any other that was free for
  that host and port, but a new one is made.  What is handed out again is chosen by host and port alone: for a URL
  of any protocol and for any certificates.
\<close>

theorem released_connection_reused:
  assumes "stack_host_port h = (host u, port u)"
  shows "get_connection u ssl (release_connection h False pool) = (h, pool) \<and>
    (\<exists>h' pool'. get_connection u ssl (release_connection h True pool) = (h', pool') \<and>
       stack_id h' = next_stack pool \<and> stack_host_port h' = (host u, port u) \<and>
       stack_transport h' = (if protocol u = ''https'' then Some ssl else None) \<and>
       m_connection_pool pool' (host u, port u) = [] \<and>
       (\<forall>hp. hp = (host u, port u) \<or> m_connection_pool pool' hp = m_connection_pool pool hp))"
  using assms by (simp add: get_connection_def release_connection_def create_stack_def Let_def)

text \<open>A connection with TLS and a certificate of its own, handed out for a URL without TLS.\<close>

definition example_stack :: http_stack where
  "example_stack = \<lparr>stack_id = 0, stack_host_port = (''any.host.com'', 1234),
     stack_transport = Some \<lparr>client_private_key_file = ''key'', client_certificate_file = ''cert'',
       certificate_authority_bundle_file = []\<rparr>\<rparr>"

definition plain_page :: url where
  "plain_page = example_page\<lparr>protocol := ''http''\<rparr>"

definition no_certificates :: ssl_settings where
  "no_certificates = \<lparr>client_private_key_file = [], client_certificate_file = [],
     certificate_authority_bundle_file = []\<rparr>"

theorem released_connection_reused_witness:
  "get_connection plain_page no_certificates (release_connection example_stack False new_connection_pool) =
      (example_stack, new_connection_pool) \<and>
    (\<exists>h' pool'. get_connection plain_page no_certificates (release_connection example_stack True new_connection_pool) =
        (h', pool') \<and>
       stack_id h' = next_stack new_connection_pool \<and> stack_host_port h' = (host plain_page, port plain_page) \<and>
       stack_transport h' = (if protocol plain_page = ''https'' then Some no_certificates else None) \<and>
       m_connection_pool pool' (host plain_page, port plain_page) = [] \<and>
       (\<forall>hp. hp = (host plain_page, port plain_page) \<or>
          m_connection_pool pool' hp = m_connection_pool new_connection_pool hp))"
  by (rule released_connection_reused) (simp add: example_stack_def plain_page_def example_page_def)

end
