(* ===== verification/Request_Manager.thy ===== *)
theory Request_Manager
  imports Connection_Pool Error_Handling "HOL-Library.Product_Lexorder" "HOL-Library.List_Lexorder"
    "HOL-Library.Char_ord"
begin

text \<open>
  \<open>request_manager.cpp\<close>, \<open>request_data.h\<close> and \<open>http_client.cpp\<close>: the requests of a client, from the call of the
  application to the call of its handler.  All of it runs on one strand; what a handler posts on that
  strand, hands to the application or calls on a connection is appended to lists.
\<close>

section \<open>Requests\<close>

datatype request_state = waiting_retry | waiting | in_progress

text \<open>The order of the enumeration, which keeps pending requests in front.\<close>

primrec request_state_num :: "request_state \<Rightarrow> nat" where
  "request_state_num waiting_retry = 0"
| "request_state_num waiting = 1"
| "request_state_num in_progress = 2"

lemma request_state_num_eq: "request_state_num a = request_state_num b \<longleftrightarrow> a = b"
  by (cases a; cases b) simp_all

instantiation request_state :: linorder
begin

definition less_eq_request_state :: "request_state \<Rightarrow> request_state \<Rightarrow> bool" where
  "less_eq_request_state a b \<longleftrightarrow> request_state_num a \<le> request_state_num b"

definition less_request_state :: "request_state \<Rightarrow> request_state \<Rightarrow> bool" where
  "less_request_state a b \<longleftrightarrow> request_state_num a < request_state_num b"

instance
  by standard (auto simp: less_eq_request_state_def less_request_state_def request_state_num_eq)

end

text \<open>
  A completion handler is a number, its own for every request, which also stands for the request's place
  in the container.
\<close>

record request_data =
  m_request_state :: request_state
  m_connection :: "http_stack option"
  m_http_request :: http_request
  m_completion_handler :: nat
  m_cancellation_token :: "char list"
  m_creation_time :: nat
  m_retries :: "32 word"

definition new_request_data :: "http_request \<Rightarrow> nat \<Rightarrow> char list \<Rightarrow> nat \<Rightarrow> request_data" where
  "new_request_data req handler token now =
    \<lparr>m_request_state = waiting, m_connection = None, m_http_request = req, m_completion_handler = handler,
     m_cancellation_token = token, m_creation_time = now, m_retries = 0\<rparr>"

section \<open>The container\<close>

text \<open>
  The requests in the order they were put in; its three indices are views.  Among requests equal in an index the
  order is that of the list (for two that wait to be retried and were created at the same tick of the
  clock the container may order them otherwise).
\<close>

type_synonym request_list = "request_data list"

definition index_state_begin :: "request_list \<Rightarrow> request_data option" where
  "index_state_begin rs =
    (case sort_key (\<lambda>r. (m_request_state r, m_creation_time r)) rs of [] \<Rightarrow> None | r # _ \<Rightarrow> Some r)"

definition index_state_count :: "request_state \<Rightarrow> request_list \<Rightarrow> nat" where
  "index_state_count st rs = length (filter (\<lambda>r. m_request_state r = st) rs)"

definition index_connection_find :: "http_stack \<Rightarrow> request_list \<Rightarrow> request_data option" where
  "index_connection_find h rs = find (\<lambda>r. m_connection r = Some h) rs"

definition index_cancellation :: "request_list \<Rightarrow> request_list" where
  "index_cancellation rs = sort_key m_cancellation_token rs"

definition modify :: "request_data \<Rightarrow> (request_data \<Rightarrow> request_data) \<Rightarrow> request_list \<Rightarrow> request_list" where
  "modify r f rs = map (\<lambda>x. if m_completion_handler x = m_completion_handler r then f x else x) rs"

definition erase :: "request_data \<Rightarrow> request_list \<Rightarrow> request_list" where
  "erase r rs = filter (\<lambda>x. m_completion_handler x \<noteq> m_completion_handler r) rs"

section \<open>The manager\<close>

datatype conn_call = Start_async http_request | Cancel_async

datatype manager_task =
    Execute_request request_data | Cancel_requests "char list"
  | On_request_completed http_result_data http_stack error_code | Execute_waiting_requests

record request_manager =
  m_settings :: http_client_settings
  m_pool :: connection_pool
  m_requests :: request_list
  strand :: "manager_task list"
  invoked :: "(nat \<times> http_request_result) list"
  calls :: "(http_stack \<times> conn_call) list"

definition new_request_manager :: "http_client_settings \<Rightarrow> request_manager" where
  "new_request_manager settings =
    \<lparr>m_settings = settings, m_pool = new_connection_pool, m_requests = [], strand = [], invoked = [], calls = []\<rparr>"

definition post_task :: "manager_task \<Rightarrow> request_manager \<Rightarrow> request_manager" where
  "post_task t m = m\<lparr>strand := strand m @ [t]\<rparr>"

definition invoke_handler :: "request_data \<Rightarrow> http_request_result \<Rightarrow> request_manager \<Rightarrow> request_manager" where
  "invoke_handler r result m = m\<lparr>invoked := invoked m @ [(m_completion_handler r, result)]\<rparr>"

definition execute_waiting_requests :: "request_manager \<Rightarrow> request_manager" where
  "execute_waiting_requests m =
    (let active = index_state_count in_progress (m_requests m) in
     case index_state_begin (m_requests m) of
       None \<Rightarrow> m
     | Some r \<Rightarrow>
         if active < unat (max_parallel_requests (m_settings m)) \<and> m_request_state r \<noteq> in_progress then
           (case get_connection (m_url (m_http_request r)) (m_certificates (m_http_request r)) (m_pool m) of
              (h, pool) \<Rightarrow>
                m\<lparr>m_pool := pool,
                  m_requests := modify r (\<lambda>x. x\<lparr>m_connection := Some h, m_request_state := in_progress\<rparr>) (m_requests m),
                  calls := calls m @ [(h, Start_async (m_http_request r))]\<rparr>)
         else m)"

definition execute_request :: "request_data \<Rightarrow> request_manager \<Rightarrow> request_manager" where
  "execute_request r m = execute_waiting_requests (m\<lparr>m_requests := m_requests m @ [r]\<rparr>)"

definition handle_completed_request ::
  "request_data \<Rightarrow> http_request_result \<Rightarrow> request_manager \<Rightarrow> request_manager" where
  "handle_completed_request r result m =
    (let m = invoke_handler r result m;
         m = m\<lparr>m_requests := erase r (m_requests m)\<rparr>
     in post_task Execute_waiting_requests m)"

text \<open>\<open>junk\<close> is the response code that the constructor of the result leaves uninitialised.\<close>

definition cancel_request :: "nat \<Rightarrow> request_data \<Rightarrow> request_manager \<Rightarrow> request_manager" where
  "cancel_request junk r m =
    (case m_connection r of
       Some h \<Rightarrow> m\<lparr>calls := calls m @ [(h, Cancel_async)]\<rparr>
     | None \<Rightarrow> handle_completed_request r (error_result junk operation_aborted) m)"

definition cancel_requests :: "nat \<Rightarrow> char list \<Rightarrow> request_manager \<Rightarrow> request_manager" where
  "cancel_requests junk token m =
    (let index = index_cancellation (m_requests m);
         from_it = (if token = [] then index else dropWhile (\<lambda>r. m_cancellation_token r \<noteq> token) index)
     in fold (cancel_request junk) from_it m)"

text \<open>
  The exception of the URL of a redirection leaves the handler after the connection was given back; \<open>None\<close> is the read
  through a null pointer in \<open>process_errors\<close>.
\<close>

definition on_request_completed ::
  "(char list \<Rightarrow> 16 word option) \<Rightarrow> http_result_data \<Rightarrow> http_stack \<Rightarrow> error_code \<Rightarrow> request_manager \<Rightarrow>
    (url_error option \<times> request_manager) option" where
  "on_request_completed cast result h ec m =
    (let m = m\<lparr>m_pool := release_connection h (is_error ec) (m_pool m)\<rparr> in
     case index_connection_find h (m_requests m) of
       None \<Rightarrow> Some (None, m)
     | Some r \<Rightarrow>
         (case process_errors cast ec result of
            None \<Rightarrow> None
          | Some (Inl e) \<Rightarrow> Some (Some e, m)
          | Some (Inr (again, new_request)) \<Rightarrow>
              if again \<and> m_retries r < max_attempts (m_settings m) then
                let m = m\<lparr>m_requests := modify r (\<lambda>x. x
                    \<lparr>m_http_request := (case new_request of Some req \<Rightarrow> req | None \<Rightarrow> m_http_request x),
                     m_connection := None, m_request_state := waiting_retry, m_retries := m_retries x + 1\<rparr>)
                  (m_requests m)\<rparr>
                in Some (None, post_task Execute_waiting_requests m)
              else Some (None, handle_completed_request r (create_request_result result ec) m)))"

text \<open>A task of the strand.\<close>

fun run_task :: "(char list \<Rightarrow> 16 word option) \<Rightarrow> nat \<Rightarrow> manager_task \<Rightarrow> request_manager \<Rightarrow>
    (url_error option \<times> request_manager) option" where
  "run_task cast junk (Execute_request r) m = Some (None, execute_request r m)"
| "run_task cast junk (Cancel_requests token) m = Some (None, cancel_requests junk token m)"
| "run_task cast junk (On_request_completed result h ec) m = on_request_completed cast result h ec m"
| "run_task cast junk Execute_waiting_requests m = Some (None, execute_waiting_requests m)"

section \<open>The client\<close>

definition client_execute_request :: "http_request \<Rightarrow> nat \<Rightarrow> char list \<Rightarrow> nat \<Rightarrow> request_manager \<Rightarrow> request_manager" where
  "client_execute_request req handler token now m =
    post_task (Execute_request (new_request_data req handler token now)) m"

definition client_cancel_requests :: "char list \<Rightarrow> request_manager \<Rightarrow> request_manager" where
  "client_cancel_requests token m = post_task (Cancel_requests token) m"

definition client_destroy :: "request_manager \<Rightarrow> request_manager" where
  "client_destroy m = client_cancel_requests [] m"

end
