(* ===== verification/Manager_Laws.thy ===== *)
theory Manager_Laws
  imports Request_Manager "HOL-Library.Multiset"
begin

text \<open>
  What the request manager promises to the application, for any calls, any cancellations and any
  completions that connections may report: the limits of the settings hold, every request is
  accounted for, and no request waits while a connection could take it.
\<close>

section \<open>The container\<close>

definition handlers :: "request_list \<Rightarrow> nat list" where
  "handlers rs = map m_completion_handler rs"

definition pending :: "request_list \<Rightarrow> nat" where
  "pending rs = length (filter (\<lambda>r. m_request_state r \<noteq> in_progress) rs)"

lemma counts_simps [simp]:
  "handlers [] = []" "handlers (r # rs) = m_completion_handler r # handlers rs"
  "handlers (rs @ rs') = handlers rs @ handlers rs'"
  "pending [] = 0" "pending (r # rs) = (if m_request_state r = in_progress then 0 else 1) + pending rs"
  "pending (rs @ rs') = pending rs + pending rs'"
  "index_state_count st [] = 0"
  "index_state_count st (r # rs) = (if m_request_state r = st then 1 else 0) + index_state_count st rs"
  "index_state_count st (rs @ rs') = index_state_count st rs + index_state_count st rs'"
  by (simp_all add: handlers_def pending_def index_state_count_def)

lemma split_requests:
  assumes "r \<in> set rs" "distinct (handlers rs)"
  obtains xs ys where "rs = xs @ r # ys" "\<And>f. modify r f rs = xs @ f r # ys" "erase r rs = xs @ ys"
proof -
  obtain xs ys where rs: "rs = xs @ r # ys"
    using assms(1) by (meson split_list)
  have other: "m_completion_handler x \<noteq> m_completion_handler r" if "x \<in> set xs \<union> set ys" for x
    using assms(2) that by (auto simp: rs handlers_def image_iff)
  have "modify r f xs = xs" "modify r f ys = ys" "erase r xs = xs" "erase r ys = ys" for f
    using other by (auto simp: modify_def erase_def intro!: map_idI filter_True)
  then have "modify r f rs = xs @ f r # ys" "erase r rs = xs @ ys" for f
    unfolding rs by (simp_all add: modify_def erase_def)
  then show ?thesis
    using that rs by blast
qed

lemma index_state_begin_None: "index_state_begin rs = None \<longleftrightarrow> rs = []"
  by (auto simp: index_state_begin_def split: list.splits)
    (metis length_0_conv length_sort)

lemma index_state_begin_Some:
  assumes "index_state_begin rs = Some r"
  shows "r \<in> set rs" "x \<in> set rs \<Longrightarrow> m_request_state r \<le> m_request_state x"
proof -
  let ?k = "\<lambda>r. (m_request_state r, m_creation_time r)"
  obtain rest where s: "sort_key ?k rs = r # rest"
    using assms by (auto simp: index_state_begin_def split: list.splits)
  have "set (r # rest) = set rs"
    unfolding s [symmetric] by simp
  then show "r \<in> set rs"
    by auto
  have "sorted (map ?k (r # rest))"
    unfolding s [symmetric] by simp
  then show "m_request_state r \<le> m_request_state x" if "x \<in> set rs"
    using that \<open>set (r # rest) = set rs\<close> by (auto simp: less_eq_prod_def dest: less_imp_le)
qed

lemma begin_in_progress:
  assumes "index_state_begin rs = Some r" "m_request_state r = in_progress"
  shows "pending rs = 0"
proof -
  have "m_request_state x = in_progress" if "x \<in> set rs" for x
    using index_state_begin_Some(2) [OF assms(1) that] assms(2)
    by (cases "m_request_state x") (simp_all add: less_eq_request_state_def)
  then show ?thesis
    by (simp add: pending_def)
qed

section \<open>The invariant\<close>

definition good_request :: "http_client_settings \<Rightarrow> request_data \<Rightarrow> bool" where
  "good_request settings r \<longleftrightarrow> m_retries r \<le> max_attempts settings \<and>
     (m_request_state r = in_progress \<longleftrightarrow> m_connection r \<noteq> None)"

text \<open>No request waits while a connection could take it, but for what is posted already.\<close>

definition scheduled :: "nat \<Rightarrow> request_list \<Rightarrow> nat \<Rightarrow> bool" where
  "scheduled cap rs posted \<longleftrightarrow> cap \<le> index_state_count in_progress rs + posted \<or> pending rs \<le> posted"

definition parallel_cap :: "request_manager \<Rightarrow> nat" where
  "parallel_cap m = unat (max_parallel_requests (m_settings m))"

definition manager_ok :: "nat list \<Rightarrow> nat \<Rightarrow> request_manager \<Rightarrow> bool" where
  "manager_ok hs posted m \<longleftrightarrow>
     index_state_count in_progress (m_requests m) \<le> parallel_cap m \<and>
     list_all (good_request (m_settings m)) (m_requests m) \<and>
     mset hs = mset (handlers (m_requests m)) + mset (map fst (invoked m)) \<and> distinct hs \<and>
     scheduled (parallel_cap m) (m_requests m) posted"

lemma manager_ok_distinct: "manager_ok hs posted m \<Longrightarrow> distinct (handlers (m_requests m))"
  by (metis manager_ok_def distinct_append mset_append mset_eq_imp_distinct_iff)

lemma waiting_ok:
  assumes "manager_ok hs (Suc posted) m"
  shows "manager_ok hs posted (execute_waiting_requests m)"
proof (cases "index_state_begin (m_requests m)")
  case None
  then have "execute_waiting_requests m = m" "m_requests m = []"
    by (simp_all add: execute_waiting_requests_def index_state_begin_None [symmetric])
  then show ?thesis
    using assms by (simp add: manager_ok_def scheduled_def)
next
  case (Some r)
  show ?thesis
  proof (cases "index_state_count in_progress (m_requests m) < parallel_cap m \<and> m_request_state r \<noteq> in_progress")
    case False
    then have "execute_waiting_requests m = m"
      using Some by (auto simp: execute_waiting_requests_def parallel_cap_def Let_def)
    then show ?thesis
      using assms False begin_in_progress [OF Some] by (auto simp: manager_ok_def scheduled_def)
  next
    case True
    obtain h pool where h: "get_connection (m_url (m_http_request r)) (m_certificates (m_http_request r)) (m_pool m) =
        (h, pool)"
      by fastforce
    obtain xs ys where split: "m_requests m = xs @ r # ys" "\<And>f. modify r f (m_requests m) = xs @ f r # ys"
      using split_requests [OF index_state_begin_Some(1) [OF Some] manager_ok_distinct [OF assms]] by blast
    have "execute_waiting_requests m = m\<lparr>m_pool := pool,
        m_requests := xs @ r\<lparr>m_connection := Some h, m_request_state := in_progress\<rparr> # ys,
        calls := calls m @ [(h, Start_async (m_http_request r))]\<rparr>"
      using Some True h split(2) by (simp add: execute_waiting_requests_def parallel_cap_def)
    then show ?thesis
      using assms True
      by (auto simp: manager_ok_def parallel_cap_def split(1) scheduled_def good_request_def)
  qed
qed

lemma new_request_ok:
  assumes "manager_ok hs posted m" "m_completion_handler r \<notin> set hs" "m_request_state r = waiting"
    "m_connection r = None" "m_retries r = 0"
  shows "manager_ok (hs @ [m_completion_handler r]) (Suc posted) (m\<lparr>m_requests := m_requests m @ [r]\<rparr>)"
  using assms by (auto simp: manager_ok_def parallel_cap_def scheduled_def good_request_def)

lemma completed_ok:
  assumes "manager_ok hs posted m" "r \<in> set (m_requests m)"
  shows "manager_ok hs (Suc posted) (handle_completed_request r result m)"
proof -
  obtain xs ys where "m_requests m = xs @ r # ys" "erase r (m_requests m) = xs @ ys"
    using split_requests [OF assms(2) manager_ok_distinct [OF assms(1)]] by blast
  then show ?thesis
    using assms(1)
    by (auto simp: manager_ok_def parallel_cap_def scheduled_def handle_completed_request_def
        invoke_handler_def post_task_def Let_def split: if_splits)
qed

lemma retry_ok:
  assumes "manager_ok hs posted m" "r \<in> set (m_requests m)" "m_retries r < max_attempts (m_settings m)"
    and "\<And>x. m_completion_handler (f x) = m_completion_handler x" "m_request_state (f r) = waiting_retry"
    and "m_connection (f r) = None" "m_retries (f r) = m_retries r + 1"
  shows "manager_ok hs (Suc posted) (m\<lparr>m_requests := modify r f (m_requests m)\<rparr>)"
proof -
  obtain xs ys where "m_requests m = xs @ r # ys" "modify r f (m_requests m) = xs @ f r # ys"
    using split_requests [OF assms(2) manager_ok_distinct [OF assms(1)]] by blast
  moreover have "m_retries r + 1 \<le> max_attempts (m_settings m)"
    using assms(3) inc_le by blast
  ultimately show ?thesis
    using assms(1,4-7)
    by (auto simp: manager_ok_def parallel_cap_def scheduled_def good_request_def split: if_splits)
qed

lemma manager_ok_upd [simp]:
  "manager_ok hs n (m\<lparr>m_pool := p\<rparr>) = manager_ok hs n m"
  "manager_ok hs n (m\<lparr>strand := ts\<rparr>) = manager_ok hs n m"
  "manager_ok hs n (m\<lparr>calls := cs\<rparr>) = manager_ok hs n m"
  "manager_ok hs n (post_task t m) = manager_ok hs n m"
  by (simp_all add: manager_ok_def parallel_cap_def post_task_def)

section \<open>Tasks\<close>

text \<open>A step keeps the invariant, with what it posts added to what was posted.\<close>

definition posts_waiting :: "nat list \<Rightarrow> nat \<Rightarrow> request_manager \<Rightarrow> request_manager \<Rightarrow> bool" where
  "posts_waiting hs posted m m' \<longleftrightarrow> m_settings m' = m_settings m \<and>
     (\<exists>k. manager_ok hs (posted + k) m' \<and> strand m' = strand m @ replicate k Execute_waiting_requests)"

lemma cancel_request_simps:
  "m_connection r = Some h \<Longrightarrow> cancel_request junk r m = m\<lparr>calls := calls m @ [(h, Cancel_async)]\<rparr>"
  "m_connection r = None \<Longrightarrow>
    cancel_request junk r m = handle_completed_request r (error_result junk operation_aborted) m"
  by (simp_all add: cancel_request_def)

lemma fold_cancel:
  "invoked (fold (cancel_request junk) rs m) = invoked m @
     map (\<lambda>r. (m_completion_handler r, error_result junk operation_aborted)) (filter (\<lambda>r. m_connection r = None) rs)"
  "calls (fold (cancel_request junk) rs m) = calls m @
     map (\<lambda>r. (the (m_connection r), Cancel_async)) (filter (\<lambda>r. m_connection r \<noteq> None) rs)"
  by (induction rs arbitrary: m)
    (auto simp: cancel_request_def handle_completed_request_def invoke_handler_def post_task_def Let_def
      split: option.splits)

lemma cancel_posts:
  assumes "manager_ok hs posted m" "set rs \<subseteq> set (m_requests m)" "distinct (handlers rs)"
  shows "posts_waiting hs posted m (fold (cancel_request junk) rs m)"
  using assms
proof (induction rs arbitrary: posted m)
  case Nil
  then show ?case
    unfolding posts_waiting_def by (auto intro: exI [of _ 0])
next
  case (Cons r rs)
  have r: "r \<in> set (m_requests m)" "m_completion_handler r \<notin> set (handlers rs)" "distinct (handlers rs)"
    using Cons.prems(2,3) by auto
  show ?case
  proof (cases "m_connection r")
    case (Some h)
    then have "posts_waiting hs posted (cancel_request junk r m) (fold (cancel_request junk) rs (cancel_request junk r m))"
      using Cons.prems by (intro Cons.IH) (simp_all add: cancel_request_simps)
    then show ?thesis
      using Some by (simp add: cancel_request_simps posts_waiting_def)
  next
    case None
    let ?m = "handle_completed_request r (error_result junk operation_aborted) m"
    have "m_completion_handler x \<noteq> m_completion_handler r" if "x \<in> set rs" for x
      using r(2) that by (auto simp: handlers_def image_iff)
    then have "set rs \<subseteq> set (m_requests ?m)"
      using Cons.prems(2) by (auto simp: handle_completed_request_def erase_def invoke_handler_def post_task_def Let_def)
    then have "posts_waiting hs (Suc posted) ?m (fold (cancel_request junk) rs ?m)"
      using completed_ok [OF Cons.prems(1) r(1)] r(3) by (intro Cons.IH)
    then obtain k where "m_settings (fold (cancel_request junk) rs ?m) = m_settings m"
        "manager_ok hs (posted + Suc k) (fold (cancel_request junk) rs ?m)"
        "strand (fold (cancel_request junk) rs ?m) = strand m @ replicate (Suc k) Execute_waiting_requests"
      by (auto simp: posts_waiting_def handle_completed_request_def invoke_handler_def post_task_def Let_def)
    then show ?thesis
      using None unfolding posts_waiting_def by (auto simp: cancel_request_simps simp del: replicate_Suc)
  qed
qed

lemma index_cancellation_set: "set (index_cancellation rs) = set rs"
  "distinct (handlers rs) \<Longrightarrow> distinct (handlers (index_cancellation rs))"
  by (simp_all add: index_cancellation_def handlers_def distinct_map inj_on_def)

lemma handlers_dropWhile: "distinct (handlers rs) \<Longrightarrow> distinct (handlers (dropWhile P rs))"
  by (simp add: handlers_def distinct_map inj_on_def) (meson set_dropWhileD)

lemma cancel_requests_posts:
  assumes "manager_ok hs posted m"
  shows "posts_waiting hs posted m (cancel_requests junk token m)"
proof -
  let ?index = "index_cancellation (m_requests m)"
  let ?rs = "if token = [] then ?index else dropWhile (\<lambda>r. m_cancellation_token r \<noteq> token) ?index"
  have d: "distinct (handlers ?index)" "set ?index = set (m_requests m)"
    using index_cancellation_set manager_ok_distinct [OF assms] by auto
  have "posts_waiting hs posted m (fold (cancel_request junk) ?rs m)"
    using d handlers_dropWhile [OF d(1)] set_dropWhileD
    by (intro cancel_posts [OF assms]) (fastforce split: if_splits)+
  then show ?thesis
    by (simp add: cancel_requests_def Let_def)
qed

lemma on_request_completed_posts:
  assumes "manager_ok hs posted m" "on_request_completed cast result h ec m = Some (thrown, m')"
  shows "posts_waiting hs posted m m'"
proof (cases "index_connection_find h (m_requests m)")
  case None
  then show ?thesis
    using assms unfolding posts_waiting_def by (auto simp: on_request_completed_def intro!: exI [of _ 0])
next
  case (Some r)
  then have r: "r \<in> set (m_requests m)"
    by (auto simp: index_connection_find_def find_Some_iff)
  let ?m = "m\<lparr>m_pool := release_connection h (is_error ec) (m_pool m)\<rparr>"
  have ok: "manager_ok hs posted ?m" "r \<in> set (m_requests ?m)"
    using assms(1) r by simp_all
  let ?f = "\<lambda>new x. x\<lparr>m_http_request := (case new of Some req \<Rightarrow> req | None \<Rightarrow> m_http_request x),
    m_connection := None, m_request_state := waiting_retry, m_retries := m_retries x + 1\<rparr>"
  consider (threw) "m' = ?m"
    | (again) new where "m_retries r < max_attempts (m_settings ?m)"
        "m' = post_task Execute_waiting_requests (?m\<lparr>m_requests := modify r (?f new) (m_requests ?m)\<rparr>)"
    | (over) "m' = handle_completed_request r (create_request_result result ec) ?m"
    using assms(2) Some by (auto simp: on_request_completed_def Let_def split: option.splits sum.splits if_splits)
  then show ?thesis
  proof cases
    case threw
    then show ?thesis
      using assms(1) unfolding posts_waiting_def by (auto intro!: exI [of _ 0])
  next
    case again
    have "manager_ok hs (Suc posted) (?m\<lparr>m_requests := modify r (?f new) (m_requests ?m)\<rparr>)"
      by (rule retry_ok [OF ok again(1)]) simp_all
    then show ?thesis
      unfolding posts_waiting_def again(2) by (auto simp: post_task_def intro!: exI [of _ 1])
  next
    case over
    then show ?thesis
      using completed_ok [OF ok] unfolding posts_waiting_def over
      by (auto simp: post_task_def handle_completed_request_def invoke_handler_def Let_def intro!: exI [of _ 1])
  qed
qed

section \<open>Runs\<close>

text \<open>
  Calls of the application, completions reported by connections (any, for any connection), and the tasks
  of the strand in the order they were posted.  \<open>hs\<close> are the handlers of the requests the application has made.
\<close>

inductive manager_reach ::
  "(char list \<Rightarrow> 16 word option) \<Rightarrow> nat \<Rightarrow> http_client_settings \<Rightarrow> nat list \<Rightarrow> request_manager \<Rightarrow> bool"
  for cast junk settings where
  start: "manager_reach cast junk settings [] (new_request_manager settings)"
| execute: "manager_reach cast junk settings hs m \<Longrightarrow> handler \<notin> set hs \<Longrightarrow>
    manager_reach cast junk settings (hs @ [handler]) (client_execute_request req handler token now m)"
| cancel: "manager_reach cast junk settings hs m \<Longrightarrow>
    manager_reach cast junk settings hs (client_cancel_requests token m)"
| completed: "manager_reach cast junk settings hs m \<Longrightarrow>
    manager_reach cast junk settings hs (post_task (On_request_completed result h ec) m)"
| task: "manager_reach cast junk settings hs m \<Longrightarrow> strand m = t # ts \<Longrightarrow>
    run_task cast junk t (m\<lparr>strand := ts\<rparr>) = Some (thrown, m') \<Longrightarrow> manager_reach cast junk settings hs m'"

definition queued :: "manager_task list \<Rightarrow> request_list" where
  "queued ts = concat (map (\<lambda>t. case t of Execute_request r \<Rightarrow> [r] | _ \<Rightarrow> []) ts)"

definition posted_waiting :: "manager_task list \<Rightarrow> nat" where
  "posted_waiting ts = length (filter (\<lambda>t. t = Execute_waiting_requests) ts)"

lemma queued_simps [simp]:
  "queued [] = []" "queued (t # ts) = (case t of Execute_request r \<Rightarrow> [r] | _ \<Rightarrow> []) @ queued ts"
  "queued (ts @ ts') = queued ts @ queued ts'" "queued (replicate k Execute_waiting_requests) = []"
  by (simp_all add: queued_def)

lemma posted_waiting_simps [simp]:
  "posted_waiting [] = 0"
  "posted_waiting (t # ts) = (if t = Execute_waiting_requests then 1 else 0) + posted_waiting ts"
  "posted_waiting (ts @ ts') = posted_waiting ts + posted_waiting ts'"
  "posted_waiting (replicate k Execute_waiting_requests) = k"
  by (simp_all add: posted_waiting_def)

definition fresh_request :: "request_data \<Rightarrow> bool" where
  "fresh_request r \<longleftrightarrow> m_request_state r = waiting \<and> m_connection r = None \<and> m_retries r = 0"

definition reach_ok :: "http_client_settings \<Rightarrow> nat list \<Rightarrow> request_manager \<Rightarrow> bool" where
  "reach_ok settings hs m \<longleftrightarrow> m_settings m = settings \<and> distinct hs \<and> list_all fresh_request (queued (strand m)) \<and>
     (\<exists>hs'. mset hs = mset hs' + mset (handlers (queued (strand m))) \<and>
        manager_ok hs' (posted_waiting (strand m)) m)"

lemma post_task_ok:
  assumes "reach_ok settings hs m"
  shows "reach_ok settings hs (client_cancel_requests token m)"
    "reach_ok settings hs (post_task (On_request_completed result h ec) m)"
    "handler \<notin> set hs \<Longrightarrow> reach_ok settings (hs @ [handler]) (client_execute_request req handler token now m)"
  using assms unfolding reach_ok_def client_cancel_requests_def client_execute_request_def manager_ok_upd
  by (auto simp: post_task_def fresh_request_def new_request_data_def)

lemma posts_reach:
  assumes "posts_waiting hs' (posted_waiting ts) (m\<lparr>strand := ts\<rparr>) m'" "m_settings m = settings" "distinct hs"
    and "list_all fresh_request (queued ts)" "mset hs = mset hs' + mset (handlers (queued ts))"
  shows "reach_ok settings hs m'"
  using assms by (auto simp: posts_waiting_def reach_ok_def)

text \<open>The request whose insertion comes next is new to the manager.\<close>

lemma queued_head_ok:
  assumes "reach_ok settings hs m" "strand m = Execute_request r # ts"
  obtains hs' where "fresh_request r" "mset hs = mset (hs' @ [m_completion_handler r]) + mset (handlers (queued ts))"
    "manager_ok (hs' @ [m_completion_handler r]) (Suc (posted_waiting ts))
       (m\<lparr>strand := ts, m_requests := m_requests m @ [r]\<rparr>)"
proof -
  obtain hs' where ok: "manager_ok hs' (posted_waiting ts) (m\<lparr>strand := ts\<rparr>)"
      "mset hs = mset hs' + mset (handlers (queued (Execute_request r # ts)))" "distinct hs" "fresh_request r"
    using assms by (auto simp: reach_ok_def)
  then have "m_completion_handler r \<notin> set hs'"
    by (auto dest: mset_eq_imp_distinct_iff)
      (metis distinct.simps(2) distinct_append mset.simps(2) mset_append mset_eq_imp_distinct_iff
        union_mset_add_mset_left)
  then have "manager_ok (hs' @ [m_completion_handler r]) (Suc (posted_waiting ts))
      ((m\<lparr>strand := ts\<rparr>)\<lparr>m_requests := m_requests (m\<lparr>strand := ts\<rparr>) @ [r]\<rparr>)"
    using ok(4) by (intro new_request_ok [OF ok(1)]) (simp_all add: fresh_request_def)
  then show ?thesis
    using ok(2,4) by (intro that) simp_all
qed

lemma run_task_ok:
  assumes "reach_ok settings hs m" "strand m = t # ts" "run_task cast junk t (m\<lparr>strand := ts\<rparr>) = Some (thrown, m')"
  shows "reach_ok settings hs m'"
proof -
  let ?m = "m\<lparr>strand := ts\<rparr>"
  obtain hs' where ok: "manager_ok hs' (posted_waiting (t # ts)) ?m"
      "mset hs = mset hs' + mset (handlers (queued (t # ts)))" "m_settings m = settings" "distinct hs"
      "list_all fresh_request (queued (t # ts))"
    using assms(1,2) by (auto simp: reach_ok_def)
  have strand: "strand (execute_waiting_requests m) = strand m" "m_settings (execute_waiting_requests m) = m_settings m"
    for m by (auto simp: execute_waiting_requests_def Let_def split: option.splits prod.splits)
  show ?thesis
  proof (cases t)
    case (Execute_request r)
    then obtain hs1 where r: "mset hs = mset (hs1 @ [m_completion_handler r]) + mset (handlers (queued ts))"
        "manager_ok (hs1 @ [m_completion_handler r]) (Suc (posted_waiting ts)) (m\<lparr>strand := ts, m_requests := m_requests m @ [r]\<rparr>)"
      using queued_head_ok [OF assms(1)] assms(2) by metis
    have m': "m' = execute_waiting_requests (m\<lparr>strand := ts, m_requests := m_requests m @ [r]\<rparr>)"
      using assms(3) by (simp add: Execute_request execute_request_def)
    have "manager_ok (hs1 @ [m_completion_handler r]) (posted_waiting ts) m'"
      unfolding m' by (rule waiting_ok [OF r(2)])
    then have "posts_waiting (hs1 @ [m_completion_handler r]) (posted_waiting ts) ?m m'"
      using strand unfolding posts_waiting_def m' by (auto intro!: exI [of _ 0])
    then show ?thesis
      using posts_reach r(1) ok(3-5) by (simp add: Execute_request)
  next
    case (Cancel_requests token)
    then show ?thesis
      using posts_reach [OF cancel_requests_posts] ok assms(3) by auto
  next
    case (On_request_completed result h ec)
    then show ?thesis
      using posts_reach [OF on_request_completed_posts] ok assms(3) by auto
  next
    case Execute_waiting_requests
    then have "posts_waiting hs' (posted_waiting ts) ?m m'"
      using waiting_ok ok(1) assms(3) strand unfolding posts_waiting_def by (auto intro!: exI [of _ 0])
    then show ?thesis
      using posts_reach ok by (simp add: Execute_waiting_requests)
  qed
qed

lemma manager_reach_ok: "manager_reach cast junk settings hs m \<Longrightarrow> reach_ok settings hs m"
proof (induction rule: manager_reach.induct)
  case start
  show ?case
    by (simp add: reach_ok_def manager_ok_def new_request_manager_def scheduled_def)
qed (simp_all add: post_task_ok, blast intro: run_task_ok)

end
