(* ===== verification/Client_System.thy ===== *)
theory Client_System
  imports Connection_Laws Manager_Laws
begin

text \<open>
  The whole client: the request manager on its strand and every connection on its own.  What the
  manager calls on a connection is posted on the strand of that connection, and what a connection completes is
  posted on the strand of the manager.  Each side was proved right under an assumption about the other:
  the connection, that it is started only when it has no request pending; the manager, nothing.  Here the two
  are put together and the assumption is discharged.
\<close>

section \<open>State and steps\<close>

record client =
  manager :: request_manager
  conns :: "http_stack \<Rightarrow> http_parser \<times> stack"
  conn_strand :: "http_stack \<Rightarrow> conn_call list"

definition new_connection :: "nat \<Rightarrow> http_stack \<Rightarrow> http_parser \<times> stack" where
  "new_connection junk h = (http_parser_init zero_parser HTTP_RESPONSE,
     new_stack junk (stack_host_port h) (stack_transport h \<noteq> None))"

definition new_client :: "nat \<Rightarrow> http_client_settings \<Rightarrow> client" where
  "new_client junk settings =
    \<lparr>manager = new_request_manager settings, conns = new_connection junk, conn_strand = (\<lambda>_. [])\<rparr>"

primrec call_event :: "conn_call \<Rightarrow> conn_event" where
  "call_event (Start_async req) = Start req"
| "call_event Cancel_async = Cancel"

text \<open>The calls a task of the manager made, posted on the strands of their connections.\<close>

definition distribute :: "(http_stack \<times> conn_call) list \<Rightarrow> (http_stack \<Rightarrow> conn_call list) \<Rightarrow> http_stack \<Rightarrow> conn_call list" where
  "distribute cs q h = q h @ map snd (filter (\<lambda>c. fst c = h) cs)"

text \<open>The completions a handler of a connection made, posted on the strand of the manager.\<close>

definition reported :: "http_stack \<Rightarrow> stack \<Rightarrow> stack \<Rightarrow> manager_task list" where
  "reported h s s' = map (\<lambda>(r, ec). On_request_completed r h ec) (drop (length (completions s)) (completions s'))"

definition after_task :: "request_manager \<Rightarrow> client \<Rightarrow> client" where
  "after_task m c = c\<lparr>manager := m,
     conn_strand := distribute (drop (length (calls (manager c))) (calls m)) (conn_strand c)\<rparr>"

definition after_handler :: "http_stack \<Rightarrow> http_parser \<times> stack \<Rightarrow> client \<Rightarrow> client" where
  "after_handler h x c = c\<lparr>conns := (conns c)(h := x),
     manager := fold post_task (reported h (snd (conns c h)) (snd x)) (manager c)\<rparr>"

text \<open>
  The flag tells whether a handler of the manager has thrown; the exception leaves \<open>io_context::run\<close>, and
  an application that calls \<open>run\<close> again goes on from there.
\<close>

inductive client_reach ::
  "'z zlib \<Rightarrow> (char list \<Rightarrow> 16 word option) \<Rightarrow> nat \<Rightarrow> http_client_settings \<Rightarrow> nat list \<Rightarrow> bool \<Rightarrow> client \<Rightarrow> bool"
  for zl cast junk settings where
  start: "client_reach zl cast junk settings [] False (new_client junk settings)"
| execute: "client_reach zl cast junk settings hs b c \<Longrightarrow> handler \<notin> set hs \<Longrightarrow>
    client_reach zl cast junk settings (hs @ [handler]) b
      (c\<lparr>manager := client_execute_request req handler token now (manager c)\<rparr>)"
| cancel: "client_reach zl cast junk settings hs b c \<Longrightarrow>
    client_reach zl cast junk settings hs b (c\<lparr>manager := client_cancel_requests token (manager c)\<rparr>)"
| task: "client_reach zl cast junk settings hs b c \<Longrightarrow> strand (manager c) = t # ts \<Longrightarrow>
    run_task cast junk t ((manager c)\<lparr>strand := ts\<rparr>) = Some (thrown, m') \<Longrightarrow>
    client_reach zl cast junk settings hs (b \<or> thrown \<noteq> None) (after_task m' c)"
| call: "client_reach zl cast junk settings hs b c \<Longrightarrow> conn_strand c h = k # ks \<Longrightarrow>
    conn_step zl (call_event k) (conns c h) = Some x \<Longrightarrow>
    client_reach zl cast junk settings hs b (after_handler h x (c\<lparr>conn_strand := (conn_strand c)(h := ks)\<rparr>))"
| event: "client_reach zl cast junk settings hs b c \<Longrightarrow> event_ok ev \<Longrightarrow>
    conn_step zl ev (conns c h) = Some x \<Longrightarrow> client_reach zl cast junk settings hs b (after_handler h x c)"

section \<open>The manager's part\<close>

lemma post_reports:
  "manager_reach cast junk settings hs m \<Longrightarrow> manager_reach cast junk settings hs (fold post_task (reported h s s') m)"
proof -
  have "manager_reach cast junk settings hs m \<Longrightarrow>
      manager_reach cast junk settings hs (fold post_task (map (\<lambda>(r, ec). On_request_completed r h ec) xs) m)" for xs
    by (induction xs arbitrary: m) (auto intro: manager_reach.completed)
  then show "manager_reach cast junk settings hs m \<Longrightarrow> ?thesis"
    by (simp add: reported_def)
qed

lemma client_manager:
  "client_reach zl cast junk settings hs b c \<Longrightarrow> manager_reach cast junk settings hs (manager c)"
  by (induction rule: client_reach.induct)
    (auto simp: new_client_def after_task_def after_handler_def
      intro: manager_reach.intros post_reports)

section \<open>The connections' part\<close>

text \<open>What is under way on a connection.\<close>

definition starts :: "conn_call list \<Rightarrow> nat" where
  "starts ks = length (filter (\<lambda>k. k \<noteq> Cancel_async) ks)"

definition reports :: "http_stack \<Rightarrow> manager_task list \<Rightarrow> nat" where
  "reports h ts = length (filter (\<lambda>t. case t of On_request_completed r x ec \<Rightarrow> x = h | _ \<Rightarrow> False) ts)"

definition busy :: "client \<Rightarrow> http_stack \<Rightarrow> nat" where
  "busy c h = starts (conn_strand c h) + (if has_callback (snd (conns c h)) then 1 else 0) +
     reports h (strand (manager c))"

text \<open>The requests that hold a connection.\<close>

definition holding :: "http_stack \<Rightarrow> request_list \<Rightarrow> nat" where
  "holding h rs = length (filter (\<lambda>r. m_connection r = Some h) rs)"

lemma under_way_simps [simp]:
  "starts [] = 0" "starts (k # ks) = (if k = Cancel_async then 0 else 1) + starts ks"
  "starts (ks @ ks') = starts ks + starts ks'"
  "reports h [] = 0" "reports h (t # ts) =
    (case t of On_request_completed r x ec \<Rightarrow> if x = h then 1 else 0 | _ \<Rightarrow> 0) + reports h ts"
  "reports h (ts @ ts') = reports h ts + reports h ts'"
  "reports h (replicate i Execute_waiting_requests) = 0"
  "holding h [] = 0" "holding h (r # rs) = (if m_connection r = Some h then 1 else 0) + holding h rs"
  "holding h (rs @ rs') = holding h rs + holding h rs'"
  by (auto simp: starts_def reports_def holding_def split: manager_task.splits)

lemma strand_reported:
  "strand (fold post_task ts m) = strand m @ ts" "m_pool (fold post_task ts m) = m_pool m"
  "m_requests (fold post_task ts m) = m_requests m" "calls (fold post_task ts m) = calls m"
  by (induction ts arbitrary: m) (simp_all add: post_task_def)

lemma reports_reported: "reports h (reported x s s') = (if h = x then length (reported x s s') else 0)"
proof -
  have "reports h (map (\<lambda>(r, ec). On_request_completed r x ec) xs) = (if h = x then length xs else 0)" for xs
    by (induction xs) auto
  then show ?thesis
    by (simp add: reported_def)
qed

lemma event_reports:
  assumes "conn_step zl ev (pr, s) = Some (pr', s')" "event_ok ev" "parser_ok pr"
  shows "length (reported h s s') + (if has_callback s' then 1 else 0) = (if has_callback s then 1 else 0)"
proof -
  have "\<forall>req. ev \<noteq> Start req"
    using assms(2) by auto
  then have "has_callback s' \<longrightarrow> has_callback s"
    using pending.step_keeps [OF assms(1), of "has_callback s"] by simp
  then show ?thesis
    using arg_cong [OF conjunct2 [OF conn_step_keeps [OF assms]], of length]
    by (auto simp: handed_def reported_def split: if_splits)
qed

section \<open>The invariant\<close>

definition client_ok :: "'z zlib \<Rightarrow> bool \<Rightarrow> client \<Rightarrow> bool" where
  "client_ok zl b c \<longleftrightarrow> pool_ok (m_pool (manager c)) \<and>
     exclusive (pool_idle (m_pool (manager c))) (busy c) (pool_known (m_pool (manager c))) \<and>
     (\<forall>h. \<exists>reqs. conn_reach zl reqs (conns c h)) \<and>
     (b \<or> (\<forall>h. holding h (m_requests (manager c)) = busy c h))"

lemma busy_after_handler:
  assumes "length (reported h (snd (conns c h)) (snd x)) + (if has_callback (snd x) then 1 else 0) = n"
  shows "busy (after_handler h x c) h' =
    (if h' = h then starts (conn_strand c h) + n + reports h (strand (manager c)) else busy c h')"
  using assms by (auto simp: busy_def after_handler_def strand_reported reports_reported)

lemma after_handler_ok:
  assumes "client_ok zl b c" "conn_reach zl reqs x" "busy (after_handler h x c') = busy c"
    and "conns c' = conns c" "manager c' = manager c"
  shows "client_ok zl b (after_handler h x c')"
  using assms by (auto simp: client_ok_def after_handler_def strand_reported)

lemma event_keeps_ok:
  assumes "client_ok zl b c" "event_ok ev" "conn_step zl ev (conns c h) = Some x"
  shows "client_ok zl b (after_handler h x c)"
proof -
  obtain reqs where n: "conn_reach zl reqs (conns c h)"
    using assms(1) by (auto simp: client_ok_def)
  have "length (reported h (snd (conns c h)) (snd x)) + (if has_callback (snd x) then 1 else 0) =
      (if has_callback (snd (conns c h)) then 1 else 0)"
    using assms(2,3) conn_reach_inv [OF n]
    by (intro event_reports [of zl ev "fst (conns c h)" _ "fst x"]) simp_all
  then have "busy (after_handler h x c) = busy c"
    by (intro ext) (simp add: busy_after_handler, simp add: busy_def)
  then show ?thesis
    by (intro after_handler_ok [OF assms(1) conn_reach.event [OF n assms(2,3)]]) simp_all
qed

lemma call_keeps_ok:
  assumes "client_ok zl b c" "conn_strand c h = k # ks" "conn_step zl (call_event k) (conns c h) = Some x"
  shows "client_ok zl b (after_handler h x (c\<lparr>conn_strand := (conn_strand c)(h := ks)\<rparr>))"
proof -
  let ?c = "c\<lparr>conn_strand := (conn_strand c)(h := ks)\<rparr>"
  obtain reqs where n: "conn_reach zl reqs (conns c h)"
    using assms(1) by (auto simp: client_ok_def)
  have ex: "busy c h \<le> 1"
    using assms(1) by (auto simp: client_ok_def exclusive_def dest!: spec [of _ h])
  show ?thesis
  proof (cases k)
    case (Start_async req)
    then have cb: "\<not> has_callback (snd (conns c h))"
      using ex assms(2) by (auto simp: busy_def split: if_splits)
    have "has_callback (snd x) \<and> completions (snd x) = completions (snd (conns c h))"
      using assms(3) Start_async by (cases "conns c h") (auto dest: start_pending)
    then have "length (reported h (snd (conns ?c h)) (snd x)) + (if has_callback (snd x) then 1 else 0) = 1"
      by (simp add: reported_def)
    then have "busy (after_handler h x ?c) = busy c"
      using Start_async cb assms(2) by (intro ext) (simp add: busy_after_handler, simp add: busy_def)
    moreover have "conn_reach zl (reqs @ [req]) x"
      using conn_reach.start [OF n cb] assms(3) Start_async by simp
    ultimately show ?thesis
      by (intro after_handler_ok [OF assms(1)]) simp_all
  next
    case Cancel_async
    then have "length (reported h (snd (conns c h)) (snd x)) + (if has_callback (snd x) then 1 else 0) =
        (if has_callback (snd (conns c h)) then 1 else 0)"
      using assms(3) conn_reach_inv [OF n]
      by (intro event_reports [of zl Cancel "fst (conns c h)" _ "fst x"]) simp_all
    then have "length (reported h (snd (conns ?c h)) (snd x)) + (if has_callback (snd x) then 1 else 0) =
        (if has_callback (snd (conns c h)) then 1 else 0)"
      by simp
    then have "busy (after_handler h x ?c) = busy c"
      using Cancel_async assms(2) by (intro ext) (simp add: busy_after_handler, simp add: busy_def)
    moreover have "conn_reach zl reqs x"
      using conn_reach.event [OF n, of Cancel] assms(3) Cancel_async by simp
    ultimately show ?thesis
      by (intro after_handler_ok [OF assms(1)]) simp_all
  qed
qed

text \<open>What a task of the manager changes.\<close>

lemma busy_after_task:
  assumes "calls m' = calls (manager c) @ cs"
  shows "busy (after_task m' c) h = starts (conn_strand c h) + starts (map snd (filter (\<lambda>x. fst x = h) cs)) +
    (if has_callback (snd (conns c h)) then 1 else 0) + reports h (strand m')"
  using assms by (simp add: busy_def after_task_def distribute_def)

lemma waiting_effect:
  assumes "manager_ok hs posted m"
  obtains (idle) "execute_waiting_requests m = m"
  | (started) r :: request_data and h pool where "get_connection (m_url (m_http_request r)) (m_certificates (m_http_request r)) (m_pool m) =
        (h, pool)"
      "m_pool (execute_waiting_requests m) = pool"
      "calls (execute_waiting_requests m) = calls m @ [(h, Start_async (m_http_request r))]"
      "strand (execute_waiting_requests m) = strand m"
      "\<And>x. holding x (m_requests (execute_waiting_requests m)) =
        holding x (m_requests m) + (if x = h then 1 else 0)"
proof (cases "index_state_begin (m_requests m)")
  case None
  then show ?thesis
    using idle by (simp add: execute_waiting_requests_def Let_def)
next
  case (Some r)
  show ?thesis
  proof (cases "index_state_count in_progress (m_requests m) < parallel_cap m \<and> m_request_state r \<noteq> in_progress")
    case False
    then show ?thesis
      using Some idle by (auto simp: execute_waiting_requests_def parallel_cap_def Let_def)
  next
    case True
    obtain h pool where h: "get_connection (m_url (m_http_request r)) (m_certificates (m_http_request r)) (m_pool m) =
        (h, pool)"
      by fastforce
    obtain xs ys where split: "m_requests m = xs @ r # ys" "\<And>f. modify r f (m_requests m) = xs @ f r # ys"
      using split_requests [OF index_state_begin_Some(1) [OF Some] manager_ok_distinct [OF assms]] by blast
    have run: "execute_waiting_requests m = m\<lparr>m_pool := pool,
        m_requests := xs @ r\<lparr>m_connection := Some h, m_request_state := in_progress\<rparr> # ys,
        calls := calls m @ [(h, Start_async (m_http_request r))]\<rparr>"
      using Some True h split(2) by (simp add: execute_waiting_requests_def parallel_cap_def)
    have "m_connection r = None"
      using assms True split(1) by (auto simp: manager_ok_def good_request_def)
    then show ?thesis
      by (intro started [OF h]) (simp_all add: run split(1))
  qed
qed

text \<open>A start: the connection was free, and has the start to come.\<close>

lemma waiting_keeps_ok:
  assumes "client_ok zl b c" "manager_ok hs posted m"
    and "m_pool m = m_pool (manager c)" "calls m = calls (manager c)"
    and "\<And>x. holding x (m_requests m) = holding x (m_requests (manager c))"
    and "\<And>x. reports x (strand m) = reports x (strand (manager c))"
  shows "client_ok zl b (after_task (execute_waiting_requests m) c)"
  using assms(2)
proof (cases rule: waiting_effect)
  case idle
  have "busy (after_task m c) = busy c"
    using assms(4,6) by (intro ext) (simp add: busy_def after_task_def distribute_def)
  then show ?thesis
    unfolding idle using assms(1,3,5) by (simp add: client_ok_def) (simp add: after_task_def)
next
  case (started r h pool)
  let ?m = "execute_waiting_requests m" and ?k = "(m_url (m_http_request r), m_certificates (m_http_request r))"
  have ok: "pool_ok (m_pool m)" "exclusive (pool_idle (m_pool m)) (busy c) (pool_known (m_pool m))"
    using assms(1,3) by (simp_all add: client_ok_def)
  have get: "get_connection' ?k (m_pool m) = (h, pool)"
    using started(1) by simp
  have free: "busy c h = 0" "exclusive (pool_idle pool) ((busy c)(h := 1)) (pool_known pool)" "pool_ok pool"
    using pool.acquire_exclusive [OF ok get] pool.acquire_inv [OF ok(1) get] by blast+
  have calls: "calls ?m = calls (manager c) @ [(h, Start_async (m_http_request r))]"
    using started(3) assms(4) by simp
  have busy: "busy (after_task ?m c) = (busy c)(h := 1)"
    using free(1) started(4) assms(6) busy_after_task [OF calls]
    by (intro ext) (auto simp: busy_def)
  then show ?thesis
    using assms(1,5) free started(2,5) by (auto simp: client_ok_def) (auto simp: after_task_def)
qed

text \<open>A cancellation: calls that start nothing, and requests that hold nothing taken out.\<close>

lemma cancel_effect:
  assumes "distinct (handlers (m_requests m))" "set rs \<subseteq> set (m_requests m)" "distinct (handlers rs)"
  shows "m_pool (fold (cancel_request junk) rs m) = m_pool m \<and>
    (\<forall>h. holding h (m_requests (fold (cancel_request junk) rs m)) = holding h (m_requests m)) \<and>
    (\<forall>h. reports h (strand (fold (cancel_request junk) rs m)) = reports h (strand m))"
  using assms
proof (induction rs arbitrary: m)
  case (Cons r rs)
  show ?case
  proof (cases "m_connection r")
    case (Some h)
    then show ?thesis
      using Cons.IH [of "cancel_request junk r m"] Cons.prems by (simp add: cancel_request_simps)
  next
    case None
    let ?m = "cancel_request junk r m"
    have "r \<in> set (m_requests m)"
      using Cons.prems(2) by simp
    then obtain xs ys where xs: "m_requests m = xs @ r # ys" "erase r (m_requests m) = xs @ ys"
      using split_requests [OF _ Cons.prems(1)] by metis
    then have split: "m_requests m = xs @ r # ys" "m_requests ?m = xs @ ys"
      using None
      by (simp_all add: cancel_request_simps handle_completed_request_def invoke_handler_def post_task_def Let_def)
    have "r \<notin> set rs"
      using Cons.prems(3) by (auto simp: handlers_def)
    then have "set rs \<subseteq> set (m_requests ?m)"
      using Cons.prems(2) split by auto
    then show ?thesis
      using Cons.IH [of ?m] Cons.prems(1,3) split None
      by (simp add: cancel_request_simps handle_completed_request_def invoke_handler_def post_task_def Let_def)
  qed
qed simp

lemma cancel_calls:
  "starts (map snd (filter P (map (\<lambda>r. (the (m_connection r), Cancel_async)) rs))) = 0"
  by (induction rs) simp_all

lemma cancel_requests_effect:
  assumes "manager_ok hs posted m"
  shows "m_pool (cancel_requests junk token m) = m_pool m"
    "holding h (m_requests (cancel_requests junk token m)) = holding h (m_requests m)"
    "reports h (strand (cancel_requests junk token m)) = reports h (strand m)"
    "\<exists>rs :: request_list. calls (cancel_requests junk token m) = calls m @ map (\<lambda>r. (the (m_connection r), Cancel_async)) rs"
proof -
  let ?index = "index_cancellation (m_requests m)" and ?m = "cancel_requests junk token m"
  let ?rs = "if token = [] then ?index else dropWhile (\<lambda>r. m_cancellation_token r \<noteq> token) ?index"
  have d: "distinct (handlers ?index)" "set ?index = set (m_requests m)"
    using index_cancellation_set manager_ok_distinct [OF assms] by auto
  have m: "?m = fold (cancel_request junk) ?rs m"
    by (simp add: cancel_requests_def Let_def)
  have "set ?rs \<subseteq> set (m_requests m)" "distinct (handlers ?rs)"
    using d handlers_dropWhile [OF d(1)] set_dropWhileD by (fastforce split: if_splits)+
  then show "m_pool ?m = m_pool m" "holding h (m_requests ?m) = holding h (m_requests m)"
      "reports h (strand ?m) = reports h (strand m)"
    unfolding m using cancel_effect [OF manager_ok_distinct [OF assms]] by blast+
  show "\<exists>rs :: request_list. calls ?m = calls m @ map (\<lambda>r. (the (m_connection r), Cancel_async)) rs"
    unfolding m fold_cancel by (intro exI) (rule refl)
qed

lemma cancel_keeps_ok:
  assumes "client_ok zl b c" "manager_ok hs posted m" "m_pool m = m_pool (manager c)" "calls m = calls (manager c)"
    and "m_requests m = m_requests (manager c)" "\<And>x. reports x (strand m) = reports x (strand (manager c))"
  shows "client_ok zl b (after_task (cancel_requests junk token m) c)"
proof -
  let ?m = "cancel_requests junk token m"
  note eff = cancel_requests_effect [OF assms(2), where junk = junk and token = token]
  obtain rs :: request_list where "calls ?m = calls (manager c) @ map (\<lambda>r. (the (m_connection r), Cancel_async)) rs"
    using eff(4) assms(4) by auto
  from busy_after_task [OF this] have "busy (after_task ?m c) = busy c"
    using eff(3) assms(6) by (intro ext) (simp add: cancel_calls busy_def)
  then show ?thesis
    using assms(1,3,5) eff(1,2) by (simp add: client_ok_def) (simp add: after_task_def)
qed

text \<open>A completion: the connection is given back, and the request that held it does not any more.\<close>

lemma completed_effect:
  assumes "manager_ok hs posted m" "on_request_completed cast result h ec m = Some (thrown, m')"
  shows "m_pool m' = release_connection h (is_error ec) (m_pool m) \<and> calls m' = calls m \<and>
    (\<forall>x. reports x (strand m') = reports x (strand m)) \<and>
    (thrown = None \<longrightarrow> 0 < holding h (m_requests m) \<longrightarrow>
      (\<forall>x. holding x (m_requests m) = holding x (m_requests m') + (if x = h then 1 else 0)))"
proof (cases "index_connection_find h (m_requests m)")
  case None
  then have "holding h (m_requests m) = 0"
    by (auto simp: index_connection_find_def find_None_iff holding_def filter_empty_conv)
  then show ?thesis
    using assms(2) None by (auto simp: on_request_completed_def)
next
  case (Some r)
  then have r: "r \<in> set (m_requests m)" "m_connection r = Some h"
    by (auto simp: index_connection_find_def find_Some_iff)
  obtain xs ys where "m_requests m = xs @ r # ys" "\<And>f. modify r f (m_requests m) = xs @ f r # ys"
      "erase r (m_requests m) = xs @ ys"
    using split_requests [OF r(1) manager_ok_distinct [OF assms(1)]] by blast
  then show ?thesis
    using assms(2) Some r(2)
    by (auto simp: on_request_completed_def handle_completed_request_def invoke_handler_def post_task_def Let_def
        split: option.splits sum.splits if_splits)
qed

lemma completed_keeps_ok:
  assumes "client_ok zl b c" "manager_ok hs posted m" "m_pool m = m_pool (manager c)" "calls m = calls (manager c)"
    and "m_requests m = m_requests (manager c)"
    and "\<And>x. reports x (strand (manager c)) = reports x (strand m) + (if x = h then 1 else 0)"
    and "on_request_completed cast result h ec m = Some (thrown, m')"
  shows "client_ok zl (b \<or> thrown \<noteq> None) (after_task m' c)"
proof -
  note eff = completed_effect [OF assms(2,7)]
  have ok: "pool_ok (m_pool m)" "exclusive (pool_idle (m_pool m)) (busy c) (pool_known (m_pool m))"
    using assms(1,3) by (simp_all add: client_ok_def)
  have pos: "0 < busy c h"
    using assms(6) by (simp add: busy_def)
  have calls: "calls m' = calls (manager c) @ []"
    using eff assms(4) by simp
  have busy: "busy (after_task m' c) = (busy c)(h := busy c h - 1)"
    using eff assms(6) busy_after_task [OF calls] by (intro ext) (auto simp: busy_def)
  have "holding x (m_requests m') = ((busy c)(h := busy c h - 1)) x" if "thrown = None" "\<not> b" for x
  proof -
    have hold: "\<And>x. holding x (m_requests m) = busy c x"
      using assms(1,5) that(2) by (simp add: client_ok_def)
    have "holding x (m_requests m) = holding x (m_requests m') + (if x = h then 1 else 0)"
      using eff that(1) pos hold by simp
    then show ?thesis
      using hold [of x] by (simp split: if_splits)
  qed
  then show ?thesis
    using assms(1) eff busy pool.give_back_exclusive [OF ok pos]
    by (auto simp: client_ok_def) (auto simp: after_task_def)
qed

lemma task_keeps_ok:
  assumes "client_ok zl b c" "reach_ok settings hs (manager c)" "strand (manager c) = t # ts"
    and "run_task cast junk t ((manager c)\<lparr>strand := ts\<rparr>) = Some (thrown, m')"
  shows "client_ok zl (b \<or> thrown \<noteq> None) (after_task m' c)"
proof -
  let ?m = "(manager c)\<lparr>strand := ts\<rparr>"
  obtain hs' posted where ok: "manager_ok hs' posted (manager c)"
    using assms(2) by (auto simp: reach_ok_def)
  then have "manager_ok hs' posted ?m"
    by simp
  show ?thesis
  proof (cases t)
    case (Execute_request r)
    then obtain hs1 where r: "fresh_request r"
        "manager_ok (hs1 @ [m_completion_handler r]) (Suc (posted_waiting ts)) (?m\<lparr>m_requests := m_requests (manager c) @ [r]\<rparr>)"
      using queued_head_ok [OF assms(2)] assms(3) by metis
    have "client_ok zl b (after_task (execute_waiting_requests (?m\<lparr>m_requests := m_requests (manager c) @ [r]\<rparr>)) c)"
      using r(1) assms(3) Execute_request
      by (intro waiting_keeps_ok [OF assms(1) r(2)]) (simp_all add: fresh_request_def)
    then show ?thesis
      using assms(4) Execute_request by (auto simp: execute_request_def)
  next
    case (Cancel_requests token)
    have "client_ok zl b (after_task (cancel_requests junk token ?m) c)"
      using assms(3) Cancel_requests by (intro cancel_keeps_ok [OF assms(1) \<open>manager_ok hs' posted ?m\<close>]) simp_all
    then show ?thesis
      using assms(4) Cancel_requests by auto
  next
    case (On_request_completed result h ec)
    then show ?thesis
      using assms(3,4)
      by (intro completed_keeps_ok [OF assms(1) \<open>manager_ok hs' posted ?m\<close>, where h = h and cast = cast and result = result and ec = ec])
        simp_all
  next
    case Execute_waiting_requests
    have "client_ok zl b (after_task (execute_waiting_requests ?m) c)"
      using assms(3) Execute_waiting_requests
      by (intro waiting_keeps_ok [OF assms(1) \<open>manager_ok hs' posted ?m\<close>]) simp_all
    then show ?thesis
      using assms(4) Execute_waiting_requests by auto
  qed
qed

lemma client_reach_ok:
  "client_reach zl cast junk settings hs b c \<Longrightarrow> client_ok zl b c"
proof (induction rule: client_reach.induct)
  case start
  have "conn_reach zl [] (new_connection junk h)" for h
    by (rule conn_reach.fresh) (simp add: fresh_conn_def new_connection_def new_stack_def)
  moreover have "busy (new_client junk settings) h = 0" for h
    by (simp add: busy_def new_client_def new_connection_def new_stack_def new_request_manager_def)
  ultimately show ?case
    using new_pool by (auto simp: client_ok_def exclusive_def new_client_def new_request_manager_def)
next
  case (execute hs b c handler req token now)
  then show ?case
    by (simp add: client_ok_def busy_def [abs_def] client_execute_request_def post_task_def)
next
  case (cancel hs b c token)
  then show ?case
    by (simp add: client_ok_def busy_def [abs_def] client_cancel_requests_def post_task_def)
next
  case (task hs b c t ts thrown m')
  then show ?case
    using task_keeps_ok [OF task(4) manager_reach_ok [OF client_manager]] by blast
next
  case (call hs b c h k ks x)
  then show ?case
    using call_keeps_ok by blast
next
  case (event hs b c ev h x)
  then show ?case
    using event_keeps_ok by blast
qed

lemma client_conn:
  assumes "client_reach zl cast junk settings hs b c"
  obtains reqs where "conn_reach zl reqs (conns c h)"
  using client_reach_ok [OF assms] unfolding client_ok_def by blast

lemma conns_after_handler [simp]: "conns (after_handler h x c) h = x"
  by (simp add: after_handler_def)

end
