(* ===== verification/Manager_Properties.thy ===== *)
theory Manager_Properties
  imports Manager_Laws
begin

text \<open>
  Properties of the request manager: what holds after any run, and what cancelling and redirections do.
\<close>

section \<open>After any run\<close>

text \<open>An example: one request, made and taken up.\<close>

definition example_manager :: request_manager where
  "example_manager = execute_request (new_request_data example_request 7 ''token'' 0)
     (new_request_manager default_settings)"

lemma index_state_begin_single: "index_state_begin [r] = Some r"
  by (simp add: index_state_begin_def)

lemma example_manager_requests:
  "m_requests example_manager = [(new_request_data example_request 7 ''token'' 0)
     \<lparr>m_connection := Some (fst (get_connection example_page (m_certificates example_request) new_connection_pool)),
      m_request_state := in_progress\<rparr>]"
  "strand example_manager = []" "invoked example_manager = []" "m_settings example_manager = default_settings"
  by (simp_all add: example_manager_def execute_request_def execute_waiting_requests_def new_request_manager_def
      index_state_begin_single new_request_data_def default_settings_def modify_def example_request_def Let_def
      split: prod.split)

lemma example_manager_reach: "manager_reach cast junk default_settings [7] example_manager"
proof -
  have "manager_reach cast junk default_settings ([] @ [7])
      (client_execute_request example_request 7 ''token'' 0 (new_request_manager default_settings))"
    by (rule manager_reach.execute [OF manager_reach.start]) simp
  then have "manager_reach cast junk default_settings [7]
      (client_execute_request example_request 7 ''token'' 0 (new_request_manager default_settings))"
    by simp
  then show ?thesis
    by (rule manager_reach.task [where t = "Execute_request (new_request_data example_request 7 ''token'' 0)"
          and ts = "[]" and thrown = None])
      (simp_all add: client_execute_request_def post_task_def new_request_manager_def example_manager_def)
qed

text \<open>
  C11: The limits the code enforces hold at every moment: no more requests are in progress than
  \<open>max_parallel_requests\<close>, no request has been tried again more than \<open>max_attempts\<close> times after its first attempt
  (so that it may have \<open>max_attempts + 1\<close> attempts, one more than \<open>readme.md\<close> says), and a request has a connection exactly
  when it is in progress.
\<close>

theorem limits_respected:
  assumes "manager_reach cast junk settings hs m"
  shows "index_state_count in_progress (m_requests m) \<le> unat (max_parallel_requests settings) \<and>
    list_all (\<lambda>r. m_retries r \<le> max_attempts settings \<and>
      (m_request_state r = in_progress \<longleftrightarrow> m_connection r \<noteq> None)) (m_requests m)"
  using manager_reach_ok [OF assms]
  by (auto simp: reach_ok_def manager_ok_def parallel_cap_def good_request_def list_all_iff)

theorem limits_respected_witness:
  "index_state_count in_progress (m_requests example_manager) \<le> unat (max_parallel_requests default_settings) \<and>
    list_all (\<lambda>r. m_retries r \<le> max_attempts default_settings \<and>
      (m_request_state r = in_progress \<longleftrightarrow> m_connection r \<noteq> None)) (m_requests example_manager)"
  by (rule limits_respected [OF example_manager_reach [of example_cast 0]])

text \<open>
  C12: No request is lost and no handler is called twice: the requests the application made are those
  whose handler was called, those in the container and those whose insertion is still posted, each of
  them in one of these places and once.
\<close>

theorem requests_accounted:
  assumes "manager_reach cast junk settings hs m"
  shows "mset hs = mset (map fst (invoked m)) + mset (map m_completion_handler (m_requests m)) +
      mset (map m_completion_handler (queued (strand m))) \<and> distinct hs"
  using manager_reach_ok [OF assms] by (auto simp: reach_ok_def manager_ok_def handlers_def)

theorem requests_accounted_witness:
  "mset [7] = mset (map fst (invoked example_manager)) + mset (map m_completion_handler (m_requests example_manager)) +
      mset (map m_completion_handler (queued (strand example_manager))) \<and> distinct [7::nat]"
  by (rule requests_accounted [OF example_manager_reach [of example_cast 0]])

text \<open>
  C13: Although every handler starts one request at most, none waits in vain: whenever nothing is posted on the
  strand, either as many requests are in progress as the settings allow, or no request waits.
\<close>

theorem no_request_waits_in_vain:
  assumes "manager_reach cast junk settings hs m" "strand m = []"
  shows "index_state_count in_progress (m_requests m) = unat (max_parallel_requests settings) \<or>
    list_all (\<lambda>r. m_request_state r = in_progress) (m_requests m)"
  using manager_reach_ok [OF assms(1)] assms(2)
  by (auto simp: reach_ok_def manager_ok_def parallel_cap_def scheduled_def pending_def list_all_iff
      filter_empty_conv)

theorem no_request_waits_in_vain_witness:
  "index_state_count in_progress (m_requests example_manager) = unat (max_parallel_requests default_settings) \<or>
    list_all (\<lambda>r. m_request_state r = in_progress) (m_requests example_manager)"
  by (rule no_request_waits_in_vain [OF example_manager_reach [of example_cast 0] example_manager_requests(2)])

section \<open>Cancelling\<close>

lemma dropWhile_sorted:
  "sorted (map k xs) \<Longrightarrow>
    x \<in> set (dropWhile (\<lambda>x. k x \<noteq> t) xs) \<longleftrightarrow> x \<in> set xs \<and> t \<in> k ` set xs \<and> t \<le> k x"
  by (induction xs) auto

definition newly_invoked :: "request_manager \<Rightarrow> request_manager \<Rightarrow> (nat \<times> http_request_result) list" where
  "newly_invoked m m' = drop (length (invoked m)) (invoked m')"

definition newly_called :: "request_manager \<Rightarrow> request_manager \<Rightarrow> (http_stack \<times> conn_call) list" where
  "newly_called m m' = drop (length (calls m)) (calls m')"

text \<open>
  C32: What cancelling by a token reaches.  It is not the requests with that token: if there is one, it is those and all
  with a greater token, in the order of strings.  Each of them that has a connection is cancelled there,
  every other is answered \<open>operation_aborted\<close> at once; if no request has the token, nothing happens.
\<close>

theorem cancel_requests_reaches:
  assumes "distinct (map m_completion_handler (m_requests m))" "token \<noteq> []" "r \<in> set (m_requests m)"
  shows "let reached = token \<in> m_cancellation_token ` set (m_requests m) \<and> token \<le> m_cancellation_token r;
      m' = cancel_requests junk token m
    in (m_connection r = None \<and> reached \<longleftrightarrow>
          (m_completion_handler r, error_result junk operation_aborted) \<in> set (newly_invoked m m')) \<and>
       (\<exists>rs. set rs = {x \<in> set (m_requests m). m_connection x \<noteq> None \<and>
              token \<in> m_cancellation_token ` set (m_requests m) \<and> token \<le> m_cancellation_token x} \<and>
          newly_called m m' = map (\<lambda>x. (the (m_connection x), Cancel_async)) rs)"
proof -
  let ?rs = "dropWhile (\<lambda>r. m_cancellation_token r \<noteq> token) (index_cancellation (m_requests m))"
  have m': "cancel_requests junk token m = fold (cancel_request junk) ?rs m"
    using assms(2) by (simp add: cancel_requests_def Let_def)
  have in_rs: "x \<in> set ?rs \<longleftrightarrow> x \<in> set (m_requests m) \<and>
      token \<in> m_cancellation_token ` set (m_requests m) \<and> token \<le> m_cancellation_token x" for x
    by (subst dropWhile_sorted) (simp_all add: index_cancellation_def)
  have same: "x = r" if "x \<in> set ?rs" "m_completion_handler x = m_completion_handler r" for x
    using assms(1,3) that in_rs by (auto simp: distinct_map inj_on_def)
  have "newly_invoked m (cancel_requests junk token m) =
      map (\<lambda>r. (m_completion_handler r, error_result junk operation_aborted)) (filter (\<lambda>r. m_connection r = None) ?rs)"
    "newly_called m (cancel_requests junk token m) =
      map (\<lambda>r. (the (m_connection r), Cancel_async)) (filter (\<lambda>r. m_connection r \<noteq> None) ?rs)"
    by (simp_all add: newly_invoked_def newly_called_def m' fold_cancel)
  then show ?thesis
    using in_rs same assms(3) unfolding Let_def
    by (intro conjI exI [of _ "filter (\<lambda>r. m_connection r \<noteq> None) ?rs"]) (auto simp del: dropWhile_eq_Nil_conv)
qed

definition example_waiting :: request_manager where
  "example_waiting = (new_request_manager default_settings)
     \<lparr>m_requests := [new_request_data example_request 1 ''a'' 0, new_request_data example_request 2 ''b'' 0]\<rparr>"

lemma token_order: "''a'' \<le> ''b''"
  by (simp add: less_char_def)

theorem cancel_requests_reaches_witness:
  "(2, error_result 0 operation_aborted) \<in> set (newly_invoked example_waiting (cancel_requests 0 ''a'' example_waiting))"
  using cancel_requests_reaches [of example_waiting "''a''" "new_request_data example_request 2 ''b'' 0" 0] token_order
  by (simp add: example_waiting_def new_request_data_def Let_def)

section \<open>Redirections\<close>


text \<open>
  C34: What becomes of a request whose redirection the constructor of \<open>url\<close> rejects, whatever the URL, the exception
  and the error, unless this is one of the four that are retried: the exception leaves the handler when the connection has
  been given back and before anything else is done.  The request is not answered, nothing is posted, and it
  stays in progress for good with that connection, which after an error is dropped, with all that were free for its host
  and port, and otherwise is free for others.
\<close>

theorem rejected_redirection_is_lost:
  assumes "index_connection_find h (m_requests m) = Some r" "redirection result" "result_request result = Some req"
    and "location_of result \<noteq> []" "get_url_components cast (location_of result) = Inl e" "\<not> transient ec"
  shows "\<exists>m'. on_request_completed cast result h ec m = Some (Some e, m') \<and>
    invoked m' = invoked m \<and> strand m' = strand m \<and> calls m' = calls m \<and> m_requests m' = m_requests m \<and>
    m_connection r = Some h \<and> m_connection_pool (m_pool m') (stack_host_port h) =
      (if is_error ec then [] else h # m_connection_pool (m_pool m) (stack_host_port h))"
proof -
  have "process_errors cast ec result = Some (Inl e)"
    using assms(2-6)
    by (auto simp: process_errors_def create_redirection_def redirection_def location_of_def transient_def Let_def)
  moreover have "m_connection r = Some h"
    using assms(1) by (auto simp: index_connection_find_def find_Some_iff)
  ultimately show ?thesis
    using assms(1) by (simp add: on_request_completed_def release_connection_def Let_def)
qed

text \<open>The example's request, redirected while it is in progress.\<close>

definition example_handle :: http_stack where
  "example_handle = fst (get_connection example_page (m_certificates example_request) new_connection_pool)"

definition example_busy :: request_data where
  "example_busy = (new_request_data example_request 7 ''token'' 0)
     \<lparr>m_connection := Some example_handle, m_request_state := in_progress\<rparr>"

lemma example_busy_found:
  "index_connection_find example_handle (m_requests example_manager) = Some example_busy"
  "m_retries example_busy < max_attempts (m_settings example_manager)"
  "distinct (map m_completion_handler (m_requests example_manager))"
  by (simp_all add: index_connection_find_def example_manager_requests example_busy_def example_handle_def
      new_request_data_def default_settings_def)


theorem rejected_redirection_is_lost_witness:
  "\<exists>m'. on_request_completed example_cast relative_result example_handle timed_out example_manager =
      Some (Some Failed_to_parse_url, m') \<and>
    invoked m' = invoked example_manager \<and> strand m' = strand example_manager \<and>
    calls m' = calls example_manager \<and> m_requests m' = m_requests example_manager \<and>
    m_connection example_busy = Some example_handle \<and>
    m_connection_pool (m_pool m') (stack_host_port example_handle) =
      (if is_error timed_out then []
       else example_handle # m_connection_pool (m_pool example_manager) (stack_host_port example_handle))"
proof (rule rejected_redirection_is_lost [OF example_busy_found(1)])
  have "location_of relative_result = CHR ''/'' # ''login''" "no_sep ''login''"
    by (simp_all add: relative_result_def example_result_def location_of_def no_sep_Cons)
  then show "get_url_components example_cast (location_of relative_result) = Inl Failed_to_parse_url"
    "location_of relative_result \<noteq> []"
    using path_no_url [of "''login''" example_cast] by simp_all
qed (simp_all add: relative_result_def example_result_def redirection_def transient_def)

end
