(* ===== verification/Client_Properties.thy ===== *)
theory Client_Properties
  imports Client_System Manager_Properties
begin

text \<open>
  Properties of the whole client, from the calls of the application down to the bytes of every connection.
\<close>

section \<open>Results name their request\<close>

definition names_request :: "manager_task \<Rightarrow> bool" where
  "names_request t \<longleftrightarrow> (case t of On_request_completed r h ec \<Rightarrow> result_request r \<noteq> None | _ \<Rightarrow> True)"

lemma names_request_simps [simp]:
  "names_request (Execute_request r)" "names_request (Cancel_requests token)" "names_request Execute_waiting_requests"
  "names_request (On_request_completed res h ec) \<longleftrightarrow> result_request res \<noteq> None"
  by (simp_all add: names_request_def)

lemma reported_names: "named s' \<Longrightarrow> list_all names_request (reported h s s')"
  by (auto simp: reported_def named_def list_all_iff dest!: in_set_dropD)

lemma run_task_strand:
  assumes "reach_ok settings hs m" "strand m = t # ts" "run_task cast junk t (m\<lparr>strand := ts\<rparr>) = Some (thrown, m')"
  shows "\<exists>k. strand m' = ts @ replicate k Execute_waiting_requests"
proof -
  obtain hs' posted where "manager_ok hs' posted (m\<lparr>strand := ts\<rparr>)"
    using assms(1) by (auto simp: reach_ok_def)
  moreover have "strand (execute_waiting_requests m) = strand m" for m
    by (auto simp: execute_waiting_requests_def Let_def split: option.splits prod.splits)
  ultimately show ?thesis
    using assms(3) cancel_requests_posts [of hs' posted "m\<lparr>strand := ts\<rparr>" junk]
      on_request_completed_posts [of hs' posted "m\<lparr>strand := ts\<rparr>" cast]
    by (cases t) (fastforce simp: execute_request_def posts_waiting_def intro: exI [of _ 0])+
qed

lemma client_names: "client_reach zl cast junk settings hs b c \<Longrightarrow> list_all names_request (strand (manager c))"
proof (induction rule: client_reach.induct)
  case start
  show ?case
    by (simp add: new_client_def new_request_manager_def)
next
  case (task hs b c t ts thrown m')
  then show ?case
    using run_task_strand [OF manager_reach_ok [OF client_manager [OF task(1)]] task(2,3)]
    by (auto simp: after_task_def list_all_iff)
next
  case (call hs b c h k ks x)
  have "client_reach zl cast junk settings hs b (after_handler h x (c\<lparr>conn_strand := (conn_strand c)(h := ks)\<rparr>))"
    using client_reach.call [OF call(1-3)] .
  then obtain reqs where "conn_reach zl reqs x"
    using client_conn [of zl cast junk settings hs b _ h] conns_after_handler by metis
  then have "named (snd x)"
    using conn_reach_inv by blast
  then show ?case
    using call.IH reported_names by (simp add: after_handler_def strand_reported)
next
  case (event hs b c ev h x)
  have "client_reach zl cast junk settings hs b (after_handler h x c)"
    using client_reach.event [OF event(1-3)] .
  then obtain reqs where "conn_reach zl reqs x"
    using client_conn [of zl cast junk settings hs b _ h] conns_after_handler by metis
  then have "named (snd x)"
    using conn_reach_inv by blast
  then show ?case
    using event.IH reported_names by (simp add: after_handler_def strand_reported)
qed (simp_all add: client_execute_request_def client_cancel_requests_def post_task_def)

lemma run_task_returns: "names_request t \<Longrightarrow> run_task cast junk t m \<noteq> None"
  by (cases t)
    (auto simp: on_request_completed_def process_errors_def Let_def split: option.splits sum.splits)

section \<open>Properties\<close>

text \<open>An example: one request, taken up by the manager, its start posted on a new connection.\<close>

definition example_client :: client where
  "example_client = after_task example_manager
     ((new_client 0 default_settings)\<lparr>manager :=
        client_execute_request example_request 7 ''token'' 0 (manager (new_client 0 default_settings))\<rparr>)"

lemma example_client_reach: "client_reach stored_zlib example_cast 0 default_settings [7] False example_client"
proof -
  let ?c = "(new_client 0 default_settings)\<lparr>manager :=
    client_execute_request example_request 7 ''token'' 0 (manager (new_client 0 default_settings))\<rparr>"
  have "client_reach stored_zlib example_cast 0 default_settings ([] @ [7]) False ?c"
    by (rule client_reach.execute [OF client_reach.start]) simp
  then have "client_reach stored_zlib example_cast 0 default_settings [7] (False \<or> (None :: url_error option) \<noteq> None)
      (after_task example_manager ?c)"
    by (intro client_reach.task [where t = "Execute_request (new_request_data example_request 7 ''token'' 0)" and ts = "[]"])
      (simp_all add: client_execute_request_def post_task_def new_client_def new_request_manager_def
        example_manager_def)
  then show ?thesis
    by (simp add: example_client_def)
qed

text \<open>
  C4: The parts fit together.  In a run of the whole client, with its strands and the network in any order,
  every connection is used as its laws require: it makes a run of its own, in which a request is
  started only when none is pending; and the request manager makes a run of its own.  So what is
  proved of either holds in the client.
\<close>

theorem client_composes:
  assumes "client_reach zl cast junk settings hs b c"
  shows "(\<forall>h. \<exists>reqs. conn_reach zl reqs (conns c h)) \<and> manager_reach cast junk settings hs (manager c)"
  using client_reach_ok [OF assms] client_manager [OF assms] by (simp add: client_ok_def)

theorem client_composes_witness:
  "(\<forall>h. \<exists>reqs. conn_reach stored_zlib reqs (conns example_client h)) \<and>
    manager_reach example_cast 0 default_settings [7] (manager example_client)"
  by (rule client_composes [OF example_client_reach])

text \<open>
  C5: No connection is used twice at a time: it is free in the pool, or has a start posted, or a request
  pending, or a completion posted, and never two of these.  This holds whatever is cancelled, times out or
  fails, and even after an exception.
\<close>

theorem connections_exclusive:
  assumes "client_reach zl cast junk settings hs b c"
  shows "count_list (m_connection_pool (m_pool (manager c)) (stack_host_port h)) h +
      length (filter (\<lambda>k. k \<noteq> Cancel_async) (conn_strand c h)) +
      (if has_callback (snd (conns c h)) then 1 else 0) + reports h (strand (manager c)) \<le> 1"
proof -
  have ex: "exclusive (pool_idle (m_pool (manager c))) (busy c) (pool_known (m_pool (manager c)))"
    using client_reach_ok [OF assms] by (simp add: client_ok_def)
  then have "pool_idle (m_pool (manager c)) h + busy c h \<le> 1"
    by (simp add: exclusive_def)
  then show ?thesis
    by (simp add: pool_idle_def busy_def starts_def add.assoc)
qed

theorem connections_exclusive_witness:
  "count_list (m_connection_pool (m_pool (manager example_client)) (stack_host_port example_handle)) example_handle +
      length (filter (\<lambda>k. k \<noteq> Cancel_async) (conn_strand example_client example_handle)) +
      (if has_callback (snd (conns example_client example_handle)) then 1 else 0) +
      reports example_handle (strand (manager example_client)) \<le> 1"
  by (rule connections_exclusive [OF example_client_reach])

text \<open>
  C6: No request is forgotten.  As long as no handler of the manager has thrown, every request in progress has a
  connection to itself, and exactly one thing is under way on it: the start, the request itself, with its timer, or
  the report of its completion.
\<close>

theorem no_request_forgotten:
  assumes "client_reach zl cast junk settings hs False c" "r \<in> set (m_requests (manager c))"
    and "m_request_state r = in_progress"
  shows "\<exists>h. m_connection r = Some h \<and>
    length (filter (\<lambda>x. m_connection x = Some h) (m_requests (manager c))) = 1 \<and>
    starts (conn_strand c h) + (if has_callback (snd (conns c h)) then 1 else 0) + reports h (strand (manager c)) = 1"
proof -
  note ok = client_reach_ok [OF assms(1)]
  have "good_request (m_settings (manager c)) r"
    using manager_reach_ok [OF client_manager [OF assms(1)]] assms(2)
    by (auto simp: reach_ok_def manager_ok_def list_all_iff)
  then obtain h where h: "m_connection r = Some h"
    using assms(3) by (auto simp: good_request_def)
  have "0 < holding h (m_requests (manager c))"
    using assms(2) h by (auto simp: holding_def filter_empty_conv)
  moreover have "holding h (m_requests (manager c)) = busy c h" "busy c h \<le> 1"
    using ok by (auto simp: client_ok_def exclusive_def dest!: spec [of _ h])
  ultimately have "busy c h = 1" "holding h (m_requests (manager c)) = 1"
    by simp_all
  then show ?thesis
    using h by (auto simp: holding_def busy_def)
qed

lemma example_client_simps:
  "m_requests (manager example_client) = [example_busy]" "strand (manager example_client) = []"
  by (simp_all add: example_client_def after_task_def example_manager_requests example_busy_def example_handle_def)

theorem no_request_forgotten_witness:
  "\<exists>h. m_connection example_busy = Some h \<and>
    length (filter (\<lambda>x. m_connection x = Some h) (m_requests (manager example_client))) = 1 \<and>
    starts (conn_strand example_client h) + (if has_callback (snd (conns example_client h)) then 1 else 0) +
      reports h (strand (manager example_client)) = 1"
  by (rule no_request_forgotten [OF example_client_reach])
    (simp_all add: example_client_simps example_busy_def)

text \<open>
  C7: The client never gets stuck.  After any run, whatever is next on the strand of the manager is handled, and so
  are whatever is next on the strand of a connection and whatever the network brings: nothing reads through a
  null pointer, no assertion fails, no handler loops.  zlib is to behave as documented, and fewer than \<open>2 ^ 49\<close>
  bytes are to have come of the body of the response that is being received.
\<close>

theorem client_progress:
  assumes "client_reach zl cast junk settings hs b c" "zlib_ok zl" "event_ok ev"
    and "length (sink_bytes (body_sink (snd (conns c h)))) < 2 ^ 49"
  shows "list_all (\<lambda>t. run_task cast junk t m \<noteq> None) (strand (manager c)) \<and>
    conn_step zl (Start req) (conns c h) \<noteq> None \<and> conn_step zl Cancel (conns c h) \<noteq> None \<and>
    conn_step zl ev (conns c h) \<noteq> None"
proof -
  obtain reqs where "conn_reach zl reqs (conns c h)"
    using client_conn [OF assms(1)] by blast
  then have "parser_ok (fst (conns c h))" "\<not> hung (snd (conns c h))"
    using conn_reach_inv by blast+
  then have "conn_step zl e (conns c h) \<noteq> None" if "event_ok e \<or> (\<exists>req. e = Start req)" for e
    using conn_step_returns [of "fst (conns c h)" "snd (conns c h)", OF _ _ assms(2,4) that] by auto
  then show ?thesis
    using client_names [OF assms(1)] run_task_returns assms(3) by (auto simp: list_all_iff)
qed

theorem client_progress_witness:
  "list_all (\<lambda>t. run_task example_cast 0 t (manager example_client) \<noteq> None) (strand (manager example_client)) \<and>
    conn_step stored_zlib (Start example_request) (conns example_client example_handle) \<noteq> None \<and>
    conn_step stored_zlib Cancel (conns example_client example_handle) \<noteq> None \<and>
    conn_step stored_zlib (Received No_error ''HTTP/1.1 200'') (conns example_client example_handle) \<noteq> None"
  by (rule client_progress [OF example_client_reach stored_ok])
    (simp_all add: read_buffer_size_def example_client_def after_task_def new_client_def new_connection_def
      new_stack_def data_sink_init_def)

end
