(* ===== verification/Network_Operations.thy ===== *)
theory Network_Operations
  imports Connection_Laws
begin

text \<open>
  The network's part.  The network library completes what it was asked for and nothing else: every completion
  answers an asynchronous operation that a handler started and that was not answered before.
  A \<^emph>\<open>served\<close> step of a connection is one in which this holds; the operations still to be answered are carried
  along, taken from the log of effects.
\<close>

section \<open>Operations and their answers\<close>

fun operation :: "effect \<Rightarrow> bool" where
  "operation (Async_resolve h p) = True"
| "operation (Async_connect ep) = True"
| "operation Async_handshake = True"
| "operation (Async_write bytes) = True"
| "operation Async_read = True"
| "operation e = False"

fun answers :: "conn_event \<Rightarrow> effect \<Rightarrow> bool" where
  "answers (Resolved ec eps) (Async_resolve h p) = True"
| "answers (Connected ec) (Async_connect ep) = True"
| "answers (Handshaken ec) Async_handshake = True"
| "answers (Written ec) (Async_write bytes) = True"
| "answers (Received ec bytes) Async_read = True"
| "answers ev e = False"

fun from_network :: "conn_event \<Rightarrow> bool" where
  "from_network (Start req) = False"
| "from_network Cancel = False"
| "from_network (Timer ec) = False"
| "from_network ev = True"

text \<open>The operation an event answers is taken from those that wait; \<open>None\<close> if there is none.\<close>

definition take_operation :: "conn_event \<Rightarrow> effect list \<Rightarrow> effect list option" where
  "take_operation ev ops =
    (if from_network ev then map_option (\<lambda>(xs, e, ys). xs @ ys) (List.extract (answers ev) ops) else Some ops)"

text \<open>What a handler has started.\<close>

definition newly_asked :: "stack \<Rightarrow> stack \<Rightarrow> effect list" where
  "newly_asked s s' = filter operation (drop (length (effects s)) (effects s'))"

section \<open>Served steps\<close>

type_synonym served = "effect list \<times> http_parser \<times> stack"

definition served_step :: "'z zlib \<Rightarrow> conn_event \<Rightarrow> served \<Rightarrow> served option" where
  "served_step zl ev x =
    (case x of (ops, c) \<Rightarrow>
       if from_network ev \<and> \<not> event_ok ev then None
       else (case take_operation ev ops of
         None \<Rightarrow> None
       | Some rest \<Rightarrow> map_option (\<lambda>c'. (rest @ newly_asked (snd c) (snd c'), c')) (conn_step zl ev c)))"

primrec served_run :: "'z zlib \<Rightarrow> conn_event list \<Rightarrow> served \<Rightarrow> served option" where
  "served_run zl [] x = Some x"
| "served_run zl (ev # evs) x = (case served_step zl ev x of None \<Rightarrow> None | Some y \<Rightarrow> served_run zl evs y)"

lemma served_run_append:
  "served_run zl evs x = Some y \<Longrightarrow> served_run zl (evs @ evs') x = served_run zl evs' y"
  by (induction evs arbitrary: x) (auto split: option.splits)

lemma served_step_conn:
  "served_step zl ev (ops, c) = Some (ops', c') \<Longrightarrow> conn_step zl ev c = Some c'"
  by (auto simp: served_step_def split: if_splits option.splits)

lemma served_step_ok: "served_step zl ev x = Some y \<Longrightarrow> from_network ev \<Longrightarrow> event_ok ev"
  by (auto simp: served_step_def split: prod.splits if_splits)

lemma take_operation_one:
  "answers ev e \<Longrightarrow> from_network ev \<Longrightarrow> take_operation ev [e] = Some []"
  "\<not> from_network ev \<Longrightarrow> take_operation ev ops = Some ops"
  "from_network ev \<Longrightarrow> take_operation ev [] = None"
  by (simp_all add: take_operation_def extract_Cons_code extract_Nil_code)

lemma served_step_one:
  assumes "conn_step zl ev (pr, s) = Some (pr', s')" "answers ev e" "event_ok ev"
  shows "served_step zl ev ([e], pr, s) = Some (newly_asked s s', pr', s')"
proof -
  have "from_network ev"
    using assms(2) by (cases ev) simp_all
  then show ?thesis
    using assms by (simp add: served_step_def take_operation_one)
qed

lemma served_step_start:
  assumes "conn_step zl (Start req) (pr, s) = Some (pr', s')"
  shows "served_step zl (Start req) (ops, pr, s) = Some (ops @ newly_asked s s', pr', s')"
  using assms by (simp add: served_step_def take_operation_one)

lemma newly_asked_simps [simp]:
  "newly_asked s (emit e s) = filter operation [e]" "newly_asked s s = []"
  "newly_asked s (s'\<lparr>body_source := src\<rparr>) = newly_asked s s'"
  by (simp_all add: newly_asked_def emit_def)

end
