(* ===== verification/Client_Network.thy ===== *)
theory Client_Network
  imports Client_Properties Network_Operations
begin

text \<open>
  The whole client on a network that answers what it is asked (\<open>Network_Operations\<close>): every event of a connection
  answers an operation that the connection has started and that was not answered before.  On such a network a
  request that is pending is always waiting for something.
\<close>

section \<open>Connections\<close>

text \<open>No more than one operation at a time, and one while the request is pending.\<close>

definition conn_ok :: "effect list \<Rightarrow> stack \<Rightarrow> bool" where
  "conn_ok ops s \<longleftrightarrow> length ops \<le> 1 \<and> list_all operation ops \<and>
     (has_callback s \<longrightarrow> length ops = 1 \<and> m_state (current_request s) \<noteq> state_done)"

text \<open>
  What a step leaves of the operations \<open>ops\<close>: it starts no second one, none at all on a connection that had
  none, and when it completes a request without an error, none is left.
\<close>

definition step_serves :: "effect list \<Rightarrow> stack \<Rightarrow> effect list \<Rightarrow> stack \<Rightarrow> bool" where
  "step_serves ops s ops' s' \<longleftrightarrow> conn_ok ops' s' \<and> (ops = [] \<longrightarrow> ops' = []) \<and>
     (ops' = [] \<or> list_all (\<lambda>(r, ec). is_error ec) (drop (length (completions s)) (completions s')))"

text \<open>The parser's callbacks start nothing, and complete a request only with the message.\<close>

definition receiving :: "stack \<Rightarrow> stack \<Rightarrow> bool" where
  "receiving s v \<longleftrightarrow> (\<exists>es. effects v = effects s @ es \<and> filter operation es = []) \<and>
     (if m_state (current_request v) = state_done then hung v \<or> \<not> has_callback v
      else completions v = completions s \<and> has_callback v = has_callback s)"

lemma receiving_steps:
  assumes "receiving s v"
  shows "receiving s (content_on_body at v)" "receiving s (on_headers code hs v)"
    "(\<And>b. m_state (f b) = m_state b) \<Longrightarrow> receiving s (upd_request f v)"
    "receiving s (v\<lparr>m_not_reusable := b\<rparr>)"
    "receiving s (content_message_complete zl (upd_request (\<lambda>b. b\<lparr>m_state := state_done\<rparr>) v))"
proof -
  show "receiving s (content_message_complete zl (upd_request (\<lambda>b. b\<lparr>m_state := state_done\<rparr>) v))"
    using assms
    by (auto simp: receiving_def content_message_complete_def complete_request_def upd_request_def Let_def
        split: option.split if_splits)
qed (use assms in \<open>auto simp: receiving_def content_on_body_def on_headers_def upd_request_def completions_def\<close>)

interpretation receiving: similar_clients "client_callbacks zl" "client_callbacks zl" "\<lambda>w v. v = w \<and> receiving s w"
  for zl s
proof unfold_locales
  note steps = receiving_steps [where s = s]
  have sel: "m_state (push_current_header b) = m_state b" "m_state (append_field at b) = m_state b"
    "m_state (append_value at b) = m_state b" for b at
    by (simp_all add: push_current_header_def append_field_def append_value_def)
  show "data_cb_rel (\<lambda>w v. v = w \<and> receiving s w) (on_header_field (client_callbacks zl)) (on_header_field (client_callbacks zl))"
    "data_cb_rel (\<lambda>w v. v = w \<and> receiving s w) (on_header_value (client_callbacks zl)) (on_header_value (client_callbacks zl))"
    "data_cb_rel (\<lambda>w v. v = w \<and> receiving s w) (on_body (client_callbacks zl)) (on_body (client_callbacks zl))"
    by (auto simp: data_cb_rel_def run_data_cb_def callback_defs sel intro!: steps)
  show "cb_rel (\<lambda>w v. v = w \<and> receiving s w) (on_message_complete (client_callbacks zl)) (on_message_complete (client_callbacks zl))"
    by (auto simp: cb_rel_def run_cb_def callback_defs intro!: steps)
  show "stateless_cb_rel (\<lambda>w v. v = w \<and> receiving s w) (on_headers_complete (client_callbacks zl)) (on_headers_complete (client_callbacks zl))"
    by (auto simp: stateless_cb_rel_def run_cb_def callback_defs sel intro!: steps)
qed (simp_all add: cb_rel_def data_cb_rel_def run_cb_def run_data_cb_def callback_defs)

lemma receives:
  assumes "on_read zl bytes ec (pr, s) = Some (pr', s')" "\<not> hung s'" "conn_ok [Async_read] s"
  shows "step_serves [Async_read] s (newly_asked s s') s'"
proof (cases "bytes \<noteq> [] \<and> m_state (current_request s) \<noteq> state_done")
  case True
  define s0 where "s0 = (if is_error ec then s\<lparr>m_not_reusable := True\<rparr> else s)"
  obtain n pr1 s1 where run: "http_parser_execute (client_callbacks zl) bytes pr s0 = Some (Returned n pr1 s1)"
      and s': "s' = (if m_state (current_request s1) = state_done then s1
        else if n \<noteq> length bytes then on_error zl (Parser_code (http_errno pr1)) s1
        else if \<not> is_error ec then socket_read s1 else on_error zl ec s1)"
    using assms(1) True
    by (auto simp: on_read_def Let_def s0_def split: option.splits exec_result.splits if_splits)
  have "receiving s s0"
    using True by (simp add: receiving_def s0_def completions_def)
  then have r: "receiving s s1"
    using receiving.execute_similar [OF run] by blast
  then obtain es where es: "effects s1 = effects s @ es" "filter operation es = []"
    by (auto simp: receiving_def)
  then have "newly_asked s s1 = []" "newly_asked s (socket_read s1) = [Async_read]"
    "\<not> hung (on_error zl e s1) \<Longrightarrow> newly_asked s (on_error zl e s1) = []"
    "\<not> hung (on_error zl e s1) \<Longrightarrow> \<not> has_callback (on_error zl e s1)" for e
    by (auto simp: newly_asked_def socket_read_def on_error_def complete_request_def Let_def split: option.split)
  then show ?thesis
    using r s' assms(2,3) stuck.operations(1) [of s1]
    by (auto simp: step_serves_def conn_ok_def receiving_def socket_read_def split: if_splits)
next
  case False
  then show ?thesis
    using assms
    by (auto simp: on_read_def Let_def step_serves_def conn_ok_def newly_asked_def on_error_def socket_read_def
        complete_request_def split: if_splits option.splits)
qed

text \<open>A step that the network or the strand brings, other than a start.\<close>

lemma take_one:
  assumes "take_operation ev ops = Some rest" "from_network ev" "length ops \<le> 1"
  shows "rest = [] \<and> (\<exists>e. ops = [e] \<and> answers ev e)"
  using assms by (cases ops) (auto simp: take_operation_def extract_Cons_code extract_Nil_code split: if_splits)

lemma quiet_steps:
  assumes "conn_ok ops s" "\<not> has_callback s \<or> is_error ec" "\<not> hung (complete_request zl ec s)"
  shows "step_serves ops s ops (complete_request zl ec s)"
    "step_serves ops s ops (socket_close (complete_request zl ec s))"
  using assms
  by (auto simp: step_serves_def conn_ok_def complete_request_def socket_close_def Let_def split: option.splits)

lemma complete_ends:
  assumes "\<not> hung (on_error zl ec s)"
  shows "step_serves [e] s (newly_asked s (on_error zl ec s)) (on_error zl ec s)"
proof -
  have "newly_asked s (on_error zl ec s) = []" "\<not> has_callback (on_error zl ec s)"
    using assms by (auto simp: newly_asked_def on_error_def complete_request_def Let_def split: option.splits)
  then show ?thesis
    by (simp add: step_serves_def conn_ok_def)
qed

lemma emit_asks:
  assumes "operation e'" "conn_ok [e] s" "has_callback t = has_callback s" "completions t = completions s"
    and "current_request t = current_request s" "effects t = effects s"
  shows "step_serves [e] s (newly_asked s (emit e' t)) (emit e' t)"
proof -
  have "newly_asked s (emit e' t) = [e']"
    using assms(1,6) by (simp add: newly_asked_def)
  then show ?thesis
    using assms by (cases e') (simp_all add: step_serves_def conn_ok_def)
qed

lemma next_endpoint_asks:
  assumes "next_endpoint t = Some s'" "conn_ok [e] s" "has_callback t = has_callback s" "completions t = completions s"
    and "current_request t = current_request s" "effects t = effects s"
  shows "step_serves [e] s (newly_asked s s') s'"
  using assms
  by (auto simp: next_endpoint_def split: list.splits intro!: emit_asks)

lemma connected_asks:
  assumes "\<not> hung (on_connected zl ec s)" "conn_ok [e] s"
  shows "step_serves [e] s (newly_asked s (on_connected zl ec s)) (on_connected zl ec s)"
  using assms complete_ends [of zl ec s e] emit_asks [of "Async_write (print_request_headers (current_request s))" e s s]
  by (cases "is_error ec") (simp_all add: on_connected_def send_headers_def socket_write_def)

lemma write_asks:
  assumes "\<not> hung (on_write zl ec s)" "conn_ok [e] s"
  shows "step_serves [e] s (newly_asked s (on_write zl ec s)) (on_write zl ec s)"
proof -
  let ?t = "if is_error ec then on_error zl ec s else s"
  obtain out src where r: "read_callback 1024 (body_source ?t) = (out, src)"
    by fastforce
  have w: "on_write zl ec s = emit (if out = [] then Async_read else Async_write out) (?t\<lparr>body_source := src\<rparr>)"
    using r by (simp add: on_write_def get_body_data_def socket_read_def socket_write_def Let_def)
  show ?thesis
  proof (cases "is_error ec")
    case False
    then show ?thesis
      unfolding w using assms(2) by (intro emit_asks) simp_all
  next
    case True
    have "\<not> hung (on_error zl ec s)"
      using assms(1) True by (simp add: w)
    then have "\<not> has_callback (on_error zl ec s)" "newly_asked s (on_error zl ec s) = []"
        "list_all (\<lambda>(r, ec). is_error ec) (drop (length (completions s)) (completions (on_error zl ec s)))"
        "\<exists>es. effects (on_error zl ec s) = effects s @ es \<and> filter operation es = []"
      using True
      by (auto simp: on_error_def complete_request_def Let_def newly_asked_def split: option.splits)
    then show ?thesis
      using True by (auto simp: w step_serves_def conn_ok_def newly_asked_def)
  qed
qed

lemma served_step_serves:
  assumes "served_step zl ev (ops, pr, s) = Some (ops', pr', s')" "event_ok ev" "conn_ok ops s"
  shows "step_serves ops s ops' s'"
proof -
  obtain rest where rest: "take_operation ev ops = Some rest" "ops' = rest @ newly_asked s s'"
    and step: "conn_step zl ev (pr, s) = Some (pr', s')"
    using assms(1) by (auto simp: served_step_def split: if_splits option.splits)
  show ?thesis
  proof (cases "from_network ev")
    case False
    have none: "newly_asked s (complete_request zl ec s) = []"
      "newly_asked s (socket_close (complete_request zl ec s)) = []" for ec
      by (auto simp: newly_asked_def complete_request_def socket_close_def Let_def split: option.splits)
    have "rest = ops"
      using rest(1) False by (simp add: take_operation_def)
    moreover have "step_serves ops s ops s"
      using assms(3) by (simp add: step_serves_def)
    ultimately show ?thesis
      using False assms(2) step rest(2) none quiet_steps(2) [OF assms(3), of operation_aborted zl]
        quiet_steps(1) [OF assms(3), of timed_out zl]
      by (cases ev) (auto simp: content_cancel_def timer_handler_def)
  next
    case True
    then obtain e where e: "rest = []" "ops = [e]" "answers ev e"
      using take_one [OF rest(1)] assms(3) by (auto simp: conn_ok_def)
    have ok: "conn_ok [e] s"
      using assms(3) e(2) by simp
    have "step_serves [e] s (newly_asked s s') s'"
    proof (cases ev)
      case (Resolved ec eps)
      then show ?thesis
        using step ok connected_asks [of zl ec s e] next_endpoint_asks [of "s\<lparr>endpoints := eps\<rparr>" s' e s]
        by (auto simp: resolve_handler_def split: if_splits)
    next
      case (Connected ec)
      then show ?thesis
        using step ok connected_asks [of zl ec s e] next_endpoint_asks [of s s' e s]
        by (auto simp: connect_handler_defs intro!: emit_asks split: if_splits)
    next
      case (Handshaken ec)
      then show ?thesis
        using step ok connected_asks [of zl ec s e] by (auto simp: handshake_handler_def)
    next
      case (Written ec)
      then show ?thesis
        using step ok write_asks [of zl ec s e] by (auto simp: write_handler_def)
    next
      case (Received ec bytes)
      then have "e = Async_read"
        using e(3) by (cases e) simp_all
      then show ?thesis
        using receives [of zl bytes ec pr s pr' s'] step ok Received by (simp add: read_handler_on_read)
    qed (use True in simp_all)
    then show ?thesis
      using e rest(2) by simp
  qed
qed

lemma served_start:
  assumes "served_step zl (Start req) ([], pr, s) = Some (ops', pr', s')"
  shows "conn_ok ops' s' \<and> length ops' = 1 \<and> has_callback s' \<and> completions s' = completions s"
  using assms
  by (auto simp: served_step_def take_operation_def content_start_def write_headers_def send_headers_def
      socket_write_def socket_connect_def newly_asked_def conn_ok_def Let_def split: option.splits if_splits)

section \<open>Runs of the client\<close>

text \<open>
  \<open>client_reach\<close> with the operations that every connection waits for; what the network brings answers one of them.
\<close>

inductive client_served ::
  "'z zlib \<Rightarrow> (char list \<Rightarrow> 16 word option) \<Rightarrow> nat \<Rightarrow> http_client_settings \<Rightarrow> nat list \<Rightarrow> bool \<Rightarrow>
    (http_stack \<Rightarrow> effect list) \<Rightarrow> client \<Rightarrow> bool"
  for zl cast junk settings where
  start: "client_served zl cast junk settings [] False (\<lambda>_. []) (new_client junk settings)"
| execute: "client_served zl cast junk settings hs b ops c \<Longrightarrow> handler \<notin> set hs \<Longrightarrow>
    client_served zl cast junk settings (hs @ [handler]) b ops
      (c\<lparr>manager := client_execute_request req handler token now (manager c)\<rparr>)"
| cancel: "client_served zl cast junk settings hs b ops c \<Longrightarrow>
    client_served zl cast junk settings hs b ops (c\<lparr>manager := client_cancel_requests token (manager c)\<rparr>)"
| task: "client_served zl cast junk settings hs b ops c \<Longrightarrow> strand (manager c) = t # ts \<Longrightarrow>
    run_task cast junk t ((manager c)\<lparr>strand := ts\<rparr>) = Some (thrown, m') \<Longrightarrow>
    client_served zl cast junk settings hs (b \<or> thrown \<noteq> None) ops (after_task m' c)"
| call: "client_served zl cast junk settings hs b ops c \<Longrightarrow> conn_strand c h = k # ks \<Longrightarrow>
    served_step zl (call_event k) (ops h, conns c h) = Some (ops', x) \<Longrightarrow>
    client_served zl cast junk settings hs b (ops(h := ops'))
      (after_handler h x (c\<lparr>conn_strand := (conn_strand c)(h := ks)\<rparr>))"
| event: "client_served zl cast junk settings hs b ops c \<Longrightarrow> event_ok ev \<Longrightarrow>
    served_step zl ev (ops h, conns c h) = Some (ops', x) \<Longrightarrow>
    client_served zl cast junk settings hs b (ops(h := ops')) (after_handler h x c)"

lemma client_served_reach: "client_served zl cast junk settings hs b ops c \<Longrightarrow> client_reach zl cast junk settings hs b c"
  by (induction rule: client_served.induct) (blast intro: client_reach.intros served_step_conn)+

section \<open>The invariant\<close>

text \<open>The reports of requests that ended without an error, after which the connection is given back to the pool.\<close>

definition reported_well :: "http_stack \<Rightarrow> manager_task list \<Rightarrow> bool" where
  "reported_well h ts \<longleftrightarrow>
     list_ex (\<lambda>t. case t of On_request_completed r x ec \<Rightarrow> x = h \<and> \<not> is_error ec | _ \<Rightarrow> False) ts"

lemma reported_well_simps [simp]:
  "\<not> reported_well h []"
  "reported_well h (t # ts) \<longleftrightarrow>
    (case t of On_request_completed r x ec \<Rightarrow> x = h \<and> \<not> is_error ec | _ \<Rightarrow> False) \<or> reported_well h ts"
  "reported_well h (ts @ ts') \<longleftrightarrow> reported_well h ts \<or> reported_well h ts'"
  "\<not> reported_well h (replicate n Execute_waiting_requests)"
  by (auto simp: reported_well_def in_set_replicate list_ex_iff)

text \<open>
  The connections that a request may still be started on: those not made yet, those in the pool, those with a start
  posted, and those that will be given back.
\<close>

definition usable :: "client \<Rightarrow> http_stack \<Rightarrow> bool" where
  "usable c h \<longleftrightarrow> \<not> pool_known (m_pool (manager c)) h \<or> 0 < pool_idle (m_pool (manager c)) h \<or>
     0 < starts (conn_strand c h) \<or> reported_well h (strand (manager c))"

definition network_ok :: "(http_stack \<Rightarrow> effect list) \<Rightarrow> client \<Rightarrow> bool" where
  "network_ok ops c \<longleftrightarrow> (\<forall>h. conn_ok (ops h) (snd (conns c h)) \<and> (usable c h \<longrightarrow> ops h = []))"

lemma reported_well_reports: "reported_well h ts \<Longrightarrow> 0 < reports h ts"
  by (induction ts) (auto split: manager_task.splits)

lemma pending_not_usable:
  assumes "client_ok zl b c" "has_callback (snd (conns c h))"
  shows "\<not> usable c h"
proof -
  have "pool_idle (m_pool (manager c)) h + busy c h \<le> 1" "0 < busy c h \<longrightarrow> pool_known (m_pool (manager c)) h"
    using assms(1) by (simp_all add: client_ok_def exclusive_def)
  then show ?thesis
    using assms(2) reported_well_reports [of h "strand (manager c)"] by (auto simp: usable_def busy_def)
qed

text \<open>A task of the manager makes no connection usable that was not.\<close>

lemma release_idle:
  "pool_idle (release_connection h b p) x \<le> pool_idle p x + (if x = h \<and> \<not> b then 1 else 0)"
  by (simp add: pool_idle_def release_connection_def Let_def)

lemma waiting_usable:
  assumes "manager_ok hs posted m" "m_pool m = m_pool (manager c)" "calls m = calls (manager c)" "pool_ok (m_pool m)"
    and "usable (after_task (execute_waiting_requests m) c) h" "reported_well h (strand m) \<Longrightarrow> usable c h"
  shows "usable c h"
  using assms(1)
proof (cases rule: waiting_effect)
  case idle
  then show ?thesis
    using assms by (auto simp: usable_def after_task_def distribute_def)
next
  case (started r h' pool)
  let ?k = "(m_url (m_http_request r), m_certificates (m_http_request r))"
  have get: "get_connection' ?k (m_pool m) = (h', pool)"
    using started(1) by simp
  note known = pool.acquire_known [OF assms(4) get, of h] and idle = pool.acquire_idle [OF assms(4) get]
  show ?thesis
    using assms(2,3,5,6) started(2-4) known idle
    by (cases "h = h'") (auto simp: usable_def after_task_def distribute_def)
qed

lemma task_usable:
  assumes "client_ok zl b c" "reach_ok settings hs (manager c)" "strand (manager c) = t # ts"
    and "run_task cast junk t ((manager c)\<lparr>strand := ts\<rparr>) = Some (thrown, m')" "usable (after_task m' c) h"
  shows "usable c h"
proof -
  let ?m = "(manager c)\<lparr>strand := ts\<rparr>"
  obtain hs' posted where ok: "manager_ok hs' posted ?m"
    using assms(2) by (auto simp: reach_ok_def)
  have pool: "pool_ok (m_pool (manager c))"
    using assms(1) by (simp add: client_ok_def)
  have well: "reported_well h ts \<Longrightarrow> usable c h"
    using assms(3) by (simp add: usable_def)
  obtain k where strand: "strand m' = ts @ replicate k Execute_waiting_requests"
    using run_task_strand [OF assms(2-4)] by blast
  show ?thesis
  proof (cases t)
    case (Execute_request r)
    then obtain hs1 where "manager_ok (hs1 @ [m_completion_handler r]) (Suc (posted_waiting ts))
        (?m\<lparr>m_requests := m_requests (manager c) @ [r]\<rparr>)"
      using queued_head_ok [OF assms(2)] assms(3) by metis
    then show ?thesis
      using waiting_usable [of _ _ "?m\<lparr>m_requests := m_requests (manager c) @ [r]\<rparr>" c h] assms(4,5) pool well
        Execute_request by (auto simp: execute_request_def)
  next
    case Execute_waiting_requests
    then show ?thesis
      using waiting_usable [OF ok, of c h] assms(4,5) pool well by auto
  next
    case (Cancel_requests token)
    then have m': "m' = cancel_requests junk token ?m"
      using assms(4) by simp
    have "m_pool m' = m_pool (manager c)"
      unfolding m' using cancel_requests_effect(1) [OF ok, where junk = junk and token = token] by simp
    moreover obtain rs :: request_list where "calls m' = calls (manager c) @ map (\<lambda>r. (the (m_connection r), Cancel_async)) rs"
      unfolding m' using cancel_requests_effect(4) [OF ok, where junk = junk and token = token] by auto
    ultimately show ?thesis
      using assms(5) strand well by (auto simp: usable_def after_task_def distribute_def cancel_calls)
  next
    case (On_request_completed result x ec)
    then have "on_request_completed cast result x ec ?m = Some (thrown, m')"
      using assms(4) by simp
    from completed_effect [OF ok this]
    have "m_pool m' = release_connection x (is_error ec) (m_pool (manager c))" "calls m' = calls (manager c)"
      by simp_all
    then show ?thesis
      using assms(3,5) strand On_request_completed pool.give_back_known [of x "is_error ec" "m_pool (manager c)" h]
        release_idle [of x "is_error ec" "m_pool (manager c)" h]
      by (auto simp: usable_def after_task_def distribute_def split: if_splits)
  qed
qed

lemma usable_after_handler:
  assumes "usable (after_handler h x c) h'"
  shows "usable c h' \<or> h' = h \<and> \<not> list_all (\<lambda>(r, ec). is_error ec)
    (drop (length (completions (snd (conns c h)))) (completions (snd x)))"
proof -
  have "reported_well h' (map (\<lambda>(r, ec). On_request_completed r h ec) xs) \<Longrightarrow>
      h' = h \<and> \<not> list_all (\<lambda>(r, ec). is_error ec) xs" for xs
    by (induction xs) auto
  then show ?thesis
    using assms by (auto simp: usable_def after_handler_def strand_reported reported_def)
qed

lemma handler_network_ok:
  assumes "network_ok ops c" "step_serves (ops h) (snd (conns c h)) ops' (snd x)" "conns c' = conns c"
    and "\<And>h'. usable c' h' \<Longrightarrow> usable c h'"
  shows "network_ok (ops(h := ops')) (after_handler h x c')"
proof -
  have "conn_ok ((ops(h := ops')) h') (snd (conns (after_handler h x c') h'))" for h'
    using assms(1-3) by (simp add: network_ok_def after_handler_def step_serves_def)
  moreover have "(ops(h := ops')) h' = []" if "usable (after_handler h x c') h'" for h'
    using usable_after_handler [OF that] assms by (auto simp: network_ok_def step_serves_def)
  ultimately show ?thesis
    by (simp add: network_ok_def)
qed

lemma client_served_ok: "client_served zl cast junk settings hs b ops c \<Longrightarrow> network_ok ops c"
proof (induction rule: client_served.induct)
  case start
  show ?case
    by (simp add: network_ok_def conn_ok_def new_client_def new_connection_def new_stack_def)
next
  case (execute hs b ops c handler req token now)
  then show ?case
    by (simp add: network_ok_def usable_def client_execute_request_def post_task_def)
next
  case (cancel hs b ops c token)
  then show ?case
    by (simp add: network_ok_def usable_def client_cancel_requests_def post_task_def)
next
  case (task hs b ops c t ts thrown m')
  note reach = client_served_reach [OF task(1)]
  have "usable (after_task m' c) h \<Longrightarrow> usable c h" for h
    using task_usable [OF client_reach_ok [OF reach] manager_reach_ok [OF client_manager [OF reach]] task(2,3)] .
  then show ?case
    using task.IH by (auto simp: network_ok_def after_task_def)
next
  case (call hs b ops c h k ks ops' x)
  let ?c = "c\<lparr>conn_strand := (conn_strand c)(h := ks)\<rparr>"
  have sub: "usable ?c h' \<Longrightarrow> usable c h'" for h'
    using call(2) by (auto simp: usable_def split: if_splits)
  have ok: "conn_ok (ops h) (snd (conns c h))"
    using call.IH by (simp add: network_ok_def)
  show ?case
  proof (cases k)
    case Cancel_async
    then have "step_serves (ops h) (snd (conns c h)) ops' (snd x)"
      using served_step_serves [of zl Cancel "ops h" "fst (conns c h)" "snd (conns c h)" ops' "fst x" "snd x"] call(3) ok
      by simp
    then show ?thesis
      by (rule handler_network_ok [OF call.IH]) (use sub in simp_all)
  next
    case (Start_async req)
    have "ops h = []"
      using call.IH call(2) Start_async by (auto simp: network_ok_def usable_def)
    then have st: "conn_ok ops' (snd x)" "has_callback (snd x)"
      using served_start [of zl req "fst (conns c h)" "snd (conns c h)" ops' "fst x" "snd x"] call(3) Start_async
      by auto
    have "client_served zl cast junk settings hs b (ops(h := ops')) (after_handler h x ?c)"
      using client_served.call [OF call(1-3)] .
    from pending_not_usable [OF client_reach_ok [OF client_served_reach [OF this]], of h]
    have "\<not> usable (after_handler h x ?c) h"
      using st(2) by simp
    moreover have "usable c h'" if "usable (after_handler h x ?c) h'" "h' \<noteq> h" for h'
      using usable_after_handler [OF that(1)] that(2) sub by simp
    ultimately show ?thesis
      using call.IH st(1) by (auto simp: network_ok_def after_handler_def)
  qed
next
  case (event hs b ops c ev h ops' x)
  have "step_serves (ops h) (snd (conns c h)) ops' (snd x)"
    using served_step_serves [of zl ev "ops h" "fst (conns c h)" "snd (conns c h)" ops' "fst x" "snd x"] event
    by (simp add: network_ok_def)
  then show ?case
    by (rule handler_network_ok [OF event.IH]) simp_all
qed

section \<open>Property\<close>

text \<open>
  C40: A request that is pending is always waiting for something.  In every run of the client on a network that answers
  what it is asked, and nothing else, with whatever is cancelled, times out, fails or throws, every connection has
  at most one operation of the network under way, and exactly one as long as its request is pending: the name being
  resolved, an endpoint being connected to, the handshake, a block being written or the response being read.
\<close>

theorem pending_request_served:
  assumes "client_served zl cast junk settings hs b ops c"
  shows "if has_callback (snd (conns c h)) then \<exists>op. ops h = [op] \<and> operation op else length (ops h) \<le> 1"
  using client_served_ok [OF assms] by (auto simp: network_ok_def conn_ok_def length_Suc_conv)

text \<open>The example's request, started on its connection.\<close>

lemma example_client_served: "client_served stored_zlib example_cast 0 default_settings [7] False (\<lambda>_. []) example_client"
proof -
  let ?c = "(new_client 0 default_settings)\<lparr>manager :=
    client_execute_request example_request 7 ''token'' 0 (manager (new_client 0 default_settings))\<rparr>"
  have "client_served stored_zlib example_cast 0 default_settings ([] @ [7]) False (\<lambda>_. []) ?c"
    by (rule client_served.execute [OF client_served.start]) simp
  then have "client_served stored_zlib example_cast 0 default_settings [7] (False \<or> (None :: url_error option) \<noteq> None)
      (\<lambda>_. []) (after_task example_manager ?c)"
    by (intro client_served.task [where t = "Execute_request (new_request_data example_request 7 ''token'' 0)" and ts = "[]"])
      (simp_all add: client_execute_request_def post_task_def new_client_def new_request_manager_def
        example_manager_def)
  then show ?thesis
    by (simp add: example_client_def)
qed

lemma example_calls: "calls example_manager = [(example_handle, Start_async example_request)]"
  by (simp add: example_manager_def execute_request_def execute_waiting_requests_def new_request_manager_def
      index_state_begin_single new_request_data_def default_settings_def modify_def example_request_def
      example_handle_def Let_def split: prod.split)

lemma example_pending:
  "\<exists>ops c. client_served stored_zlib example_cast 0 default_settings [7] False ops c \<and>
    has_callback (snd (conns c example_handle))"
proof -
  obtain pr s where conn: "conns example_client example_handle = (pr, s)"
    by fastforce
  have queue: "conn_strand example_client example_handle = [Start_async example_request]"
    by (simp add: example_client_def after_task_def distribute_def new_client_def example_calls
        new_request_manager_def client_execute_request_def post_task_def)
  obtain src where "data_source_init stored_zlib (m_post_data example_request) (m_compression_policy example_request) = Some src"
    using data_source_returns [OF stored_ok] by blast
  then obtain ops' s' where step: "served_step stored_zlib (Start example_request) ([], pr, s) = Some (ops', pr, s')"
    by (auto simp: served_step_def take_operation_def content_start_def Let_def)
  have "client_served stored_zlib example_cast 0 default_settings [7] False ((\<lambda>_. [])(example_handle := ops'))
      (after_handler example_handle (pr, s') (example_client\<lparr>conn_strand := (conn_strand example_client)(example_handle := [])\<rparr>))"
    by (rule client_served.call [OF example_client_served queue]) (simp add: conn step)
  moreover have "has_callback s'"
    using served_start [OF step] by simp
  ultimately show ?thesis
    using conns_after_handler by (metis snd_conv)
qed

theorem pending_request_served_witness:
  "\<exists>ops c. client_served stored_zlib example_cast 0 default_settings [7] False ops c \<and>
    has_callback (snd (conns c example_handle)) \<and> (\<exists>op. ops example_handle = [op] \<and> operation op)"
proof -
  obtain ops c where c: "client_served stored_zlib example_cast 0 default_settings [7] False ops c"
      "has_callback (snd (conns c example_handle))"
    using example_pending by blast
  then show ?thesis
    using pending_request_served [OF c(1), of example_handle] by auto
qed

end
