(* ===== verification/Parser_Lines.thy ===== *)
theory Parser_Lines
  imports Parser_Trace
begin

text \<open>
  The first line of a message: what a run over a response line or a request line leaves, and the
  method matcher.
\<close>

section \<open>Runs without marks\<close>

definition bare :: "http_parser \<Rightarrow> 'w \<Rightarrow> nat \<Rightarrow> state \<Rightarrow> bool \<Rightarrow> 'w locals" where
  "bare pr w p s b =
    \<lparr>parser = pr, app = w, cur_ch = NUL, cur_p = p, p_state = s, header_field_mark = None,
     header_value_mark = None, url_mark = None, body_mark = None, status_mark = None, lenient = b\<rparr>"

lemma bare_sel [simp]:
  "parser (bare pr w p s b) = pr" "app (bare pr w p s b) = w" "cur_p (bare pr w p s b) = p"
  "p_state (bare pr w p s b) = s" "header_field_mark (bare pr w p s b) = None"
  "header_value_mark (bare pr w p s b) = None" "url_mark (bare pr w p s b) = None"
  "body_mark (bare pr w p s b) = None" "status_mark (bare pr w p s b) = None"
  "lenient (bare pr w p s b) = b"
  by (simp_all add: bare_def)

text \<open>
  Inside a pass the locals are written out, and they fold back when the pass ends; the byte read
  last is forgotten.
\<close>

lemma run_bare:
  "exec_run st buf False
    \<lparr>parser = pr, app = w, cur_ch = c, cur_p = p, p_state = s, header_field_mark = None,
     header_value_mark = None, url_mark = None, body_mark = None, status_mark = None, lenient = b\<rparr> =
   exec_run st buf False (bare pr w p s b)"
  using run_ch [where l = "bare pr w p s b" and c = c] by (simp add: bare_def)

text \<open>The rest of the buffer as the run moves on.\<close>

lemma drop_Suc_tl: "drop (Suc n) xs = tl (drop n xs)"
  by (simp add: drop_Suc tl_drop)

lemma room_tickI: "unat (nread pr) + n + m \<le> HTTP_MAX_HEADER_SIZE \<Longrightarrow> room m (tick n pr)"
  by (rule room_tick) (simp add: room_def)

lemma bare_run:
  assumes "drop p buf \<noteq> []" "PARSING_HEADER s" "room 1 pr"
  shows "exec_run st buf False (bare pr w p s b) = exec_run st buf True
    \<lparr>parser = tick 1 pr, app = w, cur_ch = hd (drop p buf), cur_p = p, p_state = s,
     header_field_mark = None, header_value_mark = None, url_mark = None, body_mark = None,
     status_mark = None, lenient = b\<rparr>"
  using assms exec_run_byte [of "bare pr w p s b" buf st]
  by (simp add: fetched_def hd_drop_conv_nth) (simp add: bare_def)

lemma parsing_start [simp]: "PARSING_HEADER s_start_res" "PARSING_HEADER s_res_H"
  "PARSING_HEADER s_res_HT" "PARSING_HEADER s_res_HTT" "PARSING_HEADER s_res_HTTP"
  "PARSING_HEADER s_res_http_major" "PARSING_HEADER s_res_http_dot" "PARSING_HEADER s_res_http_minor"
  "PARSING_HEADER s_res_http_end" "PARSING_HEADER s_res_first_status_code"
  "PARSING_HEADER s_res_status_code" "PARSING_HEADER s_res_status_start" "PARSING_HEADER s_res_status"
  "PARSING_HEADER s_res_line_almost_done"
  by (simp_all add: PARSING_HEADER_def less_eq_state_def)

lemmas run_simps = bare_run drop_Suc_tl room_tickI exec_run_switch exec_switch_def case_defs
  macro_defs Let_def run_bare

text \<open>One byte, from any locals.\<close>

lemma run_byte:
  assumes "cur_p l < length buf" "PARSING_HEADER (p_state l) \<Longrightarrow> room 1 (parser l)"
    and "exec_switch st buf (fetched buf l) = Break (l'\<lparr>cur_ch := c\<rparr>)"
  shows "exec_run st buf False l = exec_run st buf False (l'\<lparr>cur_p := cur_p l' + 1\<rparr>)"
proof -
  have "exec_run st buf False l = exec_run st buf False (l'\<lparr>cur_ch := c, cur_p := cur_p l' + 1\<rparr>)"
    using exec_run_byte [of l buf st] run_break [OF assms(3)] assms(1,2) by simp
  also have "l'\<lparr>cur_ch := c, cur_p := cur_p l' + 1\<rparr> = l'\<lparr>cur_p := cur_p l' + 1, cur_ch := c\<rparr>"
    by simp
  finally show ?thesis by (simp only: run_ch)
qed

lemma drop_Cons:
  assumes "drop p buf = x # xs"
  shows "p < length buf" "buf ! p = x" "drop (Suc p) buf = xs"
proof -
  show p: "p < length buf"
    by (rule ccontr) (use assms in simp)
  show "buf ! p = x" "drop (Suc p) buf = xs"
    using Cons_nth_drop_Suc [OF p] assms by auto
qed

section \<open>Response line\<close>

lemma run_http_version:
  assumes "drop p buf = ''HTTP/1.1 '' @ rest" "room 9 pr" "http_errno pr = HPE_OK"
  shows "exec_run recorder buf False (bare pr w p s_start_res b) =
    exec_run recorder buf False (bare
      ((tick 9 pr)\<lparr>flags := 0, content_length := ULLONG_MAX, state := s_res_H, http_major := 1,
        http_minor := 1\<rparr>)
      (w @ [Ev_message_begin]) (p + 9) s_res_first_status_code b)"
  using assms
  by (simp add: run_simps room_def [of _ pr] IS_NUM_def digit_val_def, simp add: eval_nat_numeral)

lemma run_status_digits:
  assumes "drop p buf = ds @ rest" "list_all IS_NUM ds" "dec_from v ds \<le> 999" "room (length ds) pr"
  shows "exec_run st buf False (bare (pr\<lparr>status_code := of_nat v\<rparr>) w p s_res_status_code b) =
    exec_run st buf False (bare ((tick (length ds) pr)\<lparr>status_code := of_nat (dec_from v ds)\<rparr>) w
      (p + length ds) s_res_status_code b)"
  using assms
proof (induction ds arbitrary: p v pr)
  case (Cons c ds)
  note d = drop_Cons [OF Cons.prems(1) [unfolded append_Cons]]
  let ?v = "v * 10 + digit_val c"
  have c: "IS_NUM c" and le: "?v \<le> 999"
    using Cons.prems(2,3) dec_from_mono [of ?v ds] by simp_all
  have word: "of_nat v * 10 + of_nat (digit_val c) = (of_nat ?v :: 16 word)"
    by simp
  have small: "unat (of_nat ?v :: 16 word) = ?v"
    using le by (simp only: unat_of_nat, simp)
  have "exec_run st buf False (bare (pr\<lparr>status_code := of_nat v\<rparr>) w p s_res_status_code b) =
      exec_run st buf False (bare ((tick 1 pr)\<lparr>status_code := of_nat ?v\<rparr>) w (Suc p) s_res_status_code b)"
    using Cons.prems(1,4) c le small
    by (simp add: run_simps room_def del: of_nat_add of_nat_mult add: word [symmetric])
  also have "\<dots> = exec_run st buf False (bare ((tick (length ds) (tick 1 pr))\<lparr>status_code :=
      of_nat (dec_from ?v ds)\<rparr>) w (Suc p + length ds) s_res_status_code b)"
    using Cons.prems d room_tick [of 1 "length ds" pr] by (intro Cons.IH) auto
  finally show ?case by simp
qed simp

text \<open>The reason phrase is passed over until the end of the line.\<close>

lemma run_reason:
  assumes "drop (cur_p l) buf = xs @ rest" "p_state l = s_res_status" "room (length xs) (parser l)"
    and "CR \<notin> set xs" "LF \<notin> set xs"
  shows "exec_run st buf False l =
    exec_run st buf False (l\<lparr>parser := tick (length xs) (parser l), cur_p := cur_p l + length xs\<rparr>)"
  using assms
proof (induction xs arbitrary: l)
  case (Cons x xs)
  note d = drop_Cons [OF Cons.prems(1) [unfolded append_Cons]]
  let ?l = "l\<lparr>parser := tick 1 (parser l)\<rparr>"
  have "x \<noteq> CR" "x \<noteq> LF"
    using Cons.prems by auto
  then have "exec_switch st buf (fetched buf l) = Break (?l\<lparr>cur_ch := x\<rparr>)"
    using Cons.prems d by (simp add: fetched_def exec_switch_def case_res_status_def)
  then have "exec_run st buf False l = exec_run st buf False (?l\<lparr>cur_p := cur_p ?l + 1\<rparr>)"
    using Cons.prems d by (intro run_byte) (auto simp: room_def)
  also have "\<dots> = exec_run st buf False (?l\<lparr>parser := tick (length xs) (parser ?l), cur_p := cur_p l + 1 + length xs\<rparr>)"
    using Cons.prems d room_tick [of 1 "length xs" "parser l"] by (subst Cons.IH) auto
  finally show ?case by simp
qed simp

text \<open>The end of the line, as CR LF.\<close>

definition status_line :: "nat \<Rightarrow> char list \<Rightarrow> char list" where
  "status_line code reason = ''HTTP/1.1 '' @ decimal code @ [CHR '' ''] @ reason @ [CR, LF]"

definition status_parsed :: "nat \<Rightarrow> nat \<Rightarrow> http_parser \<Rightarrow> http_parser" where
  "status_parsed n code pr = (tick n pr)\<lparr>flags := 0, content_length := ULLONG_MAX, http_major := 1,
     http_minor := 1, status_code := of_nat code, index := 0, state := s_res_line_almost_done\<rparr>"

lemma drop_past: "drop p buf = xs @ rest \<Longrightarrow> drop (p + length xs) buf = rest"
  by (metis add.commute append_eq_conv_conj drop_drop)

lemma run_line_end:
  assumes "drop p buf = LF # rest" "room 1 pr" "http_errno pr = HPE_OK"
  shows "exec_run st buf False (bare pr w p s_res_line_almost_done b) =
    exec_run st buf False (bare (tick 1 pr) w (Suc p) s_header_field_start b)"
  using assms by (simp add: run_simps room_def [of _ pr])

lemma run_status_reason:
  assumes "drop p buf = reason @ CR # LF # rest" "room (length reason + 2) pr"
    and "CR \<notin> set reason" "LF \<notin> set reason" "http_errno pr = HPE_OK"
  shows "exec_run recorder buf False (bare pr w p s_res_status_start b) =
    exec_run recorder buf False
      (bare ((tick (length reason + 2) pr)\<lparr>index := 0, state := s_res_line_almost_done\<rparr>)
        (w @ [Ev_status reason]) (p + length reason + 2) s_header_field_start b)"
proof -
  let ?pr = "\<lambda>n. (tick n pr)\<lparr>index := 0, state := s_res_line_almost_done\<rparr>"
  have end_of_line: "exec_run recorder buf False (bare (?pr (length reason + 1)) w' (Suc (p + length reason))
        s_res_line_almost_done b) =
      exec_run recorder buf False (bare (?pr (length reason + 2)) w' (p + length reason + 2)
        s_header_field_start b)" for w'
    using run_line_end [of "Suc (p + length reason)" buf rest "?pr (length reason + 1)" recorder w' b]
      drop_past [OF assms(1)] room_tick [of "length reason + 1" 1 pr] assms(2,5)
    by (simp add: drop_Suc_tl)
  show ?thesis
  proof (cases reason)
    case Nil
    have "exec_run recorder buf False (bare pr w p s_res_status_start b) =
        exec_run recorder buf False (bare (?pr 1) (w @ [Ev_status []]) (Suc p) s_res_line_almost_done b)"
      using assms Nil drop_Cons [of p buf CR]
      by (simp add: run_simps room_def [of _ pr] callback_status_def mark_at_def)
    then show ?thesis using end_of_line Nil by simp
  next
    case (Cons x xs)
    have x: "x \<noteq> CR" "x \<noteq> LF" "CR \<notin> set xs" "LF \<notin> set xs"
      using assms(3,4) Cons by auto
    let ?l = "\<lambda>n. \<lparr>parser = (tick (n + 1) pr)\<lparr>index := 0\<rparr>, app = w, cur_ch = x, cur_p = Suc p + n,
        p_state = s_res_status, header_field_mark = None, header_value_mark = None, url_mark = None,
        body_mark = None, status_mark = Some p, lenient = b\<rparr>"
    have "exec_run recorder buf False (bare pr w p s_res_status_start b) = exec_run recorder buf False (?l 0)"
      using assms Cons x by (simp add: run_simps room_def [of _ pr] mark_at_def)
    also have "\<dots> = exec_run recorder buf False (?l (length xs))"
      using assms Cons x run_reason [of "?l 0" buf xs "CR # LF # rest" recorder]
        room_tick [of 1 "length xs" pr] room_mono [of "length reason + 2" pr "1 + length xs"]
      by (simp add: drop_Suc_tl)
    also have "\<dots> = exec_run recorder buf False (bare (?pr (length reason + 1)) (w @ [Ev_status reason])
        (Suc (p + length reason)) s_res_line_almost_done b)"
    proof -
      have d: "drop (Suc p + length xs) buf = CR # LF # rest"
        using drop_past [OF assms(1)] Cons by simp
      have "subbuf buf p (Suc (p + length xs)) = reason"
        using assms(1) Cons by (simp add: subbuf_def)
      then show ?thesis
        using drop_Cons [OF d] room_tick [of "length reason" 1 pr] assms(2,5) Cons
          exec_run_byte [of "?l (length xs)" buf recorder]
        by (simp add: run_simps fetched_def room_def [of _ pr] callback_status_def)
    qed
    finally show ?thesis using end_of_line by simp
  qed
qed

lemma run_status_line:
  assumes "drop p buf = status_line code reason @ rest" "room (length (status_line code reason)) pr"
    and "code \<le> 999" "CR \<notin> set reason" "LF \<notin> set reason" "http_errno pr = HPE_OK"
  shows "exec_run recorder buf False (bare pr w p s_start_res b) =
    exec_run recorder buf False (bare (status_parsed (length (status_line code reason)) code pr)
      (w @ [Ev_message_begin, Ev_status reason]) (p + length (status_line code reason))
      s_header_field_start b)"
proof -
  obtain d ds where dec: "decimal code = d # ds"
    by (cases "decimal code") auto
  have digits: "IS_NUM d" "list_all IS_NUM ds" "dec_from (digit_val d) ds = code"
    using decimal_digits [of code] decimal_value [of code] by (simp_all add: dec)
  let ?pr = "\<lambda>n c. (tick n pr)\<lparr>flags := 0, content_length := ULLONG_MAX, state := s_res_H,
      http_major := 1, http_minor := 1, status_code := of_nat c\<rparr>"
  let ?w = "w @ [Ev_message_begin]"
  let ?k = "length ds"
  have room: "unat (nread pr) + (10 + ?k + 1 + (length reason + 2)) \<le> HTTP_MAX_HEADER_SIZE"
    using assms(2) by (simp add: room_def status_line_def dec)
  have len: "length (status_line code reason) = 13 + (?k + length reason)"
    by (simp add: status_line_def dec)
  have d0: "drop p buf = ''HTTP/1.1 '' @ d # (ds @ CHR '' '' # reason @ CR # LF # rest)"
    using assms(1) by (simp add: status_line_def dec)
  have d9: "drop (p + 9) buf = d # (ds @ CHR '' '' # reason @ CR # LF # rest)"
    using drop_past [OF d0] by (simp add: eval_nat_numeral)
  have d10: "drop (p + 10) buf = ds @ CHR '' '' # (reason @ CR # LF # rest)"
    using drop_past [of "p + 9" buf "[d]"] d9 by (simp add: add.commute)
  have d11: "drop (p + 10 + ?k) buf = CHR '' '' # (reason @ CR # LF # rest)"
    using drop_past [OF d10] by simp
  have d12: "drop (p + 10 + ?k + 1) buf = reason @ CR # LF # rest"
    using drop_Cons [OF d11] by simp
  have "exec_run recorder buf False (bare pr w p s_start_res b) =
      exec_run recorder buf False (bare ((tick 9 pr)\<lparr>flags := 0, content_length := ULLONG_MAX,
        state := s_res_H, http_major := 1, http_minor := 1\<rparr>) ?w (p + 9) s_res_first_status_code b)"
    using run_http_version [OF d0] room assms(6) by (simp add: room_def)
  also have "\<dots> = exec_run recorder buf False (bare (?pr 10 (digit_val d)) ?w (p + 10) s_res_status_code b)"
    using d9 digits(1) room by (simp add: run_simps) (simp add: eval_nat_numeral)
  also have "\<dots> = exec_run recorder buf False (bare (?pr (10 + ?k) code) ?w (p + 10 + ?k) s_res_status_code b)"
    using run_status_digits [OF d10 digits(2), of "digit_val d" "(tick 10 pr)\<lparr>flags := 0,
          content_length := ULLONG_MAX, state := s_res_H, http_major := 1, http_minor := 1\<rparr>" recorder ?w b]
      digits(3) assms(3) room
    by (simp add: room_tickI)
  also have "\<dots> = exec_run recorder buf False (bare (?pr (10 + ?k + 1) code) ?w (p + 10 + ?k + 1) s_res_status_start b)"
    using d11 room by (simp add: run_simps)
  also have "\<dots> = exec_run recorder buf False (bare (status_parsed (length (status_line code reason)) code pr)
      (w @ [Ev_message_begin, Ev_status reason]) (p + length (status_line code reason))
      s_header_field_start b)"
    using run_status_reason [OF d12, of "?pr (10 + ?k + 1) code" ?w b] assms(4,5,6) room
    by (simp add: status_parsed_def len room_tickI ac_simps)
  finally show ?thesis .
qed

end
