(* ===== verification/Parser_Headers.thy ===== *)
theory Parser_Headers
  imports Parser_Lines "HOL-Library.Sublist"
begin

text \<open>
  Header lines: the field matcher recognises exactly the five field names it looks for, in any
  case; the value loop reads \<open>Content-Length\<close> and \<open>chunked\<close>; and what a run over a header line
  leaves.
\<close>

section \<open>The field matcher\<close>

definition special_names :: "string list" where
  "special_names = [CONNECTION, PROXY_CONNECTION, CONTENT_LENGTH, TRANSFER_ENCODING, UPGRADE]"

lemmas special_defs = CONNECTION_def PROXY_CONNECTION_def CONTENT_LENGTH_def TRANSFER_ENCODING_def
  UPGRADE_def

text \<open>The state that stands for a name, in lower case.\<close>

definition field_kind :: "string \<Rightarrow> header_states" where
  "field_kind name =
    (if name = CONNECTION \<or> name = PROXY_CONNECTION then h_connection
     else if name = CONTENT_LENGTH then h_content_length
     else if name = TRANSFER_ENCODING then h_transfer_encoding
     else if name = UPGRADE then h_upgrade
     else h_general)"

text \<open>The state after the first bytes \<open>ps\<close> of a name.\<close>

definition field_state :: "string \<Rightarrow> header_states" where
  "field_state ps =
    (if field_kind ps \<noteq> h_general then field_kind ps
     else if ps = ''c'' then h_C
     else if ps = ''co'' then h_CO
     else if ps = ''con'' then h_CON
     else if prefix ps CONNECTION then h_matching_connection
     else if prefix ps PROXY_CONNECTION then h_matching_proxy_connection
     else if prefix ps CONTENT_LENGTH then h_matching_content_length
     else if prefix ps TRANSFER_ENCODING then h_matching_transfer_encoding
     else if prefix ps UPGRADE then h_matching_upgrade
     else h_general)"

definition field_match :: "string \<Rightarrow> http_parser \<Rightarrow> bool" where
  "field_match ps pr \<longleftrightarrow> header_state pr = field_state ps \<and>
    (field_state ps \<noteq> h_general \<longrightarrow> index pr = of_nat (length ps - 1) \<and> length ps \<le> 17)"

definition special_prefix :: "string \<Rightarrow> bool" where
  "special_prefix ps \<longleftrightarrow> list_ex (prefix ps) special_names"

lemma field_state_general: "\<not> special_prefix ps \<Longrightarrow> field_state ps = h_general"
  by (auto simp: special_prefix_def special_names_def field_state_def field_kind_def special_defs)

lemma special_prefix_snoc: "special_prefix (ps @ [c]) \<Longrightarrow> special_prefix ps"
  by (auto simp: special_prefix_def special_names_def dest: append_prefixD)

text \<open>There are few prefixes, so a step of the matcher is checked on each.\<close>

definition special_prefixes :: "string list" where
  "special_prefixes = concat (map prefixes special_names)"

lemma special_prefixes: "special_prefix ps \<longleftrightarrow> ps \<in> set special_prefixes"
  by (simp add: special_prefix_def special_prefixes_def special_names_def)

definition field_step_ok :: "string \<Rightarrow> http_parser \<Rightarrow> char \<Rightarrow> char \<Rightarrow> bool" where
  "field_step_ok ps pr x c = (case header_field_char pr x c of None \<Rightarrow> False
     | Some pr' \<Rightarrow> pr' = pr\<lparr>index := index pr', header_state := field_state (ps @ [c])\<rparr> \<and>
         field_match (ps @ [c]) pr')"

lemmas field_simps = field_step_ok_def field_match_def field_state_def field_kind_def special_defs
  header_field_char_def Let_def match_step_def cstr_at_def

lemma field_step_table:
  assumes "x \<noteq> CHR '' ''" "c \<noteq> NUL"
  shows "list_all (\<lambda>ps. ps \<noteq> [] \<longrightarrow> field_match ps pr \<longrightarrow> field_step_ok ps pr x c) special_prefixes"
  using assms by (simp add: special_prefixes_def special_names_def field_simps)

lemma field_step:
  assumes "ps \<noteq> []" "field_match ps pr" "x \<noteq> CHR '' ''" "c \<noteq> NUL"
  shows "field_step_ok ps pr x c"
proof (cases "special_prefix ps")
  case True
  then show ?thesis
    using field_step_table [OF assms(3,4), of pr] assms(1,2) by (simp add: special_prefixes list_all_iff)
next
  case False
  then have "field_state ps = h_general" "field_state (ps @ [c]) = h_general"
    using special_prefix_snoc [of ps c] by (auto intro: field_state_general)
  then show ?thesis
    using assms(2) by (simp add: field_step_ok_def field_match_def header_field_char_def Let_def)
qed

lemma field_start:
  "(if c = CHR ''c'' then h_C else if c = CHR ''p'' then h_matching_proxy_connection
    else if c = CHR ''t'' then h_matching_transfer_encoding
    else if c = CHR ''u'' then h_matching_upgrade else h_general) = field_state [c]"
  by (simp add: field_state_def field_kind_def special_defs)

lemma TOKEN_space: "TOKEN x \<noteq> NUL \<Longrightarrow> x \<noteq> CHR '' ''"
  by auto

text \<open>The loop over the rest of a name, in lower case, up to the colon.\<close>

lemma header_field_loop_name:
  assumes "ps \<noteq> []" "field_match ps pr" "list_all (\<lambda>x. TOKEN x \<noteq> NUL) xs"
  shows "\<exists>i. header_field_loop pr ch (xs @ CHR '':'' # rest) n =
    Some (pr\<lparr>index := i, header_state := field_state (ps @ map TOKEN xs)\<rparr>, CHR '':'', n + length xs)"
  using assms
proof (induction xs arbitrary: ps pr ch n)
  case Nil
  then show ?case
    by (intro exI [of _ "index pr"]) (simp add: field_match_def)
next
  case (Cons x xs)
  have x: "TOKEN x \<noteq> NUL" "x \<noteq> CHR '' ''"
    using Cons.prems(3) TOKEN_space by auto
  have "field_step_ok ps pr x (TOKEN x)"
    using Cons.prems x by (intro field_step) auto
  then obtain pr' where pr': "header_field_char pr x (TOKEN x) = Some pr'"
    "pr' = pr\<lparr>index := index pr', header_state := field_state (ps @ [TOKEN x])\<rparr>"
    "field_match (ps @ [TOKEN x]) pr'"
    by (auto simp: field_step_ok_def split: option.splits)
  obtain i where "header_field_loop pr' x (xs @ CHR '':'' # rest) (Suc n) =
      Some (pr'\<lparr>index := i, header_state := field_state ((ps @ [TOKEN x]) @ map TOKEN xs)\<rparr>, CHR '':'', Suc n + length xs)"
    using Cons.IH [of "ps @ [TOKEN x]" pr' x "Suc n"] pr'(3) Cons.prems(3) by auto
  moreover have "pr'\<lparr>index := i, header_state := h\<rparr> = pr\<lparr>index := i, header_state := h\<rparr>" for h
    by (subst pr'(2)) simp
  ultimately show ?case
    using x pr'(1) by (intro exI [of _ i]) simp
qed

definition field_name :: "char list \<Rightarrow> bool" where
  "field_name name \<longleftrightarrow> name \<noteq> [] \<and> list_all (\<lambda>x. TOKEN x \<noteq> NUL) name"

lemma parsing_headers [simp]: "PARSING_HEADER s_header_field_start" "PARSING_HEADER s_header_field"
  "PARSING_HEADER s_header_value_discard_ws" "PARSING_HEADER s_header_value"
  "PARSING_HEADER s_header_almost_done" "PARSING_HEADER s_header_value_lws"
  "PARSING_HEADER s_headers_almost_done" "PARSING_HEADER s_headers_done"
  "PARSING_HEADER s_header_value_start"
  by (simp_all add: PARSING_HEADER_def less_eq_state_def)

lemma run_field_name:
  assumes "drop p buf = name @ CHR '':'' # rest" "field_name name" "room (length name + 1) pr"
    and "http_errno pr = HPE_OK"
  shows "\<exists>i. exec_run recorder buf False (bare pr w p s_header_field_start b) =
    exec_run recorder buf False
      (bare ((tick (length name + 1) pr)\<lparr>index := i, header_state := field_state (map TOKEN name),
          state := s_header_value_discard_ws\<rparr>)
        (w @ [Ev_header_field name]) (p + length name + 1) s_header_value_discard_ws b)"
proof -
  obtain x xs where name: "name = x # xs"
    using assms(2) by (cases name) (auto simp: field_name_def)
  have x: "TOKEN x \<noteq> NUL" "x \<noteq> CR" "x \<noteq> LF" "list_all (\<lambda>x. TOKEN x \<noteq> NUL) xs"
    using assms(2) name by (auto simp: field_name_def)
  let ?pr = "(tick 1 pr)\<lparr>index := 0, header_state := field_state [TOKEN x]\<rparr>"
  let ?l = "\<lparr>parser = ?pr, app = w, cur_ch = x, cur_p = Suc p,
        p_state = s_header_field, header_field_mark = Some p, header_value_mark = None, url_mark = None,
        body_mark = None, status_mark = None, lenient = b\<rparr>"
  have step1: "exec_run recorder buf False (bare pr w p s_header_field_start b) =
      exec_run recorder buf False ?l"
    using assms(1,3,4) x by (simp add: name run_simps room_def [of _ pr] mark_at_def field_start)
  have d1: "drop (Suc p) buf = xs @ CHR '':'' # rest"
    using drop_Cons(3) [OF assms(1) [unfolded name append_Cons]] .
  have "field_match [TOKEN x] (tick 1 ?pr)"
    by (simp add: field_match_def)
  then obtain i where loop: "header_field_loop (tick 1 ?pr) (buf ! Suc p) (drop (Suc p) buf) 0 =
      Some ((tick 1 ?pr)\<lparr>index := i, header_state := field_state (map TOKEN name)\<rparr>, CHR '':'', length xs)"
    unfolding d1 using header_field_loop_name [of "[TOKEN x]" "tick 1 ?pr" xs "buf ! Suc p" rest 0] x(4)
    by (auto simp: name)
  have len: "Suc p + length xs < length buf"
    using drop_Cons(1) [OF drop_past [OF d1]] by simp
  have "subbuf buf p (Suc (p + length xs)) = name"
    using assms(1) name by (simp add: subbuf_def)
  then have "exec_run recorder buf False ?l = exec_run recorder buf False
      (bare ((tick (length name + 1) pr)\<lparr>index := i, header_state := field_state (map TOKEN name),
          state := s_header_value_discard_ws\<rparr>)
        (w @ [Ev_header_field name]) (p + length name + 1) s_header_value_discard_ws b)"
    using exec_run_byte [of ?l buf recorder] len assms(3,4) loop name
    by (simp add: fetched_def exec_run_switch exec_switch_def case_header_field_def count_ok run_bare
        room_def [of _ pr] room_tickI callback_header_field_def update_state_def)
  then show ?thesis using step1 by auto
qed
end
