(* ===== verification/Parser_Values.thy ===== *)
theory Parser_Values
  imports Parser_Headers
begin

text \<open>
  Values of header fields, and what a run over a whole header line leaves.
\<close>

section \<open>The value loop\<close>

lemma takeWhile_past: "c \<notin> set xs \<Longrightarrow> takeWhile (\<lambda>x. x \<noteq> c) (xs @ ys) = xs @ takeWhile (\<lambda>x. x \<noteq> c) ys"
  by (induction xs) auto

lemma memchr_append:
  assumes "c \<notin> set xs" "length xs < k"
  shows "memchr c (take k (xs @ c # ys)) = Some (length xs)"
proof -
  have "take k (xs @ c # ys) = xs @ c # take (k - length xs - 1) ys"
    using assms(2) by (cases "k - length xs") auto
  then show ?thesis
    using assms(1) by (auto simp: memchr_def takeWhile_past)
qed

lemma memchr_none_before:
  assumes "c \<notin> set xs" "memchr c (xs @ ys) = Some k"
  shows "length xs \<le> k"
proof -
  have "c \<in> set ys" "k = length (takeWhile (\<lambda>x. x \<noteq> c) (xs @ ys))"
    using assms by (auto simp: memchr_def split: if_splits)
  then show ?thesis
    using assms(1) by (simp add: takeWhile_past)
qed

lemma general_skip_CR:
  assumes "CR \<notin> set xs" "LF \<notin> set xs" "length xs < HTTP_MAX_HEADER_SIZE"
  shows "general_skip (xs @ CR # ys) = length xs"
proof -
  define k where "k = min (length (xs @ CR # ys)) HTTP_MAX_HEADER_SIZE"
  define window where "window = take k (xs @ CR # ys)"
  have k: "length xs < k" using assms(3) by (simp add: k_def)
  have cr: "memchr CR window = Some (length xs)"
    unfolding window_def by (rule memchr_append [OF assms(1) k])
  have "window = xs @ take (k - length xs) (CR # ys)"
    using k by (simp add: window_def)
  then have lf: "length xs \<le> j" if "memchr LF window = Some j" for j
    using memchr_none_before [OF assms(2)] that by metis
  have "general_skip (xs @ CR # ys) =
      (case memchr LF window of Some j \<Rightarrow> if length xs \<ge> j then j else length xs | None \<Rightarrow> length xs)"
    unfolding general_skip_def Let_def k_def [symmetric] window_def [symmetric] cr by simp
  then show ?thesis
    using lf by (cases "memchr LF window") auto
qed

lemma value_loop_general:
  assumes "CR \<notin> set vs" "LF \<notin> set vs" "length vs < HTTP_MAX_HEADER_SIZE"
    and "lnt \<or> vs = [] \<or> IS_HEADER_CHAR (hd vs)"
  shows "header_value_loop lnt pr h_general ch (vs @ CR # ys) n = (Stop_CR, pr, h_general, CR, n + length vs)"
proof (cases vs)
  case (Cons x xs)
  have skip: "general_skip (x # xs @ CR # ys) = length vs"
    using general_skip_CR [OF assms(1-3), of ys] Cons by simp
  have "header_value_loop lnt pr h_general ch (vs @ CR # ys) n =
      header_value_loop lnt pr h_general x (drop (length vs) (vs @ CR # ys)) (n + length vs)"
    using assms Cons skip by auto
  then show ?thesis by simp
qed simp

text \<open>
  \<open>Content-Length\<close>: the loop computes the number exactly, up to the limit of the overflow test, and
  stops with an error beyond it.
\<close>

definition length_limit :: nat where
  "length_limit = 18446744073709551609"

lemma value_loop_digits:
  assumes "list_all IS_NUM ds" "v \<le> length_limit"
  shows "header_value_loop lnt (pr\<lparr>content_length := of_nat v\<rparr>) h_content_length ch (ds @ CR # ys) n =
      (Stop_CR, pr\<lparr>content_length := of_nat (dec_from v ds)\<rparr>, h_content_length, CR, n + length ds)
    \<or> length_limit < dec_from v ds"
  using assms
proof (induction ds arbitrary: v ch n)
  case (Cons d ds)
  have d: "IS_NUM d" "d \<noteq> CR" "d \<noteq> LF" "IS_HEADER_CHAR d" "d \<noteq> CHR '' ''"
    using Cons.prems(1) by (auto simp: IS_HEADER_CHAR_def IS_NUM_def)
  have v: "unat (of_nat v :: 64 word) = v"
    using Cons.prems(2) by (simp add: unat_of_nat length_limit_def)
  let ?v = "v * 10 + digit_val d"
  show ?case
  proof (cases "?v \<le> length_limit")
    case True
    then have lim: "\<not> (ULLONG_MAX - 10) div 10 < (of_nat v :: 64 word)"
      unfolding decimal_limit v by (simp add: length_limit_def)
    have "header_value_char (pr\<lparr>content_length := of_nat v\<rparr>) h_content_length d =
        Next_byte (pr\<lparr>content_length := of_nat ?v\<rparr>) h_content_length"
      using d lim by (simp add: header_value_char_def decimal_step_def Let_def)
    then have "header_value_loop lnt (pr\<lparr>content_length := of_nat v\<rparr>) h_content_length ch ((d # ds) @ CR # ys) n =
        header_value_loop lnt (pr\<lparr>content_length := of_nat ?v\<rparr>) h_content_length d (ds @ CR # ys) (Suc n)"
      using d by simp
    then show ?thesis
      using Cons.IH [OF _ True, of d "Suc n"] Cons.prems(1) by simp
  next
    case False
    then show ?thesis
      using dec_from_mono [of ?v ds] by simp
  qed
qed simp

lemma value_loop_overflow:
  assumes "list_all IS_NUM ds" "v \<le> length_limit" "length_limit < dec_from v ds"
  shows "\<exists>pr' x k. header_value_loop lnt (pr\<lparr>content_length := of_nat v\<rparr>) h_content_length ch (ds @ ys) n =
      (Stop_error HPE_INVALID_CONTENT_LENGTH, pr', h_content_length, x, k)"
  using assms
proof (induction ds arbitrary: v ch n)
  case (Cons d ds)
  have d: "IS_NUM d" "d \<noteq> CR" "d \<noteq> LF" "IS_HEADER_CHAR d" "d \<noteq> CHR '' ''"
    using Cons.prems(1) by (auto simp: IS_HEADER_CHAR_def IS_NUM_def)
  have v: "unat (of_nat v :: 64 word) = v"
    using Cons.prems(2) by (simp add: unat_of_nat length_limit_def)
  let ?v = "v * 10 + digit_val d"
  show ?case
  proof (cases "?v \<le> length_limit")
    case True
    then have lim: "\<not> (ULLONG_MAX - 10) div 10 < (of_nat v :: 64 word)"
      unfolding decimal_limit v by (simp add: length_limit_def)
    have "header_value_char (pr\<lparr>content_length := of_nat v\<rparr>) h_content_length d =
        Next_byte (pr\<lparr>content_length := of_nat ?v\<rparr>) h_content_length"
      using d lim by (simp add: header_value_char_def decimal_step_def Let_def)
    then have "header_value_loop lnt (pr\<lparr>content_length := of_nat v\<rparr>) h_content_length ch ((d # ds) @ ys) n =
        header_value_loop lnt (pr\<lparr>content_length := of_nat ?v\<rparr>) h_content_length d (ds @ ys) (Suc n)"
      using d by simp
    then show ?thesis
      using Cons.IH [OF _ True, of d "Suc n"] Cons.prems(1,3) by simp
  next
    case False
    then have lim: "(ULLONG_MAX - 10) div 10 < (of_nat v :: 64 word)"
      unfolding decimal_limit v using digit_val_le [OF d(1)] by (simp add: length_limit_def)
    then have "header_value_char (pr\<lparr>content_length := of_nat v\<rparr>) h_content_length d =
        Value_error HPE_INVALID_CONTENT_LENGTH"
      using d by (simp add: header_value_char_def decimal_step_def Let_def)
    then show ?thesis using d by simp
  qed
qed simp

section \<open>Runs over a header line\<close>

text \<open>The locals inside a value that began at \<open>m\<close>.\<close>

definition in_value :: "http_parser \<Rightarrow> 'w \<Rightarrow> nat \<Rightarrow> nat \<Rightarrow> bool \<Rightarrow> 'w locals" where
  "in_value pr w m p b =
    \<lparr>parser = pr, app = w, cur_ch = NUL, cur_p = p, p_state = s_header_value, header_field_mark = None,
     header_value_mark = Some m, url_mark = None, body_mark = None, status_mark = None, lenient = b\<rparr>"

lemma run_in_value:
  "exec_run st buf False
    \<lparr>parser = pr, app = w, cur_ch = c, cur_p = p, p_state = s_header_value, header_field_mark = None,
     header_value_mark = Some m, url_mark = None, body_mark = None, status_mark = None, lenient = b\<rparr> =
   exec_run st buf False (in_value pr w m p b)"
  using run_ch [where l = "in_value pr w m p b" and c = c] by (simp add: in_value_def)

lemma run_value_end:
  assumes "drop p buf = vs @ CR # LF # rest" "m \<le> p" "http_errno pr = HPE_OK" "room (length vs + 2) pr"
    and "header_value_loop b (tick 1 pr) (header_state pr) (hd (vs @ [CR])) (vs @ CR # LF # rest) 0 =
      (Stop_CR, pr', h, CR, length vs)"
    and "nread pr' = nread (tick 1 pr)" "http_errno pr' = HPE_OK"
  shows "exec_run recorder buf False (in_value pr w m p b) =
    exec_run recorder buf False
      (bare ((tick (length vs + 1) pr')\<lparr>state := s_header_almost_done, header_state := h\<rparr>)
        (w @ [Ev_header_value (subbuf buf m (p + length vs))]) (p + length vs + 2) s_header_value_lws b)"
proof -
  have hd: "buf ! p = hd (vs @ [CR])"
    using drop_Cons(2) [of p buf] assms(1) by (cases vs) auto
  have p: "p < length buf"
    using drop_Cons(1) [of p buf] assms(1) by (cases vs) auto
  have d: "drop (p + length vs) buf = CR # LF # rest"
    using drop_past [OF assms(1)] .
  note d' = drop_Cons [OF d]
  have room: "room (length vs + 1) pr'" "unat (nread pr') + (length vs + 1) \<le> HTTP_MAX_HEADER_SIZE"
    using unat_nread_tick [of 1 pr] assms(4,6) by (simp_all add: room_def)
  have room_vs: "room (length vs) pr'"
    using room_mono [OF room(1)] by simp
  have "exec_run recorder buf False (in_value pr w m p b) = exec_run recorder buf False
      (bare ((tick (length vs) pr')\<lparr>state := s_header_almost_done, header_state := h\<rparr>)
        (w @ [Ev_header_value (subbuf buf m (p + length vs))]) (p + length vs + 1) s_header_almost_done b)"
    using exec_run_byte [of "in_value pr w m p b" buf recorder] assms(1-5,7) p hd d' room_vs
    by (simp add: in_value_def fetched_def room_def [of 1 pr] room_def [of _ pr] exec_run_switch
        exec_switch_def case_header_value_def callback_header_value_def count_ok update_state_def
        upd_parser_def run_bare Let_def)
  also have "\<dots> = exec_run recorder buf False
      (bare ((tick (length vs + 1) pr')\<lparr>state := s_header_almost_done, header_state := h\<rparr>)
        (w @ [Ev_header_value (subbuf buf m (p + length vs))]) (p + length vs + 2) s_header_value_lws b)"
    using d' room(2) by (simp add: run_simps)
  finally show ?thesis .
qed

text \<open>After a line whose successor is no continuation line.\<close>

lemma finish_header_tick [simp]: "finish_header (tick n pr) = tick n (finish_header pr)"
  by (cases "header_state pr") (simp_all add: finish_header_def)

lemma finish_header_room [simp]: "room n (finish_header pr) = room n pr"
  by (cases "header_state pr") (simp_all add: finish_header_def)

lemma run_lws:
  assumes "drop p buf = x # rest" "x \<noteq> CHR '' ''" "x \<noteq> TAB" "room 1 pr"
  shows "exec_run st buf False (bare pr w p s_header_value_lws b) =
    exec_run st buf False (bare (finish_header pr) w p s_header_field_start b)"
  using assms
  by (simp add: bare_run, subst exec_run_switch)
    (simp add: exec_switch_def case_header_value_lws_def update_state_def upd_parser_def)

text \<open>The colon and one space are passed before the value.\<close>

lemma run_value_space:
  assumes "drop p buf = CHR '' '' # rest" "room 1 pr" "http_errno pr = HPE_OK"
  shows "exec_run st buf False (bare pr w p s_header_value_discard_ws b) =
    exec_run st buf False (bare (tick 1 pr) w (Suc p) s_header_value_discard_ws b)"
  using assms by (simp add: run_simps)

definition value_first :: "char \<Rightarrow> bool" where
  "value_first x \<longleftrightarrow> x \<noteq> CHR '' '' \<and> x \<noteq> TAB \<and> x \<noteq> CR \<and> x \<noteq> LF"

lemma field_kind_state:
  "field_kind name \<noteq> h_general \<Longrightarrow> field_state name = field_kind name"
  "field_kind name = h_general \<Longrightarrow> field_state name \<in>
     {h_general, h_C, h_CO, h_CON, h_matching_connection, h_matching_proxy_connection,
      h_matching_content_length, h_matching_transfer_encoding, h_matching_upgrade}"
  by (simp_all add: field_state_def)

lemma run_value_first_general:
  assumes "drop p buf = x # rest" "value_first x" "room 1 pr"
    and "header_state pr \<in> {h_general, h_C, h_CO, h_CON, h_matching_connection,
      h_matching_proxy_connection, h_matching_content_length, h_matching_transfer_encoding,
      h_matching_upgrade}"
  shows "exec_run st buf False (bare pr w p s_header_value_discard_ws b) =
    exec_run st buf False (in_value ((tick 1 pr)\<lparr>index := 0, header_state := h_general\<rparr>) w p (Suc p) b)"
  using assms(4) unfolding insert_iff empty_iff
  by (elim disjE; insert assms(1-3); simp add: value_first_def run_simps run_in_value mark_at_def)

lemma run_value_first_length:
  assumes "drop p buf = x # rest" "IS_NUM x" "room 1 pr"
    and "header_state pr = h_content_length" "\<not> has_flag (flags pr) F_CONTENTLENGTH"
  shows "exec_run st buf False (bare pr w p s_header_value_discard_ws b) =
    exec_run st buf False (in_value ((tick 1 pr)\<lparr>index := 0, flags := flags pr OR F_CONTENTLENGTH,
      content_length := of_nat (digit_val x)\<rparr>) w p (Suc p) b)"
proof -
  have "x \<noteq> CHR '' ''" "x \<noteq> TAB" "x \<noteq> CR" "x \<noteq> LF"
    using assms(2) by auto
  then show ?thesis
    using assms by (simp add: run_simps run_in_value mark_at_def)
qed

lemma run_value_first_transfer:
  assumes "drop p buf = CHR ''c'' # rest" "room 1 pr" "header_state pr = h_transfer_encoding"
  shows "exec_run st buf False (bare pr w p s_header_value_discard_ws b) =
    exec_run st buf False (in_value ((tick 1 pr)\<lparr>index := 0,
      header_state := h_matching_transfer_encoding_chunked\<rparr>) w p (Suc p) b)"
  using assms by (simp add: run_simps run_in_value mark_at_def)

definition header_line :: "char list \<times> char list \<Rightarrow> char list" where
  "header_line h = fst h @ '': '' @ snd h @ [CR, LF]"

definition plain_header :: "char list \<times> char list \<Rightarrow> bool" where
  "plain_header h \<longleftrightarrow> field_name (fst h) \<and> field_kind (map TOKEN (fst h)) = h_general \<and>
     snd h \<noteq> [] \<and> value_first (hd (snd h)) \<and>
     list_all (\<lambda>c. c \<noteq> CR \<and> c \<noteq> LF \<and> IS_HEADER_CHAR c) (snd h)"

definition line_parsed :: "nat \<Rightarrow> http_parser \<Rightarrow> http_parser" where
  "line_parsed n pr = (tick n pr)\<lparr>index := 0, state := s_header_almost_done, header_state := h_general\<rparr>"

lemma run_field_colon:
  assumes "drop p buf = name @ CHR '':'' # CHR '' '' # rest" "field_name name"
    and "unat (nread pr) + (length name + 2) \<le> HTTP_MAX_HEADER_SIZE" "http_errno pr = HPE_OK"
  shows "\<exists>i. exec_run recorder buf False (bare pr w p s_header_field_start b) =
    exec_run recorder buf False
      (bare ((tick (length name + 2) pr)\<lparr>index := i, header_state := field_state (map TOKEN name),
          state := s_header_value_discard_ws\<rparr>)
        (w @ [Ev_header_field name]) (p + length name + 2) s_header_value_discard_ws b)"
proof -
  have d1: "drop (p + length name + 1) buf = CHR '' '' # rest"
    using drop_Cons(3) [OF drop_past [OF assms(1)]] by simp
  obtain i where f: "exec_run recorder buf False (bare pr w p s_header_field_start b) =
      exec_run recorder buf False
      (bare ((tick (length name + 1) pr)\<lparr>index := i, header_state := field_state (map TOKEN name),
          state := s_header_value_discard_ws\<rparr>)
        (w @ [Ev_header_field name]) (p + length name + 1) s_header_value_discard_ws b)"
    using run_field_name [OF assms(1,2) _ assms(4), of w b] assms(3) by (auto simp: room_def)
  show ?thesis
    unfolding f using assms(3,4)
    by (intro exI [of _ i]) (subst run_value_space [OF d1]; simp add: room_tickI)
qed

lemma drop_header_line:
  assumes "drop p buf = header_line (name, v) @ rest"
  shows "drop p buf = name @ CHR '':'' # CHR '' '' # (v @ CR # LF # rest)"
    "drop (p + length name + 2) buf = v @ CR # LF # rest"
proof -
  show d: "drop p buf = name @ CHR '':'' # CHR '' '' # (v @ CR # LF # rest)"
    using assms by (simp add: header_line_def)
  show "drop (p + length name + 2) buf = v @ CR # LF # rest"
    using drop_Cons(3) [OF drop_Cons(3) [OF drop_past [OF d]]] by simp
qed

lemma length_header_line [simp]: "length (header_line (name, v)) = length name + length v + 4"
  by (simp add: header_line_def)

lemma run_header_line:
  assumes "drop p buf = header_line h @ rest" "plain_header h" "room (length (header_line h)) pr"
    and "http_errno pr = HPE_OK"
  shows "exec_run recorder buf False (bare pr w p s_header_field_start b) =
    exec_run recorder buf False (bare (line_parsed (length (header_line h)) pr)
      (w @ [Ev_header_field (fst h), Ev_header_value (snd h)]) (p + length (header_line h)) s_header_value_lws b)"
proof -
  obtain name x vs where h: "h = (name, x # vs)"
    using assms(2) by (cases h; cases "snd h") (auto simp: plain_header_def)
  let ?n = "length name" and ?v = "length vs"
  have room: "unat (nread pr) + (?n + ?v + 5) \<le> HTTP_MAX_HEADER_SIZE"
    using assms(3) by (simp add: room_def h)
  have name: "field_name name" "field_kind (map TOKEN name) = h_general"
    and x: "value_first x" "CR \<notin> set vs" "LF \<notin> set vs" "list_all IS_HEADER_CHAR vs"
    using assms(2) by (auto simp: plain_header_def h list_all_iff)
  note d = drop_header_line [OF assms(1) [unfolded h], unfolded append_Cons]
  have d3: "drop (p + ?n + 3) buf = vs @ CR # LF # rest"
    using drop_Cons(3) [OF d(2)] by (simp add: eval_nat_numeral)
  let ?pr = "\<lambda>i k. (tick k pr)\<lparr>index := i, header_state := field_state (map TOKEN name),
          state := s_header_value_discard_ws\<rparr>"
  let ?w = "w @ [Ev_header_field name]"
  let ?pr' = "\<lambda>k. (tick k pr)\<lparr>state := s_header_value_discard_ws, index := 0, header_state := h_general\<rparr>"
  obtain i where "exec_run recorder buf False (bare pr w p s_header_field_start b) =
      exec_run recorder buf False (bare (?pr i (?n + 2)) ?w (p + ?n + 2) s_header_value_discard_ws b)"
    using run_field_colon [OF d(1) name(1) _ assms(4), of w b] room by auto
  also have "\<dots> = exec_run recorder buf False (in_value (?pr' (?n + 3)) ?w (p + ?n + 2) (p + ?n + 3) b)"
    using run_value_first_general [OF d(2) x(1), of "?pr i (?n + 2)" recorder ?w b] room
      field_kind_state(2) [OF name(2)]
    by (simp add: room_tickI eval_nat_numeral)
  also have "\<dots> = exec_run recorder buf False
      (bare ((tick (?v + 1) (tick 1 (?pr' (?n + 3))))\<lparr>state := s_header_almost_done, header_state := h_general\<rparr>)
        (?w @ [Ev_header_value (subbuf buf (p + ?n + 2) (p + ?n + 3 + ?v))]) (p + ?n + 3 + ?v + 2) s_header_value_lws b)"
  proof (rule run_value_end [OF d3])
    have "vs = [] \<or> IS_HEADER_CHAR (hd vs)"
      using x(4) by (cases vs) auto
    then show "header_value_loop b (tick 1 (?pr' (?n + 3))) (header_state (?pr' (?n + 3))) (hd (vs @ [CR]))
        (vs @ CR # LF # rest) 0 = (Stop_CR, tick 1 (?pr' (?n + 3)), h_general, CR, ?v)"
      using value_loop_general [OF x(2,3), of b] room by auto
  qed (use room assms(4) in \<open>simp_all add: room_tickI\<close>)
  also have "subbuf buf (p + ?n + 2) (p + ?n + 3 + ?v) = x # vs"
    using d(2) by (simp add: subbuf_def)
  finally show ?thesis
    by (simp add: line_parsed_def h ac_simps eval_nat_numeral)
qed

lemma nread_tick: "nread (tick n pr) = nread pr + of_nat n"
  by (simp add: tick_def)

text \<open>A \<open>Content-Length\<close> line within the limit.\<close>

definition length_parsed :: "nat \<Rightarrow> nat \<Rightarrow> http_parser \<Rightarrow> http_parser" where
  "length_parsed n v pr = (tick n pr)\<lparr>index := 0, flags := flags pr OR F_CONTENTLENGTH,
     content_length := of_nat v, state := s_header_almost_done, header_state := h_content_length\<rparr>"

lemma run_length_line:
  assumes "drop p buf = header_line (name, ds) @ rest" "room (length (header_line (name, ds))) pr"
    and "field_name name" "map TOKEN name = CONTENT_LENGTH" "ds \<noteq> []" "list_all IS_NUM ds"
    and "dec_from 0 ds \<le> length_limit" "\<not> has_flag (flags pr) F_CONTENTLENGTH" "http_errno pr = HPE_OK"
  shows "exec_run recorder buf False (bare pr w p s_header_field_start b) =
    exec_run recorder buf False (bare (length_parsed (length (header_line (name, ds))) (dec_from 0 ds) pr)
      (w @ [Ev_header_field name, Ev_header_value ds]) (p + length (header_line (name, ds))) s_header_value_lws b)"
proof -
  obtain x vs where ds: "ds = x # vs" using assms(5) by (cases ds) auto
  let ?n = "length name" and ?v = "length vs"
  have room: "unat (nread pr) + (?n + ?v + 5) \<le> HTTP_MAX_HEADER_SIZE"
    using assms(2) by (simp add: room_def ds)
  have x: "IS_NUM x" "list_all IS_NUM vs" "dec_from (digit_val x) vs \<le> length_limit"
      "digit_val x \<le> length_limit"
    using assms(6,7) digit_val_le [of x] by (simp_all add: ds length_limit_def)
  note d = drop_header_line [OF assms(1) [unfolded ds], unfolded append_Cons]
  have d3: "drop (p + ?n + 3) buf = vs @ CR # LF # rest"
    using drop_Cons(3) [OF d(2)] by (simp add: eval_nat_numeral)
  have kind: "field_state (map TOKEN name) = h_content_length"
    by (simp add: assms(4) field_state_def field_kind_def special_defs)
  let ?pr = "\<lambda>i k. (tick k pr)\<lparr>index := i, header_state := h_content_length,
          state := s_header_value_discard_ws\<rparr>"
  let ?w = "w @ [Ev_header_field name]"
  let ?pr' = "\<lambda>k c. (tick k pr)\<lparr>header_state := h_content_length, state := s_header_value_discard_ws,
      index := 0, flags := flags pr OR F_CONTENTLENGTH, content_length := of_nat c\<rparr>"
  obtain i where "exec_run recorder buf False (bare pr w p s_header_field_start b) =
      exec_run recorder buf False (bare (?pr i (?n + 2)) ?w (p + ?n + 2) s_header_value_discard_ws b)"
    using run_field_colon [OF d(1) assms(3) _ assms(9), of w b] room kind by auto
  also have "\<dots> = exec_run recorder buf False (in_value (?pr' (?n + 3) (digit_val x)) ?w (p + ?n + 2) (p + ?n + 3) b)"
    using run_value_first_length [OF d(2) x(1), of "?pr i (?n + 2)" recorder ?w b] room assms(8)
    by (simp add: room_tickI eval_nat_numeral)
  also have "\<dots> = exec_run recorder buf False
      (bare ((tick (?v + 1) (?pr' (?n + 4) (dec_from (digit_val x) vs)))\<lparr>state := s_header_almost_done,
          header_state := h_content_length\<rparr>)
        (?w @ [Ev_header_value (subbuf buf (p + ?n + 2) (p + ?n + 3 + ?v))]) (p + ?n + 3 + ?v + 2) s_header_value_lws b)"
  proof (rule run_value_end [OF d3])
    show "header_value_loop b (tick 1 (?pr' (?n + 3) (digit_val x))) (header_state (?pr' (?n + 3) (digit_val x)))
        (hd (vs @ [CR])) (vs @ CR # LF # rest) 0 =
        (Stop_CR, ?pr' (?n + 4) (dec_from (digit_val x) vs), h_content_length, CR, ?v)"
      using value_loop_digits [OF x(2,4), of b "?pr' (?n + 4) 0" "hd (vs @ [CR])" "LF # rest" 0] x(3)
      by (simp add: eval_nat_numeral)
  qed (use room assms(9) in \<open>simp_all add: room_tickI nread_tick\<close>)
  also have "subbuf buf (p + ?n + 2) (p + ?n + 3 + ?v) = ds"
    using d(2) by (simp add: subbuf_def ds)
  finally show ?thesis
    by (simp add: length_parsed_def ds ac_simps eval_nat_numeral)
qed

text \<open>A \<open>Transfer-Encoding: chunked\<close> line.\<close>

definition chunked_parsed :: "nat \<Rightarrow> http_parser \<Rightarrow> http_parser" where
  "chunked_parsed n pr = (tick n pr)\<lparr>index := 6, state := s_header_almost_done,
     header_state := h_transfer_encoding_chunked\<rparr>"

lemma value_loop_chunked:
  "header_value_loop lnt (pr\<lparr>index := 0\<rparr>) h_matching_transfer_encoding_chunked ch (''hunked'' @ CR # r) 0 =
    (Stop_CR, pr\<lparr>index := 6\<rparr>, h_transfer_encoding_chunked, CR, 6)"
  by (simp add: IS_HEADER_CHAR_def header_value_char_def Let_def match_step_def CHUNKED_def cstr_at_def)

lemma commute_index_header:
  "pr\<lparr>index := i, header_state := h\<rparr> = pr\<lparr>header_state := h, index := i\<rparr>"
  by simp

lemma run_chunked_line:
  assumes "drop p buf = header_line (name, ''chunked'') @ rest"
    and "room (length (header_line (name, ''chunked''))) pr"
    and "field_name name" "map TOKEN name = TRANSFER_ENCODING" "http_errno pr = HPE_OK"
  shows "exec_run recorder buf False (bare pr w p s_header_field_start b) =
    exec_run recorder buf False (bare (chunked_parsed (length (header_line (name, ''chunked''))) pr)
      (w @ [Ev_header_field name, Ev_header_value ''chunked'']) (p + length (header_line (name, ''chunked'')))
      s_header_value_lws b)"
proof -
  let ?n = "length name"
  have room: "unat (nread pr) + (?n + 11) \<le> HTTP_MAX_HEADER_SIZE"
    using assms(2) by (simp add: room_def)
  note d = drop_header_line [OF assms(1), unfolded append_Cons]
  have d3: "drop (p + ?n + 3) buf = ''hunked'' @ CR # LF # rest"
    using drop_Cons(3) [OF d(2)] by (simp add: eval_nat_numeral)
  have kind: "field_state (map TOKEN name) = h_transfer_encoding"
    by (simp add: assms(4) field_state_def field_kind_def special_defs)
  let ?pr = "\<lambda>i k. (tick k pr)\<lparr>index := i, header_state := h_transfer_encoding,
          state := s_header_value_discard_ws\<rparr>"
  let ?w = "w @ [Ev_header_field name]"
  let ?pr' = "\<lambda>k i. (tick k pr)\<lparr>state := s_header_value_discard_ws,
      header_state := h_matching_transfer_encoding_chunked, index := i\<rparr>"
  obtain i where "exec_run recorder buf False (bare pr w p s_header_field_start b) =
      exec_run recorder buf False (bare (?pr i (?n + 2)) ?w (p + ?n + 2) s_header_value_discard_ws b)"
    using run_field_colon [OF d(1) assms(3) _ assms(5), of w b] room kind by auto
  also have "\<dots> = exec_run recorder buf False (in_value (?pr' (?n + 3) 0) ?w (p + ?n + 2) (p + ?n + 3) b)"
    using run_value_first_transfer [OF d(2), of "?pr i (?n + 2)" recorder ?w b] room
    by (simp add: room_tickI commute_index_header, simp add: eval_nat_numeral)
  also have "\<dots> = exec_run recorder buf False
      (bare ((tick (length ''hunked'' + 1) (?pr' (?n + 4) 6))\<lparr>state := s_header_almost_done,
          header_state := h_transfer_encoding_chunked\<rparr>)
        (?w @ [Ev_header_value (subbuf buf (p + ?n + 2) (p + ?n + 3 + length ''hunked''))])
        (p + ?n + 3 + length ''hunked'' + 2) s_header_value_lws b)"
  proof (rule run_value_end [OF d3])
    show "header_value_loop b (tick 1 (?pr' (?n + 3) 0)) (header_state (?pr' (?n + 3) 0))
        (hd (''hunked'' @ [CR])) (''hunked'' @ CR # LF # rest) 0 =
        (Stop_CR, ?pr' (?n + 4) 6, h_transfer_encoding_chunked, CR, length ''hunked'')"
      using value_loop_chunked [of b "?pr' (?n + 4) 1" "CHR ''h''" "LF # rest"]
      by (simp add: eval_nat_numeral)
  qed (use room assms(5) in \<open>simp_all add: room_tickI nread_tick\<close>)
  also have "subbuf buf (p + ?n + 2) (p + ?n + 3 + length ''hunked'') = ''chunked''"
    using d(2) by (simp add: subbuf_def)
  finally show ?thesis
    by (simp add: chunked_parsed_def ac_simps eval_nat_numeral)
qed
end
