(* ===== verification/Parser_Method.thy ===== *)
theory Parser_Method
  imports Parser_Lines
begin

text \<open>
  The method matcher and the request line.
\<close>

definition method_string :: "http_method \<Rightarrow> string" where
  "method_string m = method_strings ! method_num m"

lemma parsing_request [simp]: "PARSING_HEADER s_start_req" "PARSING_HEADER s_req_method"
  "PARSING_HEADER s_req_spaces_before_url" "PARSING_HEADER s_req_path" "PARSING_HEADER s_req_http_start"
  "PARSING_HEADER s_req_http_H" "PARSING_HEADER s_req_http_HT" "PARSING_HEADER s_req_http_HTT"
  "PARSING_HEADER s_req_http_HTTP" "PARSING_HEADER s_req_http_major" "PARSING_HEADER s_req_http_dot"
  "PARSING_HEADER s_req_http_minor" "PARSING_HEADER s_req_http_end" "PARSING_HEADER s_req_line_almost_done"
  "PARSING_HEADER s_req_query_string_start" "PARSING_HEADER s_req_query_string"
  by (simp_all add: PARSING_HEADER_def less_eq_state_def)

definition method_parsed :: "http_method \<Rightarrow> http_parser \<Rightarrow> http_parser" where
  "method_parsed m pr =
    (let n = length (method_string m) + 1 in
     (tick n pr)\<lparr>flags := 0, content_length := ULLONG_MAX, state := s_req_method, parser_method := m,
       index := of_nat n\<rparr>)"

lemma commute_state_method:
  "pr\<lparr>parser_method := m, state := s\<rparr> = pr\<lparr>state := s, parser_method := m\<rparr>"
  by simp

lemma run_method:
  assumes "drop p buf = method_string m @ CHR '' '' # rest" "room (length (method_string m) + 1) pr"
    and "http_errno pr = HPE_OK"
  shows "exec_run recorder buf False (bare pr w p s_start_req b) =
    exec_run recorder buf False (bare (method_parsed m pr) (w @ [Ev_message_begin])
      (p + length (method_string m) + 1) s_req_spaces_before_url b)"
  using assms
  by (cases m) (simp_all add: run_simps room_def [of _ pr] IS_ALPHA_byte method_string_def method_strings_def
      method_of_letter_def method_letters_def cstr_at_def method_switch_def method_parsed_def
      commute_state_method)

section \<open>URL and version\<close>

text \<open>The states in which a URL may end.\<close>

definition url_end_states :: "state set" where
  "url_end_states = {s_req_server, s_req_server_with_at, s_req_path, s_req_query_string_start,
    s_req_query_string, s_req_fragment_start, s_req_fragment}"

lemma fold_url_dead [simp]: "foldl parse_url_char s_dead xs = s_dead"
  by (induction xs) simp_all

lemma parse_url_char_delim: "parse_url_char s c \<noteq> s_dead \<Longrightarrow> c \<noteq> CHR '' '' \<and> c \<noteq> CR \<and> c \<noteq> LF"
  by (auto simp: parse_url_char_def)

lemma url_switch:
  assumes "p_state l \<in> url_states" "parse_url_char (p_state l) (cur_ch l) \<noteq> s_dead"
  shows "exec_switch st buf l = Break (l\<lparr>p_state := parse_url_char (p_state l) (cur_ch l)\<rparr>)"
  using assms parse_url_char_delim [OF assms(2)] unfolding url_states_def insert_iff empty_iff
  by (elim disjE) (simp_all add: exec_switch_def case_defs macro_defs Let_def)

lemma url_states_parsing: "s \<in> url_states \<Longrightarrow> PARSING_HEADER s"
  by (auto simp: url_states_def PARSING_HEADER_def less_eq_state_def)

text \<open>Inside a URL the run is the automaton \<open>parse_url_char\<close>.\<close>

lemma run_url:
  assumes "drop (cur_p l) buf = xs @ rest" "p_state l \<in> url_states" "room (length xs) (parser l)"
    and "foldl parse_url_char (p_state l) xs \<noteq> s_dead"
  shows "exec_run st buf False l =
    exec_run st buf False (l\<lparr>parser := tick (length xs) (parser l), cur_p := cur_p l + length xs,
      p_state := foldl parse_url_char (p_state l) xs\<rparr>)"
  using assms
proof (induction xs arbitrary: l)
  case (Cons x xs)
  note d = drop_Cons [OF Cons.prems(1) [unfolded append_Cons]]
  let ?s = "parse_url_char (p_state l) x"
  let ?l = "l\<lparr>parser := tick 1 (parser l), p_state := ?s\<rparr>"
  have s: "?s \<noteq> s_dead" using Cons.prems(4) by auto
  then have us: "?s \<in> url_states" using parse_url_char_range [of "p_state l" x] by simp
  have "exec_switch st buf (fetched buf l) = Break (?l\<lparr>cur_ch := x\<rparr>)"
    using Cons.prems d s url_states_parsing [of "p_state l"] by (subst url_switch) (auto simp: fetched_def)
  then have "exec_run st buf False l = exec_run st buf False (?l\<lparr>cur_p := cur_p ?l + 1\<rparr>)"
    using Cons.prems d by (intro run_byte) (auto simp: room_def)
  also have "\<dots> = exec_run st buf False (?l\<lparr>parser := tick (length xs) (parser ?l), cur_p := cur_p l + 1 + length xs,
      p_state := foldl parse_url_char ?s xs\<rparr>)"
    using Cons.prems d us room_tick [of 1 "length xs" "parser l"] by (subst Cons.IH) auto
  finally show ?case by simp
qed simp

definition request_line :: "http_method \<Rightarrow> char list \<Rightarrow> char list" where
  "request_line m url = method_string m @ CHR '' '' # url @ '' HTTP/1.1'' @ [CR, LF]"

definition request_parsed :: "nat \<Rightarrow> http_method \<Rightarrow> http_parser \<Rightarrow> http_parser" where
  "request_parsed n m pr = (tick n pr)\<lparr>flags := 0, content_length := ULLONG_MAX,
     parser_method := m, index := of_nat (length (method_string m) + 1), state := s_req_http_start,
     http_major := 1, http_minor := 1\<rparr>"

lemma run_http11:
  assumes "drop p buf = ''HTTP/1.1'' @ CR # LF # rest" "room 10 pr" "http_errno pr = HPE_OK"
  shows "exec_run st buf False (bare pr w p s_req_http_start b) =
    exec_run st buf False (bare ((tick 10 pr)\<lparr>http_major := 1, http_minor := 1\<rparr>) w (p + 10)
      s_header_field_start b)"
  using assms
  by (simp add: run_simps room_def [of _ pr] IS_NUM_def digit_val_def, simp add: eval_nat_numeral)

lemma url_end_switch:
  "p_state l \<in> url_end_states \<Longrightarrow> exec_switch st buf l = case_req_url st buf l"
  unfolding url_end_states_def insert_iff empty_iff
  by (elim disjE) (simp_all add: exec_switch_def)

lemma run_target:
  assumes "drop p buf = url @ CHR '' '' # rest" "room (length url + 1) pr" "http_errno pr = HPE_OK"
    and "foldl parse_url_char s_req_spaces_before_url url \<in> url_end_states"
    and "parser_method pr \<noteq> HTTP_CONNECT"
  shows "exec_run recorder buf False (bare pr w p s_req_spaces_before_url b) =
    exec_run recorder buf False (bare ((tick (length url + 1) pr)\<lparr>state := s_req_http_start\<rparr>)
      (w @ [Ev_url url]) (p + length url + 1) s_req_http_start b)"
proof -
  obtain x xs where url: "url = x # xs"
    using assms(4) by (cases url) (auto simp: url_end_states_def)
  let ?s = "parse_url_char s_req_spaces_before_url x"
  let ?l = "\<lambda>n s. \<lparr>parser = tick (n + 1) pr, app = w, cur_ch = x, cur_p = Suc p + n,
        p_state = s, header_field_mark = None, header_value_mark = None, url_mark = Some p,
        body_mark = None, status_mark = None, lenient = b\<rparr>"
  let ?t = "foldl parse_url_char ?s xs"
  have t: "?t \<in> url_end_states" "?t \<noteq> s_dead"
    using assms(4) by (auto simp: url url_end_states_def)
  then have s: "?s \<noteq> s_dead" by auto
  then have us: "?s \<in> url_states" using parse_url_char_range [of s_req_spaces_before_url x] by simp
  have "exec_run recorder buf False (bare pr w p s_req_spaces_before_url b) =
      exec_run recorder buf False (?l 0 ?s)"
    using assms(1,2,3,5) s parse_url_char_delim [OF s]
    by (simp add: url run_simps room_def [of _ pr] mark_at_def)
  also have "\<dots> = exec_run recorder buf False (?l (length xs) ?t)"
    using assms(1,2) t us run_url [of "?l 0 ?s" buf xs "CHR '' '' # rest" recorder]
      room_tick [of 1 "length xs" pr] room_mono [of "length url + 1" pr "1 + length xs"]
    by (simp add: url drop_Suc_tl)
  also have "\<dots> = exec_run recorder buf False (bare ((tick (length url + 1) pr)\<lparr>state := s_req_http_start\<rparr>)
      (w @ [Ev_url url]) (p + length url + 1) s_req_http_start b)"
  proof -
    have d: "drop (Suc p + length xs) buf = CHR '' '' # rest"
      using drop_past [OF assms(1)] url by simp
    have "subbuf buf p (Suc (p + length xs)) = url"
      using assms(1) url by (simp add: subbuf_def)
    moreover have "PARSING_HEADER ?t"
      using t(1) by (auto simp: url_end_states_def PARSING_HEADER_def less_eq_state_def)
    ultimately show ?thesis
      using drop_Cons [OF d] assms(2,3) url t(1) exec_run_byte [of "?l (length xs) ?t" buf recorder]
      by (simp add: exec_run_switch url_end_switch case_req_url_def macro_defs run_bare fetched_def room_def [of _ pr]
          room_tickI callback_url_def)
  qed
  finally show ?thesis .
qed

lemma run_request_line:
  assumes "drop p buf = request_line m url @ rest" "room (length (request_line m url)) pr"
    and "foldl parse_url_char s_req_spaces_before_url url \<in> url_end_states"
    and "m \<noteq> HTTP_CONNECT" "http_errno pr = HPE_OK"
  shows "exec_run recorder buf False (bare pr w p s_start_req b) =
    exec_run recorder buf False (bare (request_parsed (length (request_line m url)) m pr)
      (w @ [Ev_message_begin, Ev_url url]) (p + length (request_line m url)) s_header_field_start b)"
proof -
  let ?k = "length (method_string m)" and ?u = "length url"
  have len: "length (request_line m url) = ?k + ?u + 12"
    by (simp add: request_line_def)
  have room: "unat (nread pr) + (?k + ?u + 12) \<le> HTTP_MAX_HEADER_SIZE"
    using assms(2) by (simp add: room_def len)
  have d0: "drop p buf = method_string m @ CHR '' '' # (url @ CHR '' '' # (''HTTP/1.1'' @ CR # LF # rest))"
    using assms(1) by (simp add: request_line_def)
  have d1: "drop (p + ?k + 1) buf = url @ CHR '' '' # (''HTTP/1.1'' @ CR # LF # rest)"
    using drop_Cons(3) [OF drop_past [OF d0]] by simp
  have d2: "drop (p + ?k + 1 + ?u + 1) buf = ''HTTP/1.1'' @ CR # LF # rest"
    using drop_Cons(3) [OF drop_past [OF d1]] by simp
  have "exec_run recorder buf False (bare pr w p s_start_req b) =
      exec_run recorder buf False (bare (method_parsed m pr) (w @ [Ev_message_begin]) (p + ?k + 1)
        s_req_spaces_before_url b)"
    using room assms(5) by (intro run_method [OF d0]) (simp_all add: room_def)
  also have "\<dots> = exec_run recorder buf False (bare ((tick (?u + 1) (method_parsed m pr))\<lparr>state := s_req_http_start\<rparr>)
      (w @ [Ev_message_begin, Ev_url url]) (p + ?k + 1 + ?u + 1) s_req_http_start b)"
    using run_target [OF d1, of "method_parsed m pr" "w @ [Ev_message_begin]" b] room assms(3,4,5)
    by (simp add: method_parsed_def Let_def room_tickI)
  also have "\<dots> = exec_run recorder buf False (bare (request_parsed (length (request_line m url)) m pr)
      (w @ [Ev_message_begin, Ev_url url]) (p + length (request_line m url)) s_header_field_start b)"
    using run_http11 [OF d2, of "(tick (?u + 1) (method_parsed m pr))\<lparr>state := s_req_http_start\<rparr>" recorder
        "w @ [Ev_message_begin, Ev_url url]" b] room assms(5)
    by (simp add: method_parsed_def request_parsed_def Let_def room_tickI len ac_simps)
  finally show ?thesis .
qed

end
