(* ===== verification/Parser_Bodies.thy ===== *)
theory Parser_Bodies
  imports Parser_Values Parser_Method
begin

text \<open>
  Runs over the end of the headers, over a body of known length and over chunks; and the whole of a
  message.
\<close>

section \<open>End of the headers\<close>

text \<open>
  A parser whose headers ask for nothing but a body: no trailer, no upgrade, not both framings.
\<close>

definition plain_flags :: "http_parser \<Rightarrow> bool" where
  "plain_flags pr \<longleftrightarrow> \<not> has_flag (flags pr) F_TRAILING \<and> \<not> has_flag (flags pr) F_UPGRADE \<and>
     \<not> has_flag (flags pr) F_SKIPBODY \<and>
     \<not> (has_flag (flags pr) F_CHUNKED \<and> has_flag (flags pr) F_CONTENTLENGTH) \<and>
     parser_method pr \<noteq> HTTP_CONNECT"

definition headers_done_parser :: "http_parser \<Rightarrow> http_parser" where
  "headers_done_parser pr = pr\<lparr>upgrade := False, nread := 0\<rparr>"

lemma parsing_body [simp]: "\<not> PARSING_HEADER s_body_identity" "\<not> PARSING_HEADER s_chunk_data"
  "\<not> PARSING_HEADER s_message_done" "\<not> PARSING_HEADER s_chunk_data_done"
  "\<not> PARSING_HEADER s_chunk_data_almost_done"
  "PARSING_HEADER s_chunk_size_start" "PARSING_HEADER s_chunk_size" "PARSING_HEADER s_chunk_size_almost_done"
  by (simp_all add: PARSING_HEADER_def less_eq_state_def)

lemma tick_reset:
  "(tick n pr)\<lparr>nread := x\<rparr> = pr\<lparr>nread := x\<rparr>"
  "(tick n pr)\<lparr>upgrade := u, nread := x\<rparr> = pr\<lparr>upgrade := u, nread := x\<rparr>"
  by (simp_all add: tick_def)

lemma run_headers_end:
  fixes w :: "event list"
  assumes "drop p buf = CR # LF # rest" "room 2 pr" "plain_flags pr" "http_errno pr = HPE_OK"
  defines "pr' \<equiv> headers_done_parser pr" and "w' \<equiv> w @ [Ev_headers_complete (status_code pr)]"
  shows "has_flag (flags pr) F_CHUNKED \<Longrightarrow>
      exec_run recorder buf False (bare pr w p s_header_field_start b) =
      exec_run recorder buf False (bare pr' w' (p + 2) s_chunk_size_start b)"
    "\<not> has_flag (flags pr) F_CHUNKED \<Longrightarrow> content_length pr \<noteq> 0 \<Longrightarrow> content_length pr \<noteq> ULLONG_MAX \<Longrightarrow>
      exec_run recorder buf False (bare pr w p s_header_field_start b) =
      exec_run recorder buf False (bare pr' w' (p + 2) s_body_identity b)"
    "\<not> has_flag (flags pr) F_CHUNKED \<Longrightarrow> content_length pr = 0 \<Longrightarrow>
      exec_run recorder buf False (bare pr w p s_header_field_start b) =
      exec_run recorder buf False (bare (pr'\<lparr>state := NEW_MESSAGE pr'\<rparr>) (w' @ [Ev_message_complete]) (p + 2)
        (NEW_MESSAGE pr') b)"
    "\<not> has_flag (flags pr) F_CHUNKED \<Longrightarrow> content_length pr = ULLONG_MAX \<Longrightarrow> parser_type pr = HTTP_REQUEST \<Longrightarrow>
      exec_run recorder buf False (bare pr w p s_header_field_start b) =
      exec_run recorder buf False (bare (pr'\<lparr>state := NEW_MESSAGE pr'\<rparr>) (w' @ [Ev_message_complete]) (p + 2)
        (NEW_MESSAGE pr') b)"
  using assms(1-4)
  by (simp_all add: run_simps room_def [of _ pr] plain_flags_def pr'_def w'_def headers_done_parser_def
      tick_reset http_message_needs_eof_def ULLONG_MAX_def)

section \<open>Bodies\<close>

lemma bare_run_body:
  assumes "drop p buf \<noteq> []" "\<not> PARSING_HEADER s"
  shows "exec_run st buf False (bare pr w p s b) = exec_run st buf True
    \<lparr>parser = pr, app = w, cur_ch = hd (drop p buf), cur_p = p, p_state = s,
     header_field_mark = None, header_value_mark = None, url_mark = None, body_mark = None,
     status_mark = None, lenient = b\<rparr>"
  using assms exec_run_byte [of "bare pr w p s b" buf st]
  by (simp add: fetched_def hd_drop_conv_nth) (simp add: bare_def)

lemma to_read_all:
  assumes "length buf < 2 ^ 64" "unat (content_length (parser l)) \<le> length buf - cur_p l"
  shows "to_read buf l = content_length (parser l)"
  using unat_to_read [OF assms(1), of l] assms(2) by (simp add: word_unat_eq_iff)

text \<open>A buffer holds fewer than \<open>2 ^ 64\<close> bytes, so the length of a part of it is its word.\<close>

lemma unat_part:
  assumes "drop p buf = xs @ rest" "length buf < 2 ^ 64"
  shows "unat (of_nat (length xs) :: 64 word) = length xs" "length xs \<le> length buf - p"
proof -
  show le: "length xs \<le> length buf - p"
    using arg_cong [OF assms(1), of length] by simp
  then have "length xs < 2 ^ 64" using assms(2) by simp
  then show "unat (of_nat (length xs) :: 64 word) = length xs"
    by (simp add: unat_of_nat)
qed

definition body_done :: "http_parser \<Rightarrow> http_parser" where
  "body_done pr = (let pr' = pr\<lparr>content_length := 0, state := s_message_done\<rparr>
     in pr'\<lparr>state := NEW_MESSAGE pr'\<rparr>)"

lemma run_body:
  assumes "drop p buf = body @ rest" "body \<noteq> []" "length buf < 2 ^ 64"
    and "content_length pr = of_nat (length body)" "content_length pr \<noteq> ULLONG_MAX"
    and "http_errno pr = HPE_OK" "\<not> upgrade pr"
  shows "exec_run recorder buf False (bare pr w p s_body_identity b) =
    exec_run recorder buf False (bare (body_done pr) (w @ [Ev_body body, Ev_message_complete])
      (p + length body) (NEW_MESSAGE (pr\<lparr>content_length := 0, state := s_message_done\<rparr>)) b)"
proof -
  let ?l = "\<lparr>parser = pr, app = w, cur_ch = hd (drop p buf), cur_p = p, p_state = s_body_identity,
     header_field_mark = None, header_value_mark = None, url_mark = None, body_mark = None,
     status_mark = None, lenient = b\<rparr>"
  note part = unat_part [OF assms(1,3)]
  have cl: "content_length pr \<noteq> 0"
    using part(1) assms(2,4) by (metis length_0_conv unat_0)
  have all: "to_read buf ?l = content_length pr"
    using to_read_all [OF assms(3), of ?l] part assms(4) by simp
  have p: "p + length body \<le> length buf"
    using part(2) assms(1,2) drop_Cons(1) [of p buf] by (cases body) auto
  have take: "take_body buf ?l = ?l\<lparr>parser := pr\<lparr>content_length := 0\<rparr>, body_mark := Some p,
      cur_p := p + length body - 1\<rparr>"
    using all part(1) assms(4) by (simp add: take_body_def macro_defs Let_def)
  have "subbuf buf p (p + length body) = body"
    using assms(1) by (simp add: subbuf_def)
  moreover have "Suc (p + length body - Suc 0) = p + length body"
    using assms(2) by (cases body) auto
  moreover have "drop p buf \<noteq> []" using assms(1,2) by simp
  ultimately show ?thesis
    using assms(5-7) cl p
    by (simp add: bare_run_body exec_run_switch exec_switch_def case_body_identity_def take Let_def
        callback_body_def case_message_done_def message_complete_def update_state_def run_bare body_done_def)
qed

section \<open>Chunks\<close>

definition hex_digits :: "char list \<Rightarrow> bool" where
  "hex_digits ds \<longleftrightarrow> list_all (\<lambda>c. unhex ! byte c \<noteq> - 1) ds"

lemma hexadecimal_unhex: "hex_digits (hexadecimal n)"
  unfolding hex_digits_def
  by (induction n rule: hexadecimal.induct) (subst hexadecimal.simps, simp add: hex_char)

text \<open>The largest size the overflow test lets through.\<close>

definition chunk_limit :: nat where
  "chunk_limit = 18446744073709551599"

lemma unhex_CR: "unhex ! byte c \<noteq> - 1 \<Longrightarrow> c \<noteq> CR"
  by (auto simp: unhex_def)

lemma run_chunk_digits:
  assumes "drop p buf = ds @ rest" "hex_digits ds" "hex_from v ds \<le> chunk_limit" "room (length ds) pr"
    and "has_flag (flags pr) F_CHUNKED"
  shows "exec_run st buf False (bare (pr\<lparr>content_length := of_nat v\<rparr>) w p s_chunk_size b) =
    exec_run st buf False (bare ((tick (length ds) pr)\<lparr>content_length := of_nat (hex_from v ds)\<rparr>) w
      (p + length ds) s_chunk_size b)"
  using assms
proof (induction ds arbitrary: p v pr)
  case (Cons c ds)
  note d = drop_Cons [OF Cons.prems(1) [unfolded append_Cons]]
  let ?v = "v * 16 + hex_val c"
  have c: "unhex ! byte c \<noteq> - 1" "c \<noteq> CR" and le: "?v \<le> chunk_limit"
    using Cons.prems(2,3) hex_from_mono [of ?v ds] unhex_CR [of c] by (simp_all add: hex_digits_def)
  have v: "unat (of_nat v :: 64 word) = v"
    using le by (simp add: unat_of_nat chunk_limit_def)
  have lim: "\<not> (ULLONG_MAX - 16) div 16 < (of_nat v :: 64 word)"
    unfolding hex_limit v using le by (simp add: chunk_limit_def)
  have word: "of_nat v * 16 + of_int (unhex ! byte c) = (of_nat ?v :: 64 word)"
    using unhex_nat(2) [OF c(1)] by (simp add: hex_val_def)
  have "exec_run st buf False (bare (pr\<lparr>content_length := of_nat v\<rparr>) w p s_chunk_size b) =
      exec_run st buf False (bare ((tick 1 pr)\<lparr>content_length := of_nat ?v\<rparr>) w (Suc p) s_chunk_size b)"
    using Cons.prems(1,4,5) c lim word
    by (simp add: run_simps room_def del: of_nat_add of_nat_mult)
  also have "\<dots> = exec_run st buf False (bare ((tick (length ds) (tick 1 pr))\<lparr>content_length :=
      of_nat (hex_from ?v ds)\<rparr>) w (Suc p + length ds) s_chunk_size b)"
    using Cons.prems d room_tick [of 1 "length ds" pr] by (intro Cons.IH) (auto simp: hex_digits_def)
  finally show ?case by simp
qed simp

definition chunk :: "char list \<Rightarrow> char list" where
  "chunk c = hexadecimal (length c) @ [CR, LF] @ c @ [CR, LF]"

definition last_chunk :: "char list" where
  "last_chunk = ''0'' @ [CR, LF, CR, LF]"

text \<open>A size line, up to the call of \<open>on_chunk_header\<close>.\<close>

definition after_size :: "64 word \<Rightarrow> http_parser \<Rightarrow> http_parser" where
  "after_size n pr =
    (if n = 0 then pr\<lparr>content_length := 0, nread := 0, flags := flags pr OR F_TRAILING,
       state := s_header_field_start\<rparr>
     else pr\<lparr>content_length := n, nread := 0, state := s_chunk_data\<rparr>)"

lemma tick_content:
  "(tick n pr)\<lparr>content_length := c, nread := x\<rparr> = pr\<lparr>content_length := c, nread := x\<rparr>"
  by (simp add: tick_def)

lemma run_size_line:
  assumes "drop p buf = hexadecimal n @ CR # LF # rest" "n \<le> chunk_limit"
    and "nread pr = 0" "length (hexadecimal n) + 2 \<le> HTTP_MAX_HEADER_SIZE"
    and "has_flag (flags pr) F_CHUNKED" "http_errno pr = HPE_OK"
  shows "exec_run recorder buf False (bare pr w p s_chunk_size_start b) =
    exec_run recorder buf False (bare (after_size (of_nat n) pr) (w @ [Ev_chunk_header (of_nat n)])
      (p + length (hexadecimal n) + 2) (if n = 0 then s_header_field_start else s_chunk_data) b)"
proof -
  obtain d ds where hex: "hexadecimal n = d # ds"
    by (cases "hexadecimal n") auto
  have digits: "unhex ! byte d \<noteq> - 1" "hex_digits ds" "hex_from (hex_val d) ds = n"
    using hexadecimal_unhex [of n] hexadecimal_value [of n] by (simp_all add: hex hex_digits_def)
  have room: "unat (nread pr) + (1 + length ds + 2) \<le> HTTP_MAX_HEADER_SIZE"
    using assms(3,4) by (simp add: hex)
  have d0: "drop p buf = d # (ds @ CR # LF # rest)"
    using assms(1) by (simp add: hex)
  note d1 = drop_Cons(3) [OF d0]
  have d2: "drop (Suc p + length ds) buf = CR # LF # rest"
    using drop_past [OF d1] .
  have small: "unat (of_nat n :: 64 word) = n"
    using assms(2) by (simp add: unat_of_nat chunk_limit_def)
  then have zero: "(of_nat n :: 64 word) = 0 \<longleftrightarrow> n = 0"
    unfolding word_unat_eq_iff small by simp
  have word: "of_int (unhex ! byte d) = (of_nat (hex_val d) :: 64 word)"
    using unhex_nat(2) [OF digits(1)] by (simp add: hex_val_def)
  have one: "nread (tick 1 pr) = 1"
    using assms(3) by (simp add: tick_def)
  have "exec_run recorder buf False (bare pr w p s_chunk_size_start b) =
      exec_run recorder buf False (bare ((tick 1 pr)\<lparr>content_length := of_nat (hex_val d)\<rparr>) w (Suc p) s_chunk_size b)"
    using d0 assms(5) digits(1) room one word
    by (simp add: run_simps room_def [of _ pr])
  also have "\<dots> = exec_run recorder buf False (bare ((tick (1 + length ds) pr)\<lparr>content_length := of_nat n\<rparr>) w
      (Suc p + length ds) s_chunk_size b)"
    using run_chunk_digits [OF d1 digits(2), of "hex_val d" "tick 1 pr" recorder w b] digits(3) assms(2,5) room
    by (simp add: room_tickI)
  also have "\<dots> = exec_run recorder buf False (bare (after_size (of_nat n) pr) (w @ [Ev_chunk_header (of_nat n)])
      (p + length (hexadecimal n) + 2) (if n = 0 then s_header_field_start else s_chunk_data) b)"
    using d2 room assms(5,6) zero
    by (simp add: run_simps hex after_size_def callback_notify_def after_callback_def tick_content)
  finally show ?thesis .
qed

definition chunk_parsed :: "http_parser \<Rightarrow> http_parser" where
  "chunk_parsed pr = pr\<lparr>content_length := 0, nread := 0, state := s_chunk_size_start\<rparr>"

lemma run_chunk_data:
  assumes "drop p buf = c @ CR # LF # rest" "c \<noteq> []" "length buf < 2 ^ 64"
    and "content_length pr = of_nat (length c)" "content_length pr \<noteq> ULLONG_MAX"
    and "has_flag (flags pr) F_CHUNKED" "http_errno pr = HPE_OK"
  shows "exec_run recorder buf False (bare pr w p s_chunk_data b) =
    exec_run recorder buf False (bare (chunk_parsed pr) (w @ [Ev_body c, Ev_chunk_complete])
      (p + length c + 2) s_chunk_size_start b)"
proof -
  let ?l = "\<lparr>parser = pr, app = w, cur_ch = hd (drop p buf), cur_p = p, p_state = s_chunk_data,
     header_field_mark = None, header_value_mark = None, url_mark = None, body_mark = None,
     status_mark = None, lenient = b\<rparr>"
  let ?m = "\<lparr>parser = pr\<lparr>content_length := 0\<rparr>, app = w, cur_ch = hd (drop p buf), cur_p = p + length c,
     p_state = s_chunk_data_almost_done, header_field_mark = None, header_value_mark = None, url_mark = None,
     body_mark = Some p, status_mark = None, lenient = b\<rparr>"
  note part = unat_part [OF assms(1,3)]
  have cl: "content_length pr \<noteq> 0"
    using part(1) assms(2,4) by (metis length_0_conv unat_0)
  have all: "to_read buf ?l = content_length pr"
    using to_read_all [OF assms(3), of ?l] part assms(4) by simp
  have take: "take_body buf ?l = ?l\<lparr>parser := pr\<lparr>content_length := 0\<rparr>, body_mark := Some p,
      cur_p := p + length c - 1\<rparr>"
    using all part(1) assms(4) by (simp add: take_body_def macro_defs Let_def)
  have suc: "Suc (p + length c - Suc 0) = p + length c"
    using assms(2) by (cases c) auto
  have "drop p buf \<noteq> []" using assms(1,2) by simp
  then have "exec_run recorder buf False (bare pr w p s_chunk_data b) = exec_run recorder buf False ?m"
    using assms(5,6) cl
    by (simp add: bare_run_body exec_run_switch exec_switch_def case_chunk_data_def take Let_def suc
        update_state_def)
  also have "\<dots> = exec_run recorder buf False (bare (chunk_parsed pr) (w @ [Ev_body c, Ev_chunk_complete])
      (p + length c + 2) s_chunk_size_start b)"
  proof -
    have d: "drop (p + length c) buf = CR # LF # rest"
      using drop_past [OF assms(1)] .
    have "subbuf buf p (p + length c) = c"
      using assms(1) by (simp add: subbuf_def)
    then show ?thesis
      using exec_run_byte [of ?m buf recorder] drop_Cons [OF d] assms(6,7)
      by (simp add: fetched_def exec_run_switch exec_switch_def case_defs macro_defs callback_body_def
          run_bare bare_run_body chunk_parsed_def)
  qed
  finally show ?thesis .
qed

lemma run_chunk:
  assumes "drop p buf = chunk c @ rest" "c \<noteq> []" "length buf < 2 ^ 64" "length c \<le> chunk_limit"
    and "length (hexadecimal (length c)) + 2 \<le> HTTP_MAX_HEADER_SIZE"
    and "nread pr = 0" "has_flag (flags pr) F_CHUNKED" "http_errno pr = HPE_OK"
  shows "exec_run recorder buf False (bare pr w p s_chunk_size_start b) =
    exec_run recorder buf False (bare (chunk_parsed pr)
      (w @ [Ev_chunk_header (of_nat (length c)), Ev_body c, Ev_chunk_complete]) (p + length (chunk c))
      s_chunk_size_start b)"
proof -
  let ?h = "length (hexadecimal (length c))" and ?n = "of_nat (length c) :: 64 word"
  have d0: "drop p buf = hexadecimal (length c) @ CR # LF # (c @ CR # LF # rest)"
    using assms(1) by (simp add: chunk_def)
  have d1: "drop (p + ?h + 2) buf = c @ CR # LF # rest"
    using drop_Cons(3) [OF drop_Cons(3) [OF drop_past [OF d0]]] by simp
  have n: "unat ?n = length c"
    using unat_part(1) [OF d1 assms(3)] .
  have nz: "?n \<noteq> 0" "?n \<noteq> ULLONG_MAX"
    unfolding eq_ULLONG_MAX n unfolding word_unat_eq_iff n
    using assms(2,4) by (simp_all add: chunk_limit_def)
  have "exec_run recorder buf False (bare pr w p s_chunk_size_start b) =
      exec_run recorder buf False (bare (after_size ?n pr) (w @ [Ev_chunk_header ?n]) (p + ?h + 2) s_chunk_data b)"
    using run_size_line [OF d0 assms(4,6,5,7,8), of w b] assms(2) by simp
  also have "\<dots> = exec_run recorder buf False (bare (chunk_parsed (after_size ?n pr))
      (w @ [Ev_chunk_header ?n] @ [Ev_body c, Ev_chunk_complete]) (p + ?h + 2 + length c + 2) s_chunk_size_start b)"
    using run_chunk_data [OF d1 assms(2,3), of "after_size ?n pr" "w @ [Ev_chunk_header ?n]" b] nz assms(7,8)
    by (simp add: after_size_def)
  also have "chunk_parsed (after_size ?n pr) = chunk_parsed pr"
    using nz by (simp add: chunk_parsed_def after_size_def)
  finally show ?thesis by (simp add: chunk_def ac_simps)
qed

definition chunk_events :: "char list \<Rightarrow> event list" where
  "chunk_events c = [Ev_chunk_header (of_nat (length c)), Ev_body c, Ev_chunk_complete]"

definition good_chunk :: "char list \<Rightarrow> bool" where
  "good_chunk c \<longleftrightarrow> c \<noteq> [] \<and> length c \<le> chunk_limit"

lemma length_hexadecimal: "n < 16 ^ k \<Longrightarrow> 0 < k \<Longrightarrow> length (hexadecimal n) \<le> k"
proof (induction n arbitrary: k rule: hexadecimal.induct)
  case (1 n)
  show ?case
  proof (cases "n < 16")
    case False
    then obtain j where k: "k = Suc j" "0 < j"
      using "1.prems" by (cases k; cases "k - 1") auto
    then have "n div 16 < 16 ^ j" using "1.prems" by (simp add: less_mult_imp_div_less mult.commute)
    then show ?thesis
      using "1.IH" [OF False] k False by (subst hexadecimal.simps) simp
  qed (use "1.prems" in \<open>subst hexadecimal.simps, simp\<close>)
qed

lemma run_chunks:
  assumes "drop p buf = concat (map chunk cs) @ rest" "list_all good_chunk cs" "length buf < 2 ^ 64"
    and "nread pr = 0" "has_flag (flags pr) F_CHUNKED" "http_errno pr = HPE_OK"
  shows "exec_run recorder buf False (bare pr w p s_chunk_size_start b) =
    exec_run recorder buf False (bare (if cs = [] then pr else chunk_parsed pr)
      (w @ concat (map chunk_events cs)) (p + length (concat (map chunk cs))) s_chunk_size_start b)"
  using assms
proof (induction cs arbitrary: p w pr)
  case (Cons c cs)
  have c: "c \<noteq> []" "length c \<le> chunk_limit"
    using Cons.prems(2) by (simp_all add: good_chunk_def)
  have "length (hexadecimal (length c)) \<le> 16"
    using c(2) by (intro length_hexadecimal) (simp_all add: chunk_limit_def)
  then have h: "length (hexadecimal (length c)) + 2 \<le> HTTP_MAX_HEADER_SIZE"
    by (simp add: HTTP_MAX_HEADER_SIZE_def)
  have d: "drop p buf = chunk c @ (concat (map chunk cs) @ rest)"
    using Cons.prems(1) by simp
  have "exec_run recorder buf False (bare pr w p s_chunk_size_start b) =
      exec_run recorder buf False (bare (chunk_parsed pr) (w @ chunk_events c) (p + length (chunk c)) s_chunk_size_start b)"
    using run_chunk [OF d c(1) Cons.prems(3) c(2) h Cons.prems(4-6)] by (simp add: chunk_events_def)
  also have "\<dots> = exec_run recorder buf False (bare (chunk_parsed pr)
      (w @ chunk_events c @ concat (map chunk_events cs)) (p + length (chunk c) + length (concat (map chunk cs)))
      s_chunk_size_start b)"
  proof -
    have "nread (chunk_parsed pr) = 0" "has_flag (flags (chunk_parsed pr)) F_CHUNKED"
      "http_errno (chunk_parsed pr) = HPE_OK" "list_all good_chunk cs"
      "(if cs = [] then chunk_parsed pr else chunk_parsed (chunk_parsed pr)) = chunk_parsed pr"
      using Cons.prems(2,5,6) by (simp_all add: chunk_parsed_def)
    then show ?thesis
      using Cons.IH [OF drop_past [OF d] _ Cons.prems(3), of "chunk_parsed pr" "w @ chunk_events c"]
      by (simp only: append_assoc)
  qed
  finally show ?case by (simp add: ac_simps)
qed simp

lemma run_trailer:
  assumes "drop p buf = CR # LF # rest" "room 2 pr" "has_flag (flags pr) F_TRAILING"
    and "\<not> upgrade pr" "http_errno pr = HPE_OK"
  defines "pr' \<equiv> (tick 2 pr)\<lparr>state := s_message_done\<rparr>"
  shows "exec_run recorder buf False (bare pr w p s_header_field_start b) =
    exec_run recorder buf False (bare (pr'\<lparr>state := NEW_MESSAGE pr'\<rparr>)
      (w @ [Ev_chunk_complete, Ev_message_complete]) (p + 2) (NEW_MESSAGE pr') b)"
  using assms(1-5) by (simp add: pr'_def run_simps room_def [of _ pr], simp add: eval_nat_numeral)

lemma run_last_chunk:
  assumes "drop p buf = last_chunk @ rest" "nread pr = 0" "has_flag (flags pr) F_CHUNKED"
    and "\<not> upgrade pr" "http_errno pr = HPE_OK"
  defines "pr' \<equiv> (tick 2 (after_size 0 pr))\<lparr>state := s_message_done\<rparr>"
  shows "exec_run recorder buf False (bare pr w p s_chunk_size_start b) =
    exec_run recorder buf False (bare (pr'\<lparr>state := NEW_MESSAGE pr'\<rparr>)
      (w @ [Ev_chunk_header 0, Ev_chunk_complete, Ev_message_complete]) (p + 5) (NEW_MESSAGE pr') b)"
proof -
  have hex0: "hexadecimal 0 = ''0''"
    by (subst hexadecimal.simps) (simp add: hex_char_def hex_chars_def)
  have d0: "drop p buf = hexadecimal 0 @ CR # LF # (CR # LF # rest)"
    using assms(1) by (simp add: hex0 last_chunk_def)
  have room0: "length (hexadecimal 0) + 2 \<le> HTTP_MAX_HEADER_SIZE" "2 \<le> HTTP_MAX_HEADER_SIZE"
    by (simp_all add: hex0 HTTP_MAX_HEADER_SIZE_def)
  have d3: "drop (p + 3) buf = CR # LF # rest"
    using drop_past [of p buf "[CHR ''0'', CR, LF]"] d0 by (simp add: hex0 eval_nat_numeral)
  have "exec_run recorder buf False (bare pr w p s_chunk_size_start b) =
      exec_run recorder buf False (bare (after_size 0 pr) (w @ [Ev_chunk_header 0]) (p + 3) s_header_field_start b)"
    using run_size_line [OF d0 _ assms(2) room0(1) assms(3,5), of w b]
    by (simp add: hex0 eval_nat_numeral)
  also have "\<dots> = exec_run recorder buf False (bare (pr'\<lparr>state := NEW_MESSAGE pr'\<rparr>)
      (w @ [Ev_chunk_header 0, Ev_chunk_complete, Ev_message_complete]) (p + 5) (NEW_MESSAGE pr') b)"
    using run_trailer [OF d3, of "after_size 0 pr" "w @ [Ev_chunk_header 0]" b] assms(4,5) room0(2)
    by (simp add: pr'_def after_size_def flag_simps room_def add.commute [of _ "5::nat"])
  finally show ?thesis .
qed
end
