(* ===== verification/Parser_Messages.thy ===== *)
theory Parser_Messages
  imports Parser_Bodies
begin

text \<open>
  Whole messages: a message that is printed is parsed back, byte for byte, by one call of
  \<open>http_parser_execute\<close> on the recording application.
\<close>

section \<open>Headers\<close>

definition header_events :: "char list \<times> char list \<Rightarrow> event list" where
  "header_events h = [Ev_header_field (fst h), Ev_header_value (snd h)]"

definition headers_parsed :: "(char list \<times> char list) list \<Rightarrow> http_parser \<Rightarrow> http_parser" where
  "headers_parsed hs pr = fold (\<lambda>h. line_parsed (length (header_line h))) hs pr"

lemma line_parsed_sel [simp]:
  "flags (line_parsed n pr) = flags pr" "http_errno (line_parsed n pr) = http_errno pr"
  "parser_method (line_parsed n pr) = parser_method pr" "parser_type (line_parsed n pr) = parser_type pr"
  "content_length (line_parsed n pr) = content_length pr" "status_code (line_parsed n pr) = status_code pr"
  "http_major (line_parsed n pr) = http_major pr" "http_minor (line_parsed n pr) = http_minor pr"
  "upgrade (line_parsed n pr) = upgrade pr" "header_state (line_parsed n pr) = h_general"
  by (simp_all add: line_parsed_def)

lemma room_line_parsed: "room (n + m) pr \<Longrightarrow> room m (line_parsed n pr)"
  using room_tick [of n m pr] by (simp add: line_parsed_def)

lemma headers_parsed_sel [simp]:
  "flags (headers_parsed hs pr) = flags pr" "http_errno (headers_parsed hs pr) = http_errno pr"
  "parser_method (headers_parsed hs pr) = parser_method pr" "parser_type (headers_parsed hs pr) = parser_type pr"
  "status_code (headers_parsed hs pr) = status_code pr" "content_length (headers_parsed hs pr) = content_length pr"
  "http_major (headers_parsed hs pr) = http_major pr" "http_minor (headers_parsed hs pr) = http_minor pr"
  "upgrade (headers_parsed hs pr) = upgrade pr"
  unfolding headers_parsed_def by (induction hs arbitrary: pr) simp_all

lemma room_headers_parsed:
  "room (length (concat (map header_line hs)) + m) pr \<Longrightarrow> room m (headers_parsed hs pr)"
  unfolding headers_parsed_def
proof (induction hs arbitrary: pr)
  case (Cons h hs)
  have "room (length (concat (map header_line hs)) + m) (line_parsed (length (header_line h)) pr)"
    using Cons.prems by (intro room_line_parsed) (simp add: ac_simps)
  then show ?case using Cons.IH by simp
qed simp

definition no_fold :: "char list \<Rightarrow> bool" where
  "no_fold xs \<longleftrightarrow> xs \<noteq> [] \<and> hd xs \<noteq> CHR '' '' \<and> hd xs \<noteq> TAB"

lemma no_fold_header: "field_name (fst h) \<Longrightarrow> no_fold (header_line h @ rest)"
  by (cases "fst h") (auto simp: no_fold_def header_line_def field_name_def)

lemma no_fold_headers:
  "list_all plain_header hs \<Longrightarrow> no_fold rest \<Longrightarrow> no_fold (concat (map header_line hs) @ rest)"
  using no_fold_header [of "hd hs"] by (cases hs) (simp_all add: plain_header_def)

lemma run_lws_general:
  assumes "drop p buf = rest" "no_fold rest" "room 1 pr" "header_state pr = h_general"
  shows "exec_run st buf False (bare pr w p s_header_value_lws b) =
    exec_run st buf False (bare pr w p s_header_field_start b)"
  using run_lws [of p buf "hd rest" "tl rest" pr st w b] assms
  by (cases rest) (simp_all add: no_fold_def finish_header_def)

lemma run_headers:
  assumes "drop p buf = concat (map header_line hs) @ rest" "no_fold rest" "list_all plain_header hs"
    and "room (length (concat (map header_line hs)) + 1) pr" "http_errno pr = HPE_OK"
  shows "exec_run recorder buf False (bare pr w p s_header_field_start b) =
    exec_run recorder buf False (bare (headers_parsed hs pr) (w @ concat (map header_events hs))
      (p + length (concat (map header_line hs))) s_header_field_start b)"
  using assms
proof (induction hs arbitrary: p w pr)
  case (Cons h hs)
  let ?n = "length (header_line h)" and ?m = "length (concat (map header_line hs))"
  let ?pr = "line_parsed ?n pr"
  have d: "drop p buf = header_line h @ (concat (map header_line hs) @ rest)"
    using Cons.prems(1) by simp
  note d' = drop_past [OF d]
  have fold: "no_fold (concat (map header_line hs) @ rest)"
    using Cons.prems(2,3) by (intro no_fold_headers) simp_all
  have h: "plain_header h" "list_all plain_header hs"
    using Cons.prems(3) by simp_all
  have room: "room ?n pr" "room (?m + 1) ?pr" "room 1 ?pr"
    using room_mono [OF Cons.prems(4), of ?n] room_line_parsed [of ?n "?m + 1" pr]
      room_line_parsed [of ?n 1 pr] room_mono [OF Cons.prems(4), of "?n + 1"] Cons.prems(4)
    by (simp_all add: ac_simps)
  have "exec_run recorder buf False (bare pr w p s_header_field_start b) =
      exec_run recorder buf False (bare ?pr (w @ header_events h) (p + ?n) s_header_value_lws b)"
    using run_header_line [OF d h(1) room(1) Cons.prems(5), of w b] by (simp add: header_events_def)
  also have "\<dots> = exec_run recorder buf False (bare ?pr (w @ header_events h) (p + ?n) s_header_field_start b)"
    by (rule run_lws_general [OF d' fold room(3)]) simp
  also have "\<dots> = exec_run recorder buf False (bare (headers_parsed hs ?pr)
      ((w @ header_events h) @ concat (map header_events hs)) (p + ?n + ?m) s_header_field_start b)"
    by (rule Cons.IH [OF d' Cons.prems(2) h(2) room(2)]) (use Cons.prems(5) in simp)
  finally show ?case by (simp add: headers_parsed_def ac_simps)
qed (simp add: headers_parsed_def)

section \<open>Messages\<close>

text \<open>
  A message in print: its start line, its header fields, and a body framed by its length or in
  chunks; the callbacks it stands for; and what the parser requires of it.
\<close>

datatype start = Status nat "char list" | Request http_method "char list"
datatype payload = No_body | Sized "char list" | Chunks "char list list"
type_synonym message = "start \<times> (char list \<times> char list) list \<times> payload"

primrec print_start :: "start \<Rightarrow> char list" where
  "print_start (Status code reason) = status_line code reason"
| "print_start (Request m url) = request_line m url"

primrec start_events :: "start \<Rightarrow> event list" where
  "start_events (Status code reason) = [Ev_message_begin, Ev_status reason]"
| "start_events (Request m url) = [Ev_message_begin, Ev_url url]"

primrec start_ok :: "start \<Rightarrow> bool" where
  "start_ok (Status code reason) \<longleftrightarrow> code \<le> 999 \<and> CR \<notin> set reason \<and> LF \<notin> set reason"
| "start_ok (Request m url) \<longleftrightarrow> m \<noteq> HTTP_CONNECT \<and>
     foldl parse_url_char s_req_spaces_before_url url \<in> url_end_states"

primrec start_type :: "start \<Rightarrow> http_parser_type" where
  "start_type (Status code reason) = HTTP_RESPONSE"
| "start_type (Request m url) = HTTP_REQUEST"

text \<open>The status code the parser holds; a request leaves it at 0.\<close>

primrec start_code :: "start \<Rightarrow> 16 word" where
  "start_code (Status code reason) = of_nat code"
| "start_code (Request m url) = 0"

text \<open>What the parser holds of the start line.\<close>

primrec start_seen :: "start \<Rightarrow> http_parser \<Rightarrow> bool" where
  "start_seen (Status code reason) pr \<longleftrightarrow> status_code pr = of_nat code"
| "start_seen (Request m url) pr \<longleftrightarrow> parser_method pr = m \<and> status_code pr = 0"

primrec framing :: "payload \<Rightarrow> (char list \<times> char list) list" where
  "framing No_body = []"
| "framing (Sized body) = [(''Content-Length'', decimal (length body))]"
| "framing (Chunks cs) = [(''Transfer-Encoding'', ''chunked'')]"

primrec print_body :: "payload \<Rightarrow> char list" where
  "print_body No_body = []"
| "print_body (Sized body) = body"
| "print_body (Chunks cs) = concat (map chunk cs) @ last_chunk"

primrec body_events :: "payload \<Rightarrow> event list" where
  "body_events No_body = []"
| "body_events (Sized body) = (if body = [] then [] else [Ev_body body])"
| "body_events (Chunks cs) = concat (map chunk_events cs) @ [Ev_chunk_header 0, Ev_chunk_complete]"

primrec payload_ok :: "payload \<Rightarrow> bool" where
  "payload_ok No_body \<longleftrightarrow> True"
| "payload_ok (Sized body) \<longleftrightarrow> length body \<le> length_limit"
| "payload_ok (Chunks cs) \<longleftrightarrow> list_all good_chunk cs"

definition print_head :: "message \<Rightarrow> char list" where
  "print_head msg = (case msg of (s, hs, p) \<Rightarrow>
     print_start s @ concat (map header_line hs) @ concat (map header_line (framing p)) @ [CR, LF])"

definition print_message :: "message \<Rightarrow> char list" where
  "print_message msg = print_head msg @ print_body (snd (snd msg))"

definition message_events :: "message \<Rightarrow> event list" where
  "message_events msg = (case msg of (s, hs, p) \<Rightarrow>
     start_events s @ concat (map header_events hs) @ concat (map header_events (framing p)) @
     [Ev_headers_complete (start_code s)] @ body_events p @ [Ev_message_complete])"

text \<open>The two bytes over are what the end of a chunked body leaves on the count of header bytes.\<close>

definition message_ok :: "http_parser_type \<Rightarrow> message \<Rightarrow> bool" where
  "message_ok t msg \<longleftrightarrow> (case msg of (s, hs, p) \<Rightarrow>
     start_type s = t \<and> start_ok s \<and> list_all plain_header hs \<and> payload_ok p \<and>
     (p = No_body \<longrightarrow> t = HTTP_REQUEST) \<and>
     length (print_head msg) + 2 \<le> HTTP_MAX_HEADER_SIZE)"

text \<open>A parser between two messages.\<close>

definition ready :: "http_parser_type \<Rightarrow> http_parser \<Rightarrow> bool" where
  "ready t pr \<longleftrightarrow> parser_type pr = t \<and> http_errno pr = HPE_OK \<and> \<not> upgrade pr \<and> unat (nread pr) \<le> 2 \<and>
     parser_method pr \<noteq> HTTP_CONNECT \<and> (t = HTTP_REQUEST \<longrightarrow> status_code pr = 0)"

text \<open>A parser inside the headers of a message that keeps the connection.\<close>

definition in_headers :: "http_parser_type \<Rightarrow> start \<Rightarrow> http_parser \<Rightarrow> bool" where
  "in_headers t s pr \<longleftrightarrow> parser_type pr = t \<and> http_errno pr = HPE_OK \<and>
     parser_method pr \<noteq> HTTP_CONNECT \<and> http_major pr = 1 \<and> http_minor pr = 1 \<and> flags pr = 0 \<and>
     content_length pr = ULLONG_MAX \<and> start_seen s pr \<and> (t = HTTP_REQUEST \<longrightarrow> status_code pr = 0)"

lemma in_headers_tick:
  "in_headers t s (line_parsed n pr) = in_headers t s pr"
  "in_headers t s (headers_parsed hs pr) = in_headers t s pr"
  by (cases s; simp add: in_headers_def)+

abbreviation first_state :: "http_parser_type \<Rightarrow> state" where
  "first_state t \<equiv> (if t = HTTP_REQUEST then s_start_req else s_start_res)"

lemma run_start:
  assumes "drop p buf = print_start s @ rest" "room (length (print_start s) + k) pr" "start_ok s"
    and "start_type s = t" "ready t pr"
  shows "\<exists>pr'. exec_run recorder buf False (bare pr w p (first_state t) b) =
      exec_run recorder buf False (bare pr' (w @ start_events s) (p + length (print_start s))
        s_header_field_start b) \<and> in_headers t s pr' \<and> room k pr'"
proof (cases s)
  case (Status code reason)
  have code: "unat (of_nat code :: 16 word) = code"
    using assms(3) Status by (simp add: unat_of_nat)
  show ?thesis
    using run_status_line [of p buf code reason rest pr w b] assms Status code
      room_mono [OF assms(2), of "length (print_start s)"] room_tick [of "length (print_start s)" k pr]
    by (intro exI [of _ "status_parsed (length (status_line code reason)) code pr"])
      (simp add: ready_def in_headers_def status_parsed_def)
next
  case (Request m url)
  show ?thesis
    using run_request_line [of p buf m url rest pr w b] assms Request
      room_mono [OF assms(2), of "length (print_start s)"] room_tick [of "length (print_start s)" k pr]
    by (intro exI [of _ "request_parsed (length (request_line m url)) m pr"])
      (simp add: ready_def in_headers_def request_parsed_def)
qed

text \<open>A parser after the headers, and what its next message starts from.\<close>

definition in_body :: "http_parser_type \<Rightarrow> start \<Rightarrow> http_parser \<Rightarrow> bool" where
  "in_body t s pr \<longleftrightarrow> parser_type pr = t \<and> http_errno pr = HPE_OK \<and> \<not> upgrade pr \<and>
     parser_method pr \<noteq> HTTP_CONNECT \<and> http_major pr = 1 \<and> http_minor pr = 1 \<and>
     \<not> has_flag (flags pr) F_CONNECTION_CLOSE \<and> nread pr = 0 \<and> start_seen s pr \<and>
     (t = HTTP_REQUEST \<longrightarrow> status_code pr = 0)"

lemma start_seen_upd [simp]:
  "start_seen s (pr\<lparr>state := x\<rparr>) = start_seen s pr"
  "start_seen s (pr\<lparr>content_length := c\<rparr>) = start_seen s pr"
  "start_seen s (pr\<lparr>flags := f\<rparr>) = start_seen s pr"
  "start_seen s (pr\<lparr>nread := n\<rparr>) = start_seen s pr"
  "start_seen s (pr\<lparr>upgrade := u\<rparr>) = start_seen s pr"
  "start_seen s (pr\<lparr>index := i\<rparr>) = start_seen s pr"
  "start_seen s (pr\<lparr>header_state := h\<rparr>) = start_seen s pr"
  "start_seen s (tick k pr) = start_seen s pr"
  by (cases s; simp)+

lemma start_seen_code: "start_seen s pr \<Longrightarrow> status_code pr = start_code s"
  by (cases s) simp_all

lemma NEW_MESSAGE_keep:
  assumes "http_major pr = 1" "http_minor pr = 1" "\<not> has_flag (flags pr) F_CONNECTION_CLOSE"
    and "parser_type pr = t" "t \<noteq> HTTP_BOTH"
    and "has_flag (flags pr) F_CHUNKED \<or> content_length pr \<noteq> ULLONG_MAX \<or> t = HTTP_REQUEST"
  shows "NEW_MESSAGE pr = first_state t"
  using assms
  by (auto simp: NEW_MESSAGE_def http_should_keep_alive_def http_message_needs_eof_def start_state_def)

lemma bit_F [simp]: "bit F_CONTENTLENGTH n \<longleftrightarrow> n = 7" "bit F_CHUNKED n \<longleftrightarrow> n = 0"
  using bit_or_F(8) [of 0 n] bit_or_F(1) [of 0 n] by simp_all

lemma run_length_framing:
  assumes "drop p buf = header_line (''Content-Length'', decimal n) @ CR # LF # rest"
    and "room (length (header_line (''Content-Length'', decimal n)) + 2) pr"
    and "in_headers t s pr" "n \<le> length_limit" "t \<noteq> HTTP_BOTH"
  shows "\<exists>pr'. in_body t s pr' \<and> content_length pr' = of_nat n \<and>
    exec_run recorder buf False (bare pr w p s_header_field_start b) =
    exec_run recorder buf False (bare (if n = 0 then pr'\<lparr>state := first_state t\<rparr> else pr')
      (w @ header_events (''Content-Length'', decimal n) @ [Ev_headers_complete (start_code s)] @
        (if n = 0 then [Ev_message_complete] else []))
      (p + length (header_line (''Content-Length'', decimal n)) + 2)
      (if n = 0 then first_state t else s_body_identity) b)"
proof -
  let ?h = "(''Content-Length'', decimal n)"
  let ?k = "length (header_line ?h)" and ?w = "w @ header_events (''Content-Length'', decimal n)"
  let ?pr = "length_parsed ?k n pr"
  let ?pr' = "headers_done_parser ?pr"
  have field: "field_name ''Content-Length''" "map TOKEN ''Content-Length'' = CONTENT_LENGTH"
    by (simp_all add: field_name_def TOKEN_def tokens_def CONTENT_LENGTH_def)
  note d = drop_past [OF assms(1)]
  have hd: "in_body t s ?pr'" "content_length ?pr' = of_nat n" "plain_flags ?pr" "room 2 ?pr"
      "http_errno ?pr = HPE_OK" "finish_header ?pr = ?pr" "\<not> has_flag (flags ?pr) F_CHUNKED"
      "content_length ?pr = of_nat n" "status_code ?pr = start_code s"
    using assms(2,3) start_seen_code [of s pr] room_tick [of ?k 2 pr]
    by (simp_all add: in_body_def in_headers_def headers_done_parser_def length_parsed_def
        plain_flags_def flag_simps finish_header_def)
  have small: "unat (of_nat n :: 64 word) = n"
    using assms(4) by (simp add: unat_of_nat length_limit_def)
  have nz: "(of_nat n :: 64 word) = 0 \<longleftrightarrow> n = 0" "(of_nat n :: 64 word) \<noteq> ULLONG_MAX"
    unfolding eq_ULLONG_MAX small unfolding word_unat_eq_iff small using assms(4) by (simp_all add: length_limit_def)
  have "exec_run recorder buf False (bare pr w p s_header_field_start b) =
      exec_run recorder buf False (bare ?pr ?w (p + ?k) s_header_value_lws b)"
    using run_length_line [OF assms(1) _ field, of pr w b] assms(2,3,4) decimal_digits [of n]
      room_mono [OF assms(2), of ?k]
    by (simp add: in_headers_def decimal_value header_events_def flag_simps)
  also have "\<dots> = exec_run recorder buf False (bare ?pr ?w (p + ?k) s_header_field_start b)"
    using run_lws [of "p + ?k" buf CR "LF # rest" ?pr recorder ?w b] d hd(4,6)
      room_mono [OF hd(4), of 1] by simp
  finally have run: "exec_run recorder buf False (bare pr w p s_header_field_start b) = \<dots>" .
  show ?thesis
  proof (intro exI conjI)
    show "exec_run recorder buf False (bare pr w p s_header_field_start b) =
      exec_run recorder buf False (bare (if n = 0 then ?pr'\<lparr>state := first_state t\<rparr> else ?pr')
      (w @ header_events (''Content-Length'', decimal n) @ [Ev_headers_complete (start_code s)] @
        (if n = 0 then [Ev_message_complete] else []))
      (p + length (header_line (''Content-Length'', decimal n)) + 2)
      (if n = 0 then first_state t else s_body_identity) b)"
    proof (cases "n = 0")
      case True
      have "NEW_MESSAGE ?pr' = first_state t"
        using hd(1,2) True assms(5) by (intro NEW_MESSAGE_keep) (simp_all add: in_body_def ULLONG_MAX_def)
      then show ?thesis
        using run run_headers_end(3) [OF d hd(4,3,5), of ?w b] hd(7-9) True by simp
    next
      case False
      then show ?thesis
        using run run_headers_end(2) [OF d hd(4,3,5), of ?w b] hd(7-9) nz by simp
    qed
  qed (use hd in simp_all)
qed

lemma run_sized:
  assumes "drop p buf = concat (map header_line (framing (Sized body))) @ [CR, LF] @ body @ rest"
    and "room (length (concat (map header_line (framing (Sized body)))) + 2) pr" "in_headers t s pr"
    and "payload_ok (Sized body)" "t \<noteq> HTTP_BOTH" "length buf < 2 ^ 64"
  shows "\<exists>pr'. exec_run recorder buf False (bare pr w p s_header_field_start b) =
      exec_run recorder buf False (bare pr' (w @ concat (map header_events (framing (Sized body))) @
          [Ev_headers_complete (start_code s)] @ body_events (Sized body) @ [Ev_message_complete])
        (p + length (concat (map header_line (framing (Sized body)))) + 2 + length body) (first_state t) b) \<and>
    ready t pr' \<and> state pr' = first_state t \<and> start_seen s pr'"
proof -
  let ?h = "(''Content-Length'', decimal (length body))"
  have d: "drop p buf = header_line (''Content-Length'', decimal (length body)) @ CR # LF # (body @ rest)"
    using assms(1) by simp
  have d': "drop (p + length (header_line ?h) + 2) buf = body @ rest"
    using drop_Cons(3) [OF drop_Cons(3) [OF drop_past [OF d]]] by simp
  obtain pr' where pr': "in_body t s pr'" "content_length pr' = of_nat (length body)"
    and run: "exec_run recorder buf False (bare pr w p s_header_field_start b) =
      exec_run recorder buf False (bare (if body = [] then pr'\<lparr>state := first_state t\<rparr> else pr')
        (w @ header_events ?h @ [Ev_headers_complete (start_code s)] @ (if body = [] then [Ev_message_complete] else []))
        (p + length (header_line ?h) + 2) (if body = [] then first_state t else s_body_identity) b)"
    using run_length_framing [OF d _ assms(3) _ assms(5), of w b] assms(2,4) by auto
  show ?thesis
  proof (cases "body = []")
    case True
    then show ?thesis
      using run pr'(1)
      by (intro exI [of _ "pr'\<lparr>state := first_state t\<rparr>"]) (auto simp: ready_def in_body_def)
  next
    case False
    have small: "unat (of_nat (length body) :: 64 word) = length body"
      using unat_part(1) [OF d' assms(6)] .
    have cl: "content_length pr' \<noteq> ULLONG_MAX"
      unfolding eq_ULLONG_MAX pr'(2) small using assms(4) by (simp add: length_limit_def)
    let ?pr = "pr'\<lparr>content_length := 0, state := s_message_done\<rparr>"
    have new: "NEW_MESSAGE ?pr = first_state t"
      using pr'(1) assms(5) by (intro NEW_MESSAGE_keep) (simp_all add: in_body_def ULLONG_MAX_def)
    then show ?thesis
      using run run_body [OF d' False assms(6) pr'(2) cl, of "w @ header_events ?h @ [Ev_headers_complete (start_code s)]" b]
        pr'(1) False
      by (intro exI [of _ "body_done pr'"]) (auto simp: body_done_def in_body_def ready_def Let_def)
  qed
qed

lemma run_chunked:
  assumes "drop p buf = concat (map header_line (framing (Chunks cs))) @ [CR, LF] @ print_body (Chunks cs) @ rest"
    and "room (length (concat (map header_line (framing (Chunks cs)))) + 2) pr" "in_headers t s pr"
    and "payload_ok (Chunks cs)" "t \<noteq> HTTP_BOTH" "length buf < 2 ^ 64"
  shows "\<exists>pr'. exec_run recorder buf False (bare pr w p s_header_field_start b) =
      exec_run recorder buf False (bare pr' (w @ concat (map header_events (framing (Chunks cs))) @
          [Ev_headers_complete (start_code s)] @ body_events (Chunks cs) @ [Ev_message_complete])
        (p + length (concat (map header_line (framing (Chunks cs)))) + 2 + length (print_body (Chunks cs)))
        (first_state t) b) \<and>
    ready t pr' \<and> state pr' = first_state t \<and> start_seen s pr'"
proof -
  let ?h = "(''Transfer-Encoding'', ''chunked'')" and ?n = "length (concat (map chunk cs))"
  let ?k = "length (header_line ?h)" and ?w = "w @ header_events ?h"
  let ?pr = "finish_header (chunked_parsed ?k pr)"
  let ?pr' = "headers_done_parser ?pr" and ?w' = "?w @ [Ev_headers_complete (start_code s)]"
  let ?pc = "if cs = [] then ?pr' else chunk_parsed ?pr'"
  have d: "drop p buf = header_line ?h @ CR # LF # (concat (map chunk cs) @ last_chunk @ rest)"
    using assms(1) by simp
  have field: "field_name ''Transfer-Encoding''" "map TOKEN ''Transfer-Encoding'' = TRANSFER_ENCODING"
    by (simp_all add: field_name_def TOKEN_def tokens_def TRANSFER_ENCODING_def)
  note d1 = drop_past [OF d]
  have d2: "drop (p + ?k + 2) buf = concat (map chunk cs) @ (last_chunk @ rest)"
    using drop_Cons(3) [OF drop_Cons(3) [OF d1]] by simp
  have hd: "plain_flags ?pr" "room 2 (chunked_parsed ?k pr)" "room 2 ?pr" "http_errno ?pr = HPE_OK"
      "has_flag (flags ?pr) F_CHUNKED" "\<not> has_flag (flags ?pr) F_CONNECTION_CLOSE"
      "status_code ?pr = start_code s"
    using assms(2,3) room_tick [of ?k 2 pr] start_seen_code [of s pr]
    by (simp_all add: in_headers_def chunked_parsed_def plain_flags_def flag_simps finish_header_def)
  have body: "in_body t s ?pr'"
    using assms(3) hd(6)
    by (simp add: in_body_def in_headers_def headers_done_parser_def chunked_parsed_def finish_header_def
        flag_simps)
  have pc: "nread ?pc = 0" "has_flag (flags ?pc) F_CHUNKED" "\<not> upgrade ?pc" "http_errno ?pc = HPE_OK"
      "in_body t s ?pc"
    using body hd(5) by (auto simp: in_body_def headers_done_parser_def chunk_parsed_def)
  have "exec_run recorder buf False (bare pr w p s_header_field_start b) =
      exec_run recorder buf False (bare (chunked_parsed ?k pr) ?w (p + ?k) s_header_value_lws b)"
    using run_chunked_line [OF d _ field, of pr w b] assms(2,3) room_mono [OF assms(2), of ?k]
    by (simp add: in_headers_def header_events_def)
  also have "\<dots> = exec_run recorder buf False (bare ?pr ?w (p + ?k) s_header_field_start b)"
    by (rule run_lws [OF d1]) (use room_mono [OF hd(2), of 1] in simp_all)
  also have "\<dots> = exec_run recorder buf False (bare ?pr' ?w' (p + ?k + 2) s_chunk_size_start b)"
    using run_headers_end(1) [OF d1 hd(3,1,4,5), of ?w b] hd(7) by simp
  also have "\<dots> = exec_run recorder buf False (bare ?pc (?w' @ concat (map chunk_events cs))
      (p + ?k + 2 + ?n) s_chunk_size_start b)"
    by (rule run_chunks [OF d2 _ assms(6)]) (use assms(4) body hd(4,5) in
        \<open>simp_all add: in_body_def headers_done_parser_def\<close>)
  finally have run: "exec_run recorder buf False (bare pr w p s_header_field_start b) = \<dots>" .
  let ?last = "(tick 2 (after_size 0 ?pc))\<lparr>state := s_message_done\<rparr>"
  have cl: "content_length ?last \<noteq> ULLONG_MAX"
    by (simp add: after_size_def ULLONG_MAX_def)
  have last: "has_flag (flags ?last) F_CHUNKED" "\<not> has_flag (flags ?last) F_CONNECTION_CLOSE"
    using pc(2,5) by (simp_all add: after_size_def in_body_def flag_simps)
  have new: "NEW_MESSAGE ?last = first_state t"
    using pc(5) last cl assms(5)
    by (intro NEW_MESSAGE_keep) (simp_all add: in_body_def after_size_def)
  have "nread (tick 2 (after_size 0 ?pc)) = 2"
    by (simp add: after_size_def tick_def)
  then have "ready t (?last\<lparr>state := first_state t\<rparr>)" "start_seen s (?last\<lparr>state := first_state t\<rparr>)"
    using pc(5) by (simp_all add: ready_def in_body_def after_size_def)
  then show ?thesis
    using run run_last_chunk [OF drop_past [OF d2] pc(1-4), of "?w' @ concat (map chunk_events cs)" b]
    by (intro exI [of _ "?last\<lparr>state := first_state t\<rparr>"])
      (auto simp: new last_chunk_def header_events_def)
qed

lemma run_no_body:
  assumes "drop p buf = CR # LF # rest" "room 2 pr" "in_headers t s pr" "t = HTTP_REQUEST"
  shows "\<exists>pr'. exec_run recorder buf False (bare pr w p s_header_field_start b) =
      exec_run recorder buf False (bare pr' (w @ [Ev_headers_complete (start_code s), Ev_message_complete])
        (p + 2) (first_state t) b) \<and>
    ready t pr' \<and> state pr' = first_state t \<and> start_seen s pr'"
proof -
  let ?pr = "headers_done_parser pr"
  have hd: "plain_flags pr" "http_errno pr = HPE_OK" "\<not> has_flag (flags pr) F_CHUNKED"
      "content_length pr = ULLONG_MAX" "parser_type pr = HTTP_REQUEST"
    using assms(3,4) by (simp_all add: in_headers_def plain_flags_def)
  have "NEW_MESSAGE ?pr = first_state t"
    using assms(3,4) by (intro NEW_MESSAGE_keep) (simp_all add: in_headers_def headers_done_parser_def)
  then show ?thesis
    using run_headers_end(4) [OF assms(1,2) hd(1-5), of w b] assms(3,4) start_seen_code [of s pr]
    by (intro exI [of _ "?pr\<lparr>state := first_state t\<rparr>"])
      (simp add: in_headers_def ready_def headers_done_parser_def)
qed

lemma run_payload:
  assumes "drop p buf = concat (map header_line (framing q)) @ [CR, LF] @ print_body q @ rest"
    and "room (length (concat (map header_line (framing q))) + 2) pr" "in_headers t s pr"
    and "payload_ok q" "t \<noteq> HTTP_BOTH" "length buf < 2 ^ 64" "q = No_body \<longrightarrow> t = HTTP_REQUEST"
  shows "\<exists>pr'. exec_run recorder buf False (bare pr w p s_header_field_start b) =
      exec_run recorder buf False (bare pr' (w @ concat (map header_events (framing q)) @
          [Ev_headers_complete (start_code s)] @ body_events q @ [Ev_message_complete])
        (p + length (concat (map header_line (framing q))) + 2 + length (print_body q)) (first_state t) b) \<and>
    ready t pr' \<and> state pr' = first_state t \<and> start_seen s pr'"
proof (cases q)
  case No_body
  show ?thesis
    using run_no_body [of p buf rest pr t s w b] assms by (simp add: No_body numeral_2_eq_2)
next
  case (Sized body)
  show ?thesis
    using run_sized [of p buf body rest pr t s w b] assms by (simp add: Sized)
next
  case (Chunks cs)
  show ?thesis
    using run_chunked [of p buf cs rest pr t s w b] assms unfolding Chunks by blast
qed

lemma no_fold_framing: "no_fold (concat (map header_line (framing q)) @ [CR, LF] @ rest)"
  by (cases q) (simp_all add: no_fold_def header_line_def)

lemma run_message:
  assumes "drop p buf = print_message msg @ rest" "message_ok t msg" "ready t pr" "t \<noteq> HTTP_BOTH"
    and "length buf < 2 ^ 64"
  shows "\<exists>pr'. exec_run recorder buf False (bare pr w p (first_state t) b) =
      exec_run recorder buf False
        (bare pr' (w @ message_events msg) (p + length (print_message msg)) (first_state t) b) \<and>
    ready t pr' \<and> state pr' = first_state t \<and> start_seen (fst msg) pr'"
proof -
  obtain s hs q where msg: "msg = (s, hs, q)"
    by (cases msg) auto
  let ?s = "print_start s" and ?h = "concat (map header_line hs)" and ?f = "concat (map header_line (framing q))"
  have ok: "start_type s = t" "start_ok s" "list_all plain_header hs" "payload_ok q"
      "q = No_body \<longrightarrow> t = HTTP_REQUEST"
      "length ?s + (length ?h + (length ?f + 2)) + 2 \<le> HTTP_MAX_HEADER_SIZE"
    using assms(2) by (simp_all add: message_ok_def msg print_head_def)
  have d0: "drop p buf = ?s @ (?h @ ?f @ [CR, LF] @ print_body q @ rest)"
    using assms(1) by (simp add: msg print_message_def print_head_def)
  note d1 = drop_past [OF d0]
  note d2 = drop_past [OF d1]
  have room: "room (length ?s + (length ?h + (length ?f + 2))) pr"
    using ok(6) assms(3) by (simp add: room_def ready_def)
  obtain pr1 where run1: "exec_run recorder buf False (bare pr w p (first_state t) b) =
      exec_run recorder buf False (bare pr1 (w @ start_events s) (p + length ?s) s_header_field_start b)"
    and pr1: "in_headers t s pr1" "room (length ?h + (length ?f + 2)) pr1"
    using run_start [OF d0 room ok(2,1) assms(3), of w b] by blast
  let ?pr2 = "headers_parsed hs pr1" and ?w2 = "(w @ start_events s) @ concat (map header_events hs)"
  have pr2: "in_headers t s ?pr2" "room (length ?f + 2) ?pr2"
    using pr1 room_headers_parsed by (simp_all add: in_headers_tick)
  have run2: "exec_run recorder buf False (bare pr1 (w @ start_events s) (p + length ?s) s_header_field_start b) =
      exec_run recorder buf False (bare ?pr2 ?w2 (p + length ?s + length ?h) s_header_field_start b)"
    using pr1(1) room_mono [OF pr1(2), of "length ?h + 1"]
    by (intro run_headers [OF d1 no_fold_framing ok(3)]) (simp_all add: in_headers_def)
  obtain pr' where "exec_run recorder buf False (bare ?pr2 ?w2 (p + length ?s + length ?h) s_header_field_start b) =
      exec_run recorder buf False (bare pr' (?w2 @ concat (map header_events (framing q)) @
          [Ev_headers_complete (start_code s)] @ body_events q @ [Ev_message_complete])
        (p + length ?s + length ?h + length ?f + 2 + length (print_body q)) (first_state t) b)"
    and "ready t pr'" "state pr' = first_state t" "start_seen s pr'"
    using run_payload [OF d2 pr2(2,1) ok(4) assms(4,5) ok(5), of ?w2 b] by blast
  then show ?thesis
    using run1 run2
    by (intro exI [of _ pr']) (simp add: msg message_events_def print_message_def print_head_def add.assoc)
qed

lemma run_messages:
  assumes "drop p buf = concat (map print_message msgs) @ rest" "list_all (message_ok t) msgs" "ready t pr"
    and "t \<noteq> HTTP_BOTH" "length buf < 2 ^ 64" "state pr = first_state t"
  shows "\<exists>pr'. exec_run recorder buf False (bare pr w p (first_state t) b) =
      exec_run recorder buf False (bare pr' (w @ concat (map message_events msgs))
        (p + length (concat (map print_message msgs))) (first_state t) b) \<and>
    ready t pr' \<and> state pr' = first_state t \<and> (msgs \<noteq> [] \<longrightarrow> start_seen (fst (last msgs)) pr')"
  using assms(1-3,6)
proof (induction msgs arbitrary: p w pr)
  case (Cons msg msgs)
  have d: "drop p buf = print_message msg @ (concat (map print_message msgs) @ rest)"
    using Cons.prems(1) by simp
  have ok: "message_ok t msg" "list_all (message_ok t) msgs"
    using Cons.prems(2) by simp_all
  obtain pr1 where run1: "exec_run recorder buf False (bare pr w p (first_state t) b) =
      exec_run recorder buf False
        (bare pr1 (w @ message_events msg) (p + length (print_message msg)) (first_state t) b)"
    and pr1: "ready t pr1" "state pr1 = first_state t" "start_seen (fst msg) pr1"
    using run_message [OF d ok(1) Cons.prems(3) assms(4,5)] by blast
  show ?case
  proof (cases "msgs = []")
    case True
    then show ?thesis using run1 pr1 by auto
  next
    case False
    obtain pr' where "exec_run recorder buf False
        (bare pr1 (w @ message_events msg) (p + length (print_message msg)) (first_state t) b) =
      exec_run recorder buf False (bare pr' ((w @ message_events msg) @ concat (map message_events msgs))
        (p + length (print_message msg) + length (concat (map print_message msgs))) (first_state t) b)"
    and "ready t pr'" "state pr' = first_state t" "msgs \<noteq> [] \<longrightarrow> start_seen (fst (last msgs)) pr'"
    using Cons.IH [OF drop_past [OF d] ok(2) pr1(1,2)] by blast
    then show ?thesis
      using run1 False by (intro exI [of _ pr']) (simp add: add.assoc)
  qed
qed auto

lemma finish_bare:
  "state pr = s \<Longrightarrow> http_errno pr = HPE_OK \<Longrightarrow>
    exec_run st buf False (bare pr w (length buf) s b) = Some (Returned (length buf) pr w)"
  by (subst exec_run_end)
    (simp_all add: exec_finish_def marks_left_def callback_header_field_def callback_header_value_def
      callback_url_def callback_body_def callback_status_def do_return_def flow_result_def)

lemma print_message_nonempty [simp]: "print_message msg \<noteq> []"
proof -
  have "\<exists>s hs q. msg = (s, hs, q)"
    by (cases msg) auto
  then show ?thesis
    by (auto simp: print_message_def print_head_def header_line_def)
qed

lemma execute_ready:
  assumes "msgs \<noteq> []" "list_all (message_ok t) msgs" "t \<noteq> HTTP_BOTH"
    and "length (concat (map print_message msgs)) < 2 ^ 64" "ready t pr" "state pr = first_state t"
  shows "\<exists>pr'. http_parser_execute recorder (concat (map print_message msgs)) pr w =
      Some (Returned (length (concat (map print_message msgs))) pr' (w @ concat (map message_events msgs))) \<and>
    ready t pr' \<and> state pr' = first_state t \<and> start_seen (fst (last msgs)) pr'"
proof -
  let ?buf = "concat (map print_message msgs)" and ?b = "lenient_http_headers pr"
  have "init_locals pr w = bare pr w 0 (first_state t) ?b"
    using assms(3,6) by (cases t) (simp_all add: init_locals_def bare_def url_states_def)
  moreover have "?buf \<noteq> []"
    using assms(1) by (cases msgs) simp_all
  moreover obtain pr' where "exec_run recorder ?buf False (bare pr w 0 (first_state t) ?b) =
      exec_run recorder ?buf False
        (bare pr' (w @ concat (map message_events msgs)) (length ?buf) (first_state t) ?b)"
    and pr': "ready t pr'" "state pr' = first_state t" "start_seen (fst (last msgs)) pr'"
    using run_messages [of 0 ?buf msgs "[]" t pr w ?b] assms by auto
  moreover have "exec_run recorder ?buf False
      (bare pr' (w @ concat (map message_events msgs)) (length ?buf) (first_state t) ?b) =
      Some (Returned (length ?buf) pr' (w @ concat (map message_events msgs)))"
    using pr' by (intro finish_bare) (simp_all add: ready_def)
  ultimately show ?thesis
    using assms(5) by (intro exI [of _ pr']) (simp add: http_parser_execute_def ready_def)
qed

lemma ready_init: "t \<noteq> HTTP_BOTH \<Longrightarrow> ready t (http_parser_init pr t)"
    "t \<noteq> HTTP_BOTH \<Longrightarrow> state (http_parser_init pr t) = first_state t"
  by (cases t; simp add: ready_def http_parser_init_def)+

lemma execute_messages:
  assumes "msgs \<noteq> []" "list_all (message_ok t) msgs" "t \<noteq> HTTP_BOTH"
    and "length (concat (map print_message msgs)) < 2 ^ 64"
  shows "\<exists>pr'. http_parser_execute recorder (concat (map print_message msgs)) (http_parser_init pr t) [] =
      Some (Returned (length (concat (map print_message msgs))) pr' (concat (map message_events msgs))) \<and>
    ready t pr' \<and> state pr' = first_state t \<and> start_seen (fst (last msgs)) pr'"
  using execute_ready [OF assms ready_init(1,2) [OF assms(3)], of pr "[]"] by simp

section \<open>Properties\<close>

text \<open>
  C2: Whatever responses are printed one after the other into a buffer, with plain header fields and
  a body framed by its length or in chunks, one call parses them all: it returns the length of the
  buffer without an error, the callbacks are exactly those of the messages, in order and with
  their bytes, and the parser is back at the start of a response, with the last status code.
\<close>

theorem responses_roundtrip:
  assumes "msgs \<noteq> []" "list_all (message_ok HTTP_RESPONSE) msgs"
    and "length (concat (map print_message msgs)) < 2 ^ 64" "fst (last msgs) = Status code reason"
  shows "\<exists>pr'. http_parser_execute recorder (concat (map print_message msgs))
        (http_parser_init pr HTTP_RESPONSE) [] =
      Some (Returned (length (concat (map print_message msgs))) pr' (concat (map message_events msgs))) \<and>
    http_errno pr' = HPE_OK \<and> state pr' = s_start_res \<and> unat (status_code pr') = code"
proof -
  have "message_ok HTTP_RESPONSE (last msgs)"
    using assms(1,2) by (simp add: list_all_iff)
  then have "unat (of_nat code :: 16 word) = code"
    using assms(4) by (cases "last msgs") (simp add: message_ok_def unat_of_nat)
  then show ?thesis
    using execute_messages [OF assms(1,2) _ assms(3), of pr] assms(4) by (auto simp: ready_def)
qed

definition example_responses :: "message list" where
  "example_responses =
    [(Status 200 ''OK'', [(''Server'', ''x y'')], Sized ''hello''),
     (Status 404 [], [], Chunks [''ab'', ''c''])]"

lemma example_responses_ok:
  "example_responses \<noteq> []" "list_all (message_ok HTTP_RESPONSE) example_responses"
  "length (concat (map print_message example_responses)) < 2 ^ 64"
  "fst (last example_responses) = Status 404 []"
proof -
  have dec: "decimal 200 = ''200''" "decimal 404 = ''404''" "decimal 5 = ''5''"
    "hexadecimal 2 = ''2''" "hexadecimal (Suc 0) = ''1''"
    by (simp_all add: decimal.simps [of 200] decimal.simps [of 404] decimal.simps [of 40]
        decimal.simps [of 20] decimal.simps [of 5] decimal.simps [of 2] decimal.simps [of 4]
        hexadecimal.simps [of 2] hexadecimal.simps [of "Suc 0"] hex_char_def hex_chars_def digit_char_def
        char_of_def bit_0)
  have suc: "decimal (Suc (Suc (Suc (Suc (Suc 0))))) = ''5''" "hexadecimal (Suc (Suc 0)) = ''2''"
    using dec(3,4) by (simp_all add: eval_nat_numeral)
  show "list_all (message_ok HTTP_RESPONSE) example_responses"
    by (simp add: example_responses_def message_ok_def plain_header_def field_name_def TOKEN_def tokens_def
        field_kind_def special_names_def CONNECTION_def PROXY_CONNECTION_def CONTENT_LENGTH_def
        TRANSFER_ENCODING_def UPGRADE_def value_first_def IS_HEADER_CHAR_def good_chunk_def chunk_limit_def
        length_limit_def print_head_def status_line_def header_line_def dec suc HTTP_MAX_HEADER_SIZE_def)
  show "length (concat (map print_message example_responses)) < 2 ^ 64"
    by (simp add: example_responses_def print_message_def print_head_def status_line_def header_line_def
        dec suc chunk_def last_chunk_def)
qed (simp_all add: example_responses_def)

theorem responses_roundtrip_witness:
  "\<exists>pr'. http_parser_execute recorder (concat (map print_message example_responses))
        (http_parser_init zero_parser HTTP_RESPONSE) [] =
      Some (Returned (length (concat (map print_message example_responses))) pr'
        (concat (map message_events example_responses))) \<and>
    http_errno pr' = HPE_OK \<and> state pr' = s_start_res \<and> unat (status_code pr') = 404"
  by (rule responses_roundtrip [OF example_responses_ok])

text \<open>
  C15: The same for requests: any of the 32 methods but CONNECT, a target the URL automaton accepts,
  plain header fields and a framed body.  The parser ends at the start of a request, with the last
  method.
\<close>

theorem requests_roundtrip:
  assumes "msgs \<noteq> []" "list_all (message_ok HTTP_REQUEST) msgs"
    and "length (concat (map print_message msgs)) < 2 ^ 64" "fst (last msgs) = Request m url"
  shows "\<exists>pr'. http_parser_execute recorder (concat (map print_message msgs))
        (http_parser_init pr HTTP_REQUEST) [] =
      Some (Returned (length (concat (map print_message msgs))) pr' (concat (map message_events msgs))) \<and>
    http_errno pr' = HPE_OK \<and> state pr' = s_start_req \<and> parser_method pr' = m"
  using execute_messages [OF assms(1,2) _ assms(3), of pr] assms(4) by (auto simp: ready_def)

definition example_requests :: "message list" where
  "example_requests =
    [(Request HTTP_GET ''/a?b=c'', [(''Host'', ''h'')], No_body),
     (Request HTTP_PROPPATCH ''http://h/'', [], Chunks [''ab''])]"

lemma example_requests_ok:
  "example_requests \<noteq> []" "list_all (message_ok HTTP_REQUEST) example_requests"
  "length (concat (map print_message example_requests)) < 2 ^ 64"
  "fst (last example_requests) = Request HTTP_PROPPATCH ''http://h/''"
proof -
  have dec: "decimal 0 = ''0''" "hexadecimal 2 = ''2''"
    by (simp_all add: decimal.simps [of 0] hexadecimal.simps [of 2] hex_char_def hex_chars_def
        digit_char_def char_of_def bit_0)
  have suc: "hexadecimal (Suc (Suc 0)) = ''2''"
    using dec(2) by (simp add: eval_nat_numeral)
  have urls: "foldl parse_url_char s_req_spaces_before_url ''/a?b=c'' \<in> url_end_states"
    "foldl parse_url_char s_req_spaces_before_url ''http://h/'' \<in> url_end_states"
    by (simp_all add: parse_url_char_def url_server_char_def char_class IS_USERINFO_CHAR_def
        IS_ALPHANUM_def url_end_states_def)
  show "list_all (message_ok HTTP_REQUEST) example_requests"
    using urls
    by (simp add: example_requests_def message_ok_def plain_header_def field_name_def TOKEN_def tokens_def
        field_kind_def special_names_def CONNECTION_def PROXY_CONNECTION_def CONTENT_LENGTH_def
        TRANSFER_ENCODING_def UPGRADE_def value_first_def IS_HEADER_CHAR_def good_chunk_def chunk_limit_def
        length_limit_def print_head_def request_line_def method_string_def method_strings_def
        header_line_def dec suc HTTP_MAX_HEADER_SIZE_def del: foldl_Cons)
  show "length (concat (map print_message example_requests)) < 2 ^ 64"
    by (simp add: example_requests_def print_message_def print_head_def request_line_def header_line_def
        method_string_def method_strings_def dec suc chunk_def last_chunk_def)
qed (simp_all add: example_requests_def)

theorem requests_roundtrip_witness:
  "\<exists>pr'. http_parser_execute recorder (concat (map print_message example_requests))
        (http_parser_init zero_parser HTTP_REQUEST) [] =
      Some (Returned (length (concat (map print_message example_requests))) pr'
        (concat (map message_events example_requests))) \<and>
    http_errno pr' = HPE_OK \<and> state pr' = s_start_req \<and> parser_method pr' = HTTP_PROPPATCH"
  by (rule requests_roundtrip [OF example_requests_ok])
end
