(* ===== verification/Connection_Response.thy ===== *)
theory Connection_Response
  imports Connection_Laws Parser_Messages
begin

text \<open>
  What a connection makes of a response.  Its callbacks and the recorder of the round trips are related:
  whatever the recorder has noted, the stack is the one that the noted callbacks, one after the other, make of
  the stack before.  So the round trip of printed responses becomes one of the result that a request is handed
  back with.
\<close>

section \<open>Callbacks as events\<close>

definition third :: "'a \<times> 'b \<times> 'c \<Rightarrow> 'c" where
  "third x = snd (snd x)"

lemma third_simp [simp]: "third (a, b, c) = c"
  by (simp add: third_def)

primrec apply_event :: "'z zlib \<Rightarrow> event \<Rightarrow> stack \<Rightarrow> stack" where
  "apply_event zl Ev_message_begin s = s"
| "apply_event zl (Ev_url bytes) s = s"
| "apply_event zl (Ev_status bytes) s = s"
| "apply_event zl (Ev_header_field bytes) s = third (cb_on_header_field zero_parser bytes s)"
| "apply_event zl (Ev_header_value bytes) s = third (cb_on_header_value zero_parser bytes s)"
| "apply_event zl (Ev_headers_complete code) s =
    third (cb_on_headers_complete (zero_parser\<lparr>status_code := code\<rparr>) s)"
| "apply_event zl (Ev_body bytes) s = content_on_body bytes s"
| "apply_event zl Ev_message_complete s = third (cb_on_message_complete zl zero_parser s)"
| "apply_event zl (Ev_chunk_header n) s = s"
| "apply_event zl Ev_chunk_complete s = s"

text \<open>Whether the connection can be reused is not in the events, and nothing but \<open>m_not_reusable\<close> keeps it.\<close>

definition tidy :: "stack \<Rightarrow> stack" where
  "tidy s = s\<lparr>m_not_reusable := False\<rparr>"

lemma tidy_apply: "tidy (apply_event zl e (tidy s)) = tidy (apply_event zl e s)"
  by (cases e) (simp_all add: tidy_def callback_defs operation_defs emit_def Let_def split: option.split)

lemma tidy_apply_eq: "tidy v = tidy u \<Longrightarrow> tidy (apply_event zl e v) = tidy (apply_event zl e u)"
  using tidy_apply [of zl e v] tidy_apply [of zl e u] by simp

definition delivers :: "'z zlib \<Rightarrow> stack \<Rightarrow> event list \<Rightarrow> stack \<Rightarrow> bool" where
  "delivers zl s w v \<longleftrightarrow> tidy v = tidy (fold (apply_event zl) w s) \<and> req_method (current_request v) \<noteq> HEAD"

lemma req_method_apply [simp]:
  "req_method (current_request (apply_event zl e s)) = req_method (current_request s)"
  by (cases e) (simp_all add: callback_defs operation_defs upd_request_def append_field_def append_value_def
      push_current_header_def Let_def split: option.split)

lemma delivers_step:
  assumes "delivers zl s w v" "tidy v' = tidy (apply_event zl e v)"
  shows "delivers zl s (w @ [e]) v'"
proof -
  have "req_method (current_request (tidy v')) = req_method (current_request (tidy (apply_event zl e v)))"
    using assms(2) by simp
  then have "req_method (current_request v') = req_method (current_request v)"
    by (simp add: tidy_def)
  then show ?thesis
    using assms tidy_apply_eq [of v "fold (apply_event zl) w s" zl e] by (simp add: delivers_def)
qed

lemma delivers_steps:
  assumes "delivers zl s w v"
  shows "delivers zl s (w @ [Ev_message_begin]) v" "delivers zl s (w @ [Ev_url bytes]) v"
    "delivers zl s (w @ [Ev_status bytes]) v" "delivers zl s (w @ [Ev_chunk_header n]) v"
    "delivers zl s (w @ [Ev_chunk_complete]) v"
    "delivers zl s (w @ [Ev_header_field bytes]) (third (cb_on_header_field pr bytes v))"
    "delivers zl s (w @ [Ev_header_value bytes]) (third (cb_on_header_value pr bytes v))"
    "delivers zl s (w @ [Ev_headers_complete (status_code pr)]) (third (cb_on_headers_complete pr v))"
    "delivers zl s (w @ [Ev_body bytes]) (content_on_body bytes v)"
    "delivers zl s (w @ [Ev_message_complete]) (third (cb_on_message_complete zl pr v))"
  by (rule delivers_step [OF assms], simp add: callback_defs tidy_def operation_defs emit_def split: option.split)+

text \<open>A callback of the recorder and one of the connection, or none.\<close>

lemma jot_rel:
  assumes "\<And>pr v. cb pr v = (0, pr, g pr v)" "\<And>pr w v. R w v \<Longrightarrow> R (w @ [e]) (g pr v)"
  shows "cb_rel R (Some (jot e)) (Some cb)"
  using assms by (simp add: cb_rel_def run_cb_def jot_def)

lemma jot_data_rel:
  assumes "\<And>pr bytes v. cb pr bytes v = (0, pr, g pr bytes v)"
    and "\<And>pr bytes w v. R w v \<Longrightarrow> R (w @ [e bytes]) (g pr bytes v)"
  shows "data_cb_rel R (Some (jot_data e)) (Some cb)"
  using assms by (simp add: data_cb_rel_def run_data_cb_def jot_data_def)

lemma callback_results:
  "cb_on_header_field pr bytes v = (0, pr, third (cb_on_header_field pr bytes v))"
  "cb_on_header_value pr bytes v = (0, pr, third (cb_on_header_value pr bytes v))"
  "cb_on_message_complete zl pr v = (0, pr, third (cb_on_message_complete zl pr v))"
  "req_method (current_request v) \<noteq> HEAD \<Longrightarrow>
    cb_on_headers_complete pr v = (0, pr, third (cb_on_headers_complete pr v))"
  by (simp_all add: callback_defs operation_defs push_current_header_def)

interpretation delivery: similar_clients recorder "client_callbacks zl" "delivers zl s" for zl s
proof unfold_locales
  note steps = delivers_steps [of zl s]
  show "cb_rel (delivers zl s) (on_message_complete recorder) (on_message_complete (client_callbacks zl))"
    unfolding recorder_sel client_sel by (rule jot_rel, rule callback_results(3), erule steps(10))
  show "data_cb_rel (delivers zl s) (on_header_field recorder) (on_header_field (client_callbacks zl))"
    unfolding recorder_sel client_sel by (rule jot_data_rel, rule callback_results(1), erule steps(6))
  show "data_cb_rel (delivers zl s) (on_header_value recorder) (on_header_value (client_callbacks zl))"
    unfolding recorder_sel client_sel by (rule jot_data_rel, rule callback_results(2), erule steps(7))
  show "data_cb_rel (delivers zl s) (on_body recorder) (on_body (client_callbacks zl))"
    unfolding recorder_sel client_sel by (rule jot_data_rel, rule cb_on_body_def, erule steps(9))
  show "data_cb_rel (delivers zl s) (on_status recorder) (on_status (client_callbacks zl))"
    unfolding recorder_sel client_sel by (rule jot_data_rel, rule cb_on_status_def, erule steps(3))
  show "stateless_cb_rel (delivers zl s) (on_headers_complete recorder) (on_headers_complete (client_callbacks zl))"
    unfolding recorder_sel client_sel stateless_cb_rel_def run_cb_def option.case
  proof (intro allI impI)
    fix pr x w v assume R: "delivers zl s w v"
    then have "req_method (current_request v) \<noteq> HEAD"
      by (simp add: delivers_def)
    moreover have "third (cb_on_headers_complete (pr\<lparr>state := x\<rparr>) v) = third (cb_on_headers_complete pr v)"
      by (simp add: callback_defs)
    ultimately show "\<exists>r pr' w' v'. (0, pr, w @ [Ev_headers_complete (status_code pr)]) = (r, pr', w') \<and>
        cb_on_headers_complete (pr\<lparr>state := x\<rparr>) v = (r, pr'\<lparr>state := x\<rparr>, v') \<and> delivers zl s w' v'"
      using callback_results(4) [of v "pr\<lparr>state := x\<rparr>"] steps(8) [OF R, of pr] by auto
  qed
qed (simp_all add: cb_rel_def data_cb_rel_def run_cb_def run_data_cb_def jot_def jot_data_def delivers_steps)

section \<open>A response in events\<close>

text \<open>The headers as the connection keeps them, and the one it has not stored yet.\<close>

definition trimmed :: "char list \<times> char list \<Rightarrow> char list \<times> char list" where
  "trimmed h = (fst h, trim_right (snd h))"

definition collected :: "request_buffers \<Rightarrow> headers" where
  "collected b = recv_headers b @
    (if current_header b = ([], []) then [] else [trimmed (current_header b)])"

definition settled :: "request_buffers \<Rightarrow> bool" where
  "settled b \<longleftrightarrow> current_header b = ([], []) \<or> fst (current_header b) \<noteq> [] \<and> snd (current_header b) \<noteq> []"

definition real_header :: "char list \<times> char list \<Rightarrow> bool" where
  "real_header h \<longleftrightarrow> fst h \<noteq> [] \<and> snd h \<noteq> []"

lemma apply_field:
  assumes "settled (current_request s)"
  shows "apply_event zl (Ev_header_field name) s = s\<lparr>current_request := (current_request s)
    \<lparr>recv_headers := collected (current_request s), current_header := (name, [])\<rparr>\<rparr>"
proof (cases s)
  case (fields rq cb res snk src hp b)
  show ?thesis
    using assms unfolding fields
    by (cases b) (auto simp: callback_defs upd_request_def append_field_def push_current_header_def
        collected_def settled_def trimmed_def)
qed

lemma apply_value:
  assumes "current_header (current_request s) = (name, [])" "val \<noteq> []"
  shows "apply_event zl (Ev_header_value val) s =
    s\<lparr>current_request := (current_request s)\<lparr>current_header := (name, val)\<rparr>\<rparr>"
  using assms by (simp add: callback_defs upd_request_def append_value_def)

lemma apply_header:
  assumes "real_header h" "settled (current_request s)"
  shows "\<exists>b. fold (apply_event zl) (header_events h) s = s\<lparr>current_request := b\<rparr> \<and> settled b \<and>
    collected b = collected (current_request s) @ [trimmed h] \<and> req_method b = req_method (current_request s)"
  using assms
  by (intro exI [of _ "(current_request s)\<lparr>recv_headers := collected (current_request s), current_header := h\<rparr>"])
    (cases h; simp add: header_events_def apply_field apply_value real_header_def settled_def collected_def
      del: apply_event.simps)

lemma apply_headers:
  assumes "list_all real_header hs" "settled (current_request s)"
  shows "\<exists>b. fold (apply_event zl) (concat (map header_events hs)) s = s\<lparr>current_request := b\<rparr> \<and> settled b \<and>
    collected b = collected (current_request s) @ map trimmed hs \<and> req_method b = req_method (current_request s)"
  using assms
proof (induction hs arbitrary: s)
  case Nil
  show ?case
    using Nil by (intro exI [of _ "current_request s"]) simp
next
  case (Cons h hs)
  obtain b where b: "fold (apply_event zl) (header_events h) s = s\<lparr>current_request := b\<rparr>" "settled b"
      "collected b = collected (current_request s) @ [trimmed h]" "req_method b = req_method (current_request s)"
    using apply_header [of h s zl] Cons.prems by auto
  then show ?case
    using Cons.IH [of "s\<lparr>current_request := b\<rparr>"] Cons.prems(1) by (fastforce simp: fold_append)
qed

lemma apply_headers_complete:
  assumes "settled (current_request s)"
  shows "apply_event zl (Ev_headers_complete code) s =
    on_headers (unat code) (collected (current_request s))
      (s\<lparr>current_request := (current_request s)
          \<lparr>recv_headers := collected (current_request s), current_header := ([], [])\<rparr>\<rparr>)"
proof (cases s)
  case (fields rq cb res snk src hp b)
  show ?thesis
    using assms unfolding fields
    by (cases b) (auto simp: callback_defs settled_def collected_def upd_request_def push_current_header_def
        trimmed_def)
qed

text \<open>The blocks of a body.\<close>

primrec body_blocks :: "payload \<Rightarrow> char list list" where
  "body_blocks No_body = []"
| "body_blocks (Sized body) = (if body = [] then [] else [body])"
| "body_blocks (Chunks cs) = cs"

lemma apply_chunks:
  "fold (apply_event zl) (concat (map chunk_events cs)) s = s\<lparr>body_sink := write_all cs (body_sink s)\<rparr>"
  by (induction cs arbitrary: s) (simp_all add: chunk_events_def content_on_body_def write_all_def)

lemma apply_body:
  "fold (apply_event zl) (body_events q) s = s\<lparr>body_sink := write_all (body_blocks q) (body_sink s)\<rparr>"
  using apply_chunks [of zl] by (cases q) (simp_all add: content_on_body_def write_all_def)

text \<open>The result a request is handed back with.\<close>

primrec start_status :: "start \<Rightarrow> nat" where
  "start_status (Status code reason) = code"
| "start_status (Request m url) = 0"

primrec payload_bytes :: "payload \<Rightarrow> char list" where
  "payload_bytes No_body = []"
| "payload_bytes (Sized body) = body"
| "payload_bytes (Chunks cs) = concat cs"

definition message_headers :: "message \<Rightarrow> headers" where
  "message_headers msg = (case msg of (st, hs, q) \<Rightarrow> map trimmed (hs @ framing q))"

definition response_body :: "'z zlib \<Rightarrow> message \<Rightarrow> char list option" where
  "response_body zl msg = get_data zl
     ((header_callback (message_headers msg) data_sink_init)\<lparr>sink_bytes := payload_bytes (snd (snd msg))\<rparr>)"

definition response_result :: "'z zlib \<Rightarrow> http_request option \<Rightarrow> message \<Rightarrow> http_result_data" where
  "response_result zl req msg =
    \<lparr>result_request = req, result_headers = message_headers msg, result_status_code = start_status (fst msg),
     result_data = the (response_body zl msg)\<rparr>"

lemma length_concat_le: "x \<in> set xs \<Longrightarrow> length x \<le> length (concat xs)"
  by (induction xs) auto

lemma write_blocks:
  assumes "length (payload_bytes q) < 2 ^ 32"
  shows "write_all (body_blocks q) snk = snk\<lparr>sink_bytes := sink_bytes snk @ payload_bytes q\<rparr>"
proof -
  have "concat (body_blocks q) = payload_bytes q"
    by (cases q) simp_all
  moreover have "list_all (\<lambda>b. length b < 2 ^ 32) (body_blocks q)"
    using assms length_concat_le [of _ "body_blocks q"] calculation by (fastforce simp: list_all_iff)
  ultimately show ?thesis
    using write_all_bytes by simp
qed

text \<open>A stack that waits for the response to its request.\<close>

definition awaiting :: "stack \<Rightarrow> bool" where
  "awaiting s \<longleftrightarrow> has_callback s \<and> m_state (current_request s) \<noteq> state_done \<and>
     current_header (current_request s) = ([], []) \<and> recv_headers (current_request s) = [] \<and>
     req_method (current_request s) \<noteq> HEAD \<and> body_sink s = data_sink_init \<and> \<not> hung s"

lemma message_headers_real:
  assumes "message_ok HTTP_RESPONSE (st, hs, q)"
  shows "list_all real_header (hs @ framing q)"
  using assms
  by (cases q) (auto simp: message_ok_def list_all_iff plain_header_def field_name_def real_header_def)

lemma apply_message:
  assumes "message_ok HTTP_RESPONSE msg" "length (payload_bytes (snd (snd msg))) < 2 ^ 32" "awaiting s"
    and "response_body zl msg = Some body"
  shows "\<exists>b. fold (apply_event zl) (message_events msg) s =
      s\<lparr>current_request := b, has_callback := False, m_result := empty_result,
        body_sink := (header_callback (message_headers msg) data_sink_init)
          \<lparr>sink_bytes := payload_bytes (snd (snd msg))\<rparr>,
        m_not_reusable := m_not_reusable (fold (apply_event zl) (message_events msg) s),
        effects := effects s @ [Timer_cancel, Completed (response_result zl (the_request s) msg) No_error]\<rparr> \<and>
    m_state b = state_done"
proof -
  obtain st hs q where msg: "msg = (st, hs, q)"
    by (cases msg) auto
  obtain code reason where st: "st = Status code reason" "code \<le> 999"
    using assms(1) by (cases st) (simp_all add: msg message_ok_def)
  have code: "unat (start_code st) = start_status st"
    using st by (simp add: unat_of_nat)
  have "settled (current_request s)" "collected (current_request s) = []"
    using assms(3) by (simp_all add: awaiting_def settled_def collected_def)
  then obtain b where b: "fold (apply_event zl) (concat (map header_events (hs @ framing q))) s =
        s\<lparr>current_request := b\<rparr>" "settled b" "collected b = message_headers msg"
    using apply_headers [OF message_headers_real [OF assms(1) [unfolded msg]], of s zl]
    by (auto simp: msg message_headers_def)
  have start: "fold (apply_event zl) (start_events st) t = t" for t
    by (simp add: st)
  let ?b = "b\<lparr>recv_headers := message_headers msg, current_header := ([], [])\<rparr>"
  have "fold (apply_event zl) (message_events msg) s =
      apply_event zl Ev_message_complete (fold (apply_event zl) (body_events q)
        (apply_event zl (Ev_headers_complete (start_code st)) (s\<lparr>current_request := b\<rparr>)))"
    using b(1) by (simp add: msg message_events_def start)
  also have "\<dots> = apply_event zl Ev_message_complete
      (s\<lparr>current_request := ?b, m_result := (m_result s)\<lparr>result_status_code := start_status st,
          result_headers := message_headers msg\<rparr>,
        body_sink := (header_callback (message_headers msg) data_sink_init)\<lparr>sink_bytes := payload_bytes q\<rparr>\<rparr>)"
    using assms(2,3) b(2,3)
    by (simp del: apply_event.simps
        add: apply_body apply_headers_complete write_blocks msg on_headers_def code awaiting_def data_sink_init_def)
  finally have run: "fold (apply_event zl) (message_events msg) s = \<dots>" .
  show ?thesis
    unfolding run using assms(3,4)
    by (intro exI [of _ "?b\<lparr>m_state := state_done\<rparr>"])
      (auto simp: awaiting_def callback_defs operation_defs emit_def msg response_result_def empty_result_def
        response_body_def)
qed

section \<open>Reading a response\<close>

lemma payload_length: "length (payload_bytes q) \<le> length (print_body q)"
proof -
  have "length (concat cs) \<le> length (concat (map chunk cs))" for cs
    by (induction cs) (simp_all add: chunk_def)
  then show ?thesis
    by (cases q) (simp_all add: trans_le_add1)
qed

text \<open>The stack after the response, but for what only the next \<open>start\<close> resets.\<close>

definition answered :: "'z zlib \<Rightarrow> message \<Rightarrow> stack \<Rightarrow> stack \<Rightarrow> bool" where
  "answered zl msg s s' \<longleftrightarrow> \<not> has_callback s' \<and> \<not> hung s' \<and> m_result s' = empty_result \<and> the_request s' = the_request s \<and>
     m_state (current_request s') = state_done \<and> socket_open s' = socket_open s \<and>
     socket_ssl s' = socket_ssl s \<and> effects s' = effects s @ [Timer_cancel, Completed (response_result zl (the_request s) msg) No_error]"

lemma read_response:
  assumes "message_ok HTTP_RESPONSE msg" "length (print_message msg) < 2 ^ 32"
    and "ready HTTP_RESPONSE pr" "state pr = s_start_res" "awaiting s" "response_body zl msg = Some body"
  shows "\<exists>pr' s'. on_read zl (print_message msg) No_error (pr, s) = Some (pr', s') \<and>
    ready HTTP_RESPONSE pr' \<and> state pr' = s_start_res \<and> answered zl msg s s'"
proof -
  let ?buf = "print_message msg"
  obtain pr' where run: "http_parser_execute recorder ?buf pr [] =
      Some (Returned (length ?buf) pr' (message_events msg))"
    and pr': "ready HTTP_RESPONSE pr'" "state pr' = s_start_res"
    using execute_ready [of "[msg]" HTTP_RESPONSE pr "[]"] assms(1-4) by auto
  have "delivers zl s [] s"
    using assms(5) by (simp add: delivers_def awaiting_def)
  then obtain s' where s': "http_parser_execute (client_callbacks zl) ?buf pr s =
      Some (Returned (length ?buf) pr' s')" "delivers zl s (message_events msg) s'"
    using delivery.execute_similar [OF run] by blast
  have "length (payload_bytes (snd (snd msg))) < 2 ^ 32"
    using payload_length [of "snd (snd msg)"] assms(2) by (simp add: print_message_def)
  then obtain b where b: "fold (apply_event zl) (message_events msg) s =
      s\<lparr>current_request := b, has_callback := False, m_result := empty_result,
        body_sink := (header_callback (message_headers msg) data_sink_init)
          \<lparr>sink_bytes := payload_bytes (snd (snd msg))\<rparr>,
        m_not_reusable := m_not_reusable (fold (apply_event zl) (message_events msg) s),
        effects := effects s @ [Timer_cancel, Completed (response_result zl (the_request s) msg) No_error]\<rparr>"
      "m_state b = state_done"
    using apply_message [OF assms(1) _ assms(5,6)] by blast
  have "tidy s' = tidy (fold (apply_event zl) (message_events msg) s)"
    using s'(2) by (simp add: delivers_def)
  then have tidy: "tidy s' = tidy (s\<lparr>current_request := b, has_callback := False, m_result := empty_result,
        body_sink := (header_callback (message_headers msg) data_sink_init)
          \<lparr>sink_bytes := payload_bytes (snd (snd msg))\<rparr>,
        effects := effects s @ [Timer_cancel, Completed (response_result zl (the_request s) msg) No_error]\<rparr>)"
    by (subst (asm) b(1)) (simp add: tidy_def)
  have "answered zl msg s s'"
    using arg_cong [OF tidy, of has_callback] arg_cong [OF tidy, of hung] arg_cong [OF tidy, of m_result] arg_cong [OF tidy, of the_request]
      arg_cong [OF tidy, of "\<lambda>s. m_state (current_request s)"] arg_cong [OF tidy, of socket_open]
      arg_cong [OF tidy, of socket_ssl] arg_cong [OF tidy, of effects] b(2) assms(5)
    by (simp add: answered_def tidy_def awaiting_def)
  moreover from this have "on_read zl ?buf No_error (pr, s) = Some (pr', s')"
    using s'(1) assms(5) by (simp add: on_read_def awaiting_def answered_def)
  ultimately show ?thesis
    using pr' by blast
qed

text \<open>
  C9: A response that arrives while its request waits for it completes the request: the connection hands
  back the request, the status code, every header with its value trimmed, the framing header among
  them, and the body, put together again from its chunks and as its \<open>Content-Encoding\<close> asks decompressed;
  without an error, once, and with the timer stopped before.  Its parser is ready for the next response.
  (\<open>body\<close> is what the decompression gives when it returns, as it does on a zlib that behaves as documented.)
\<close>

theorem response_completes_request:
  assumes "message_ok HTTP_RESPONSE (Status code reason, hs, q)"
    and "length (print_message (Status code reason, hs, q)) < 2 ^ 32"
    and "ready HTTP_RESPONSE pr" "state pr = s_start_res" "awaiting s"
    and "get_data zl (write_all (body_blocks q)
      (header_callback (map (\<lambda>(n, v). (n, trim_right v)) (hs @ framing q)) data_sink_init)) = Some body"
  shows "\<exists>pr' s' r. read_handler zl No_error (print_message (Status code reason, hs, q)) (pr, s) = Some (pr', s') \<and>
    effects s' = effects s @ [Timer_cancel, Completed r No_error] \<and> \<not> has_callback s' \<and>
    result_request r = the_request s \<and> result_status_code r = code \<and>
    result_headers r = map (\<lambda>(n, v). (n, trim_right v)) (hs @ framing q) \<and>
    result_data r = body \<and> ready HTTP_RESPONSE pr' \<and> state pr' = s_start_res"
proof -
  let ?msg = "(Status code reason, hs, q)"
  have "length (payload_bytes q) < 2 ^ 32"
    using payload_length [of q] assms(2) by (simp add: print_message_def)
  then have body: "response_body zl ?msg = Some body"
    using assms(6) write_blocks [of q]
    by (simp add: response_body_def message_headers_def trimmed_def [abs_def] case_prod_unfold data_sink_init_def)
  obtain pr' s' where r: "on_read zl (print_message ?msg) No_error (pr, s) = Some (pr', s')"
      "ready HTTP_RESPONSE pr'" "state pr' = s_start_res" "answered zl ?msg s s'"
    using read_response [OF assms(1-5) body] by blast
  then show ?thesis
    by (intro exI [of _ pr'] exI [of _ s'])
      (simp add: read_handler_on_read answered_def response_result_def message_headers_def trimmed_def
        case_prod_unfold body)
qed

definition example_response :: message where
  "example_response = (Status 200 ''OK'', [(''Server'', ''x y'')], Sized ''hello'')"

lemma example_response_ok:
  "message_ok HTTP_RESPONSE example_response" "length (print_message example_response) < 2 ^ 32"
proof -
  show ok: "message_ok HTTP_RESPONSE example_response"
    using example_responses_ok(2) by (simp add: example_responses_def example_response_def)
  then have "length (print_head example_response) + 2 \<le> HTTP_MAX_HEADER_SIZE"
    by (simp add: message_ok_def example_response_def)
  then show "length (print_message example_response) < 2 ^ 32"
    by (simp add: print_message_def HTTP_MAX_HEADER_SIZE_def) (simp add: example_response_def)
qed

lemma example_awaiting: "awaiting example_started"
  by (simp add: awaiting_def example_started_simps)

lemma example_parser:
  "ready HTTP_RESPONSE (fst example_conn)" "state (fst example_conn) = s_start_res"
  using ready_init [of HTTP_RESPONSE zero_parser] by (simp_all add: example_conn_def)

lemma example_body:
  "get_data zl (write_all (body_blocks (Sized ''hello''))
    (header_callback (map (\<lambda>(n, v). (n, trim_right v)) ([(''Server'', ''x y'')] @ framing (Sized ''hello''))) data_sink_init)) =
      Some ''hello''"
  by (simp add: header_callback_def iequals_def ascii_tolower_def get_data_def data_sink_init_def write_all_def
      write_callback_def)

theorem response_completes_request_witness:
  "\<exists>pr' s' r. read_handler stored_zlib No_error
      (print_message (Status 200 ''OK'', [(''Server'', ''x y'')], Sized ''hello'')) (fst example_conn, example_started) =
        Some (pr', s') \<and>
    effects s' = effects example_started @ [Timer_cancel, Completed r No_error] \<and> \<not> has_callback s' \<and>
    result_request r = the_request example_started \<and> result_status_code r = 200 \<and>
    result_headers r = map (\<lambda>(n, v). (n, trim_right v)) ([(''Server'', ''x y'')] @ framing (Sized ''hello'')) \<and>
    result_data r = ''hello'' \<and> ready HTTP_RESPONSE pr' \<and> state pr' = s_start_res"
  by (rule response_completes_request [OF example_response_ok [unfolded example_response_def] example_parser
        example_awaiting example_body])

end
