(* ===== verification/Connection_Exchange.thy ===== *)
theory Connection_Exchange
  imports Connection_Response Network_Operations
begin

text \<open>
  Whole exchanges over one connection: the request as it goes out, in the blocks the connection writes it in, and
  request after request with its response.
\<close>

section \<open>A request in print\<close>

primrec parser_method_of :: "client_method \<Rightarrow> http_method" where
  "parser_method_of GET = HTTP_GET"
| "parser_method_of POST = HTTP_POST"
| "parser_method_of PUT = HTTP_PUT"
| "parser_method_of HEAD = HTTP_HEAD"

text \<open>The message a request is, with the body its data source gives.\<close>

definition request_message :: "http_request \<Rightarrow> data_source \<Rightarrow> message" where
  "request_message req src =
    (Request (parser_method_of (m_http_method req)) (path (m_url req)),
     m_http_headers req @ [(''Host'', host (m_url req))],
     if source_bytes src = [] then No_body else Sized (source_bytes src))"

lemma method_to_string: "http_method_to_string m = method_string (parser_method_of m)"
  by (cases m) (simp_all add: method_string_def method_strings_def)

lemma print_request_message:
  assumes "get_size src = length (source_bytes src)" "request_headers b = content_headers req src"
    and "req_method b = m_http_method req" "req_url b = m_url req"
  shows "print_request_headers b @ source_bytes src = print_message (request_message req src)"
proof -
  have "(\<lambda>(n, v). n @ '': '' @ v @ [CR, LF]) = header_line"
    by (auto simp: header_line_def)
  then show ?thesis
    using assms
    by (simp add: print_request_headers_def print_message_def print_head_def request_message_def
        content_headers_def request_line_def method_to_string)
qed

section \<open>Writing it\<close>

definition written :: "stack \<Rightarrow> char list" where
  "written s = concat (map (\<lambda>e. case e of Async_write bytes \<Rightarrow> bytes | _ \<Rightarrow> []) (effects s))"

lemma on_write_block:
  assumes "read_callback 1024 (body_source s) = (out, src)"
  shows "on_write zl No_error s =
    (if out = [] then emit Async_read else emit (Async_write out)) (s\<lparr>body_source := src\<rparr>)"
  using assms by (simp add: on_write_def get_body_data_def socket_read_def socket_write_def)

text \<open>The block that was written before is \<open>bytes\<close>; at the end the response is asked for.\<close>

lemma write_blocks_run:
  assumes "\<not> hung s"
  shows "\<exists>src'. served_run zl (replicate (Suc (length (source_blocks 1024 src))) (Written No_error))
      ([Async_write bytes], pr, s\<lparr>body_source := src\<rparr>) =
    Some ([Async_read], pr, s\<lparr>body_source := src',
      effects := effects s @ map Async_write (source_blocks 1024 src) @ [Async_read]\<rparr>)"
  using assms
proof (induction "1024 :: nat" src arbitrary: s bytes rule: source_blocks.induct)
  case (1 src)
  obtain out src1 where r: "read_callback 1024 src = (out, src1)"
    by fastforce
  let ?s = "s\<lparr>body_source := src\<rparr>"
  let ?next = "if out = [] then Async_read else Async_write out"
  let ?s1 = "(emit ?next s)\<lparr>body_source := src1\<rparr>"
  have w: "on_write zl No_error ?s = ?s1"
    using on_write_block [of ?s out src1 zl] r by (simp add: emit_def)
  have blocks: "source_blocks 1024 src = (if out = [] then [] else out # source_blocks 1024 src1)"
    by (subst source_blocks.simps) (simp add: r)
  have "conn_step zl (Written No_error) (pr, ?s) = Some (pr, ?s1)"
    using w "1.prems" by (simp add: write_handler_def)
  then have "served_step zl (Written No_error) ([Async_write bytes], pr, ?s) = Some (newly_asked ?s ?s1, pr, ?s1)"
    by (rule served_step_one) simp_all
  moreover have "newly_asked ?s ?s1 = [?next]"
    by (simp add: newly_asked_def)
  ultimately have step: "served_step zl (Written No_error) ([Async_write bytes], pr, ?s) = Some ([?next], pr, ?s1)"
    by simp
  show ?case
  proof (cases "out = []")
    case True
    then show ?thesis
      using step by (intro exI [of _ src1]) (simp add: blocks emit_def)
  next
    case False
    obtain src' where "served_run zl (replicate (Suc (length (source_blocks 1024 src1))) (Written No_error))
        ([Async_write out], pr, (emit (Async_write out) s)\<lparr>body_source := src1\<rparr>) =
      Some ([Async_read], pr, (emit (Async_write out) s)\<lparr>body_source := src',
        effects := effects (emit (Async_write out) s) @ map Async_write (source_blocks 1024 src1) @ [Async_read]\<rparr>)"
      using 1(1) [OF r [symmetric] False, of "emit (Async_write out) s" out] "1.prems" by auto
    then show ?thesis
      using False step by (intro exI [of _ src']) (simp add: blocks emit_def)
  qed
qed

lemma written_emit [simp]:
  "written (emit e s) = written s @ (case e of Async_write bytes \<Rightarrow> bytes | _ \<Rightarrow> [])"
  by (simp add: written_def)

lemma written_upd [simp]:
  "written (s\<lparr>the_request := a\<rparr>) = written s" "written (s\<lparr>has_callback := b\<rparr>) = written s"
  "written (s\<lparr>body_sink := d\<rparr>) = written s" "written (s\<lparr>body_source := e\<rparr>) = written s"
  "written (s\<lparr>current_request := g\<rparr>) = written s" "written (s\<lparr>socket_open := i\<rparr>) = written s"
  "written (s\<lparr>endpoints := j\<rparr>) = written s"
  by (simp_all add: written_def)

section \<open>Exchanges\<close>

text \<open>
  The events of one exchange: the start, a connection to the endpoint \<open>ep\<close> if there is none yet, the
  writes of the headers and of every block of the body, and the response.
\<close>

definition connecting :: "bool \<Rightarrow> bool \<Rightarrow> nat \<Rightarrow> conn_event list" where
  "connecting opened ssl ep = (if opened then []
     else [Resolved No_error [ep], Connected No_error] @ (if ssl then [Handshaken No_error] else []))"

definition request_source :: "'z zlib \<Rightarrow> http_request \<Rightarrow> data_source" where
  "request_source zl req = the (data_source_init zl (m_post_data req) (m_compression_policy req))"

definition exchange_events :: "'z zlib \<Rightarrow> bool \<Rightarrow> bool \<Rightarrow> nat \<Rightarrow> http_request \<times> message \<Rightarrow> conn_event list" where
  "exchange_events zl opened ssl ep x =
    Start (fst x) # connecting opened ssl ep @
    replicate (Suc (length (source_blocks 1024 (request_source zl (fst x))))) (Written No_error) @
    [Received No_error (print_message (snd x))]"

primrec session_events :: "'z zlib \<Rightarrow> bool \<Rightarrow> bool \<Rightarrow> nat \<Rightarrow> (http_request \<times> message) list \<Rightarrow> conn_event list" where
  "session_events zl opened ssl ep [] = []"
| "session_events zl opened ssl ep (x # xs) =
    exchange_events zl opened ssl ep x @ session_events zl True ssl ep xs"

definition exchange_ok :: "'z zlib \<Rightarrow> http_request \<times> message \<Rightarrow> bool" where
  "exchange_ok zl x \<longleftrightarrow> data_source_init zl (m_post_data (fst x)) (m_compression_policy (fst x)) \<noteq> None \<and>
     m_http_method (fst x) \<noteq> HEAD \<and> message_ok HTTP_RESPONSE (snd x) \<and>
     length (print_message (snd x)) \<le> read_buffer_size \<and> response_body zl (snd x) \<noteq> None"

lemma start_run:
  assumes "data_source_init zl (m_post_data req) (m_compression_policy req) = Some src" "m_http_method req \<noteq> HEAD"
    and "\<not> hung s"
  shows "\<exists>s1 bytes. served_run zl (Start req # connecting (socket_open s) (socket_ssl s) ep) ([], pr, s) =
      Some ([Async_write bytes], pr, s1\<lparr>body_source := src\<rparr>) \<and> awaiting s1 \<and> the_request s1 = Some req \<and>
    socket_open s1 \<and> socket_ssl s1 = socket_ssl s \<and> completions s1 = completions s \<and>
    written s1 @ source_bytes src = written s @ print_message (request_message req src)"
proof -
  let ?b = "\<lparr>req_method = m_http_method req, request_headers = content_headers req src, recv_headers = [],
    req_url = m_url req, current_header = ([], []), m_state = state_in_progress\<rparr>"
  let ?t = "emit (Timer_wait (m_timeout_msec req)) (s\<lparr>the_request := Some req, body_source := src,
    body_sink := data_sink_init, has_callback := True\<rparr>)"
  let ?u = "?t\<lparr>current_request := ?b\<rparr>"
  let ?s1 = "emit (Async_write (print_request_headers ?b))
    (if socket_open s then ?u else
      (if socket_ssl s then emit Async_handshake else id)
        (emit (Async_connect ep) ((emit (Async_resolve (host (m_url req)) (decimal (unat (port (m_url req))))) ?u)
          \<lparr>endpoints := [], socket_open := True\<rparr>)))"
  have run: "served_run zl (Start req # connecting (socket_open s) (socket_ssl s) ep) ([], pr, s) =
      Some ([Async_write (print_request_headers ?b)], pr, ?s1)"
    using assms(1,3)
    by (simp add: served_step_def take_operation_def extract_Cons_code newly_asked_def connecting_def
        content_start_def Let_def write_headers_def send_headers_def socket_write_def
        socket_connect_def resolve_handler_def next_endpoint_def connect_handler_defs on_connected_def
        handshake_handler_def returned_def emit_def)
  have src: "get_size src = length (source_bytes src)"
    using assms(1) by (auto simp: data_source_init_def get_size_def)
  have "written ?s1 @ source_bytes src = written s @ print_message (request_message req src)"
    using print_request_message [OF src, of ?b req] by simp
  moreover have "?s1 = ?s1\<lparr>body_source := src\<rparr>"
    by (simp add: emit_def)
  ultimately show ?thesis
    using run assms(2,3) by (intro exI [of _ ?s1] exI [of _ "print_request_headers ?b"]) (simp add: awaiting_def)
qed

lemma written_effects: "written (s\<lparr>effects := es\<rparr>) =
    concat (map (\<lambda>e. case e of Async_write bytes \<Rightarrow> bytes | _ \<Rightarrow> []) es)"
  by (simp add: written_def)

lemma completions_effects: "completions (s\<lparr>effects := es\<rparr>) =
    concat (map (\<lambda>e. case e of Completed r ec \<Rightarrow> [(r, ec)] | _ \<Rightarrow> []) es)"
  by (simp add: completions_def)

lemma no_completions: "concat (map ((\<lambda>e. case e of Completed r ec \<Rightarrow> [(r, ec)] | _ \<Rightarrow> []) \<circ> Async_write) bs) = []"
  by (induction bs) simp_all

lemma all_written:
  "concat (map ((\<lambda>e. case e of Async_write bytes \<Rightarrow> bytes | _ \<Rightarrow> []) \<circ> Async_write) bs) = concat bs"
  by (induction bs) simp_all

text \<open>A connection between two exchanges.\<close>

definition idle :: "http_parser \<times> stack \<Rightarrow> bool" where
  "idle c \<longleftrightarrow> \<not> has_callback (snd c) \<and> \<not> hung (snd c) \<and> ready HTTP_RESPONSE (fst c) \<and> state (fst c) = s_start_res"

definition request_text :: "'z zlib \<Rightarrow> http_request \<Rightarrow> char list" where
  "request_text zl req = print_message (request_message req (request_source zl req))"

lemma source_init: "data_source_init zl bytes policy = Some src \<Longrightarrow> source_good src \<and> source_pos src = 0"
  by (auto simp: data_source_init_def)

lemma read_served:
  assumes "message_ok HTTP_RESPONSE msg" "length (print_message msg) \<le> read_buffer_size" "response_body zl msg = Some body"
    and "ready HTTP_RESPONSE pr" "state pr = s_start_res" "awaiting s"
  shows "\<exists>pr' s'. served_step zl (Received No_error (print_message msg)) ([Async_read], pr, s) = Some ([], pr', s') \<and>
    ready HTTP_RESPONSE pr' \<and> state pr' = s_start_res \<and> answered zl msg s s'"
proof -
  have "length (print_message msg) < 2 ^ 32"
    using assms(2) by (simp add: read_buffer_size_def)
  then obtain pr' s' where read: "on_read zl (print_message msg) No_error (pr, s) = Some (pr', s')"
      "ready HTTP_RESPONSE pr'" "state pr' = s_start_res" "answered zl msg s s'"
    using read_response [OF assms(1) _ assms(4-6,3)] by blast
  then have "conn_step zl (Received No_error (print_message msg)) (pr, s) = Some (pr', s')"
    by (simp add: read_handler_on_read answered_def)
  then have "served_step zl (Received No_error (print_message msg)) ([Async_read], pr, s) = Some (newly_asked s s', pr', s')"
    by (rule served_step_one) (use assms(2) in simp_all)
  moreover have "newly_asked s s' = []"
    using read(4) by (simp add: newly_asked_def answered_def)
  ultimately show ?thesis
    using read(2-4) by auto
qed

lemma exchange_run:
  assumes "exchange_ok zl x" "idle (pr, s)"
  shows "\<exists>pr' s'. served_run zl (exchange_events zl (socket_open s) (socket_ssl s) ep x) ([], pr, s) =
      Some ([], pr', s') \<and>
    idle (pr', s') \<and> socket_open s' \<and> socket_ssl s' = socket_ssl s \<and>
    completions s' = completions s @ [(response_result zl (Some (fst x)) (snd x), No_error)] \<and>
    written s' = written s @ request_text zl (fst x)"
proof -
  obtain req msg where x: "x = (req, msg)"
    by (cases x)
  let ?src = "request_source zl req" and ?text = "print_message msg"
  obtain body where src: "data_source_init zl (m_post_data req) (m_compression_policy req) = Some ?src"
    and ok: "m_http_method req \<noteq> HEAD" "message_ok HTTP_RESPONSE msg" "length ?text \<le> read_buffer_size"
      "response_body zl msg = Some body"
    using assms(1) by (auto simp: exchange_ok_def x request_source_def)
  have unhung: "\<not> hung s"
    using assms(2) by (simp add: idle_def)
  obtain s1 bytes where start: "served_run zl (Start req # connecting (socket_open s) (socket_ssl s) ep) ([], pr, s) =
        Some ([Async_write bytes], pr, s1\<lparr>body_source := ?src\<rparr>)"
    and s1: "awaiting s1" "the_request s1 = Some req" "socket_open s1" "socket_ssl s1 = socket_ssl s"
      "completions s1 = completions s" "written s1 @ source_bytes ?src = written s @ request_text zl req"
    using start_run [OF src ok(1) unhung, of ep pr] by (auto simp: request_text_def)
  let ?blocks = "source_blocks 1024 ?src"
  have "\<not> hung s1"
    using s1(1) by (simp add: awaiting_def)
  then obtain src' where sent: "served_run zl (replicate (Suc (length ?blocks)) (Written No_error))
      ([Async_write bytes], pr, s1\<lparr>body_source := ?src\<rparr>) =
    Some ([Async_read], pr, s1\<lparr>body_source := src', effects := effects s1 @ map Async_write ?blocks @ [Async_read]\<rparr>)"
    using write_blocks_run [of s1 zl ?src bytes pr] by blast
  let ?s2 = "s1\<lparr>body_source := src', effects := effects s1 @ map Async_write ?blocks @ [Async_read]\<rparr>"
  have s2: "awaiting ?s2"
    using s1(1) by (simp add: awaiting_def)
  obtain pr' s' where read: "served_step zl (Received No_error ?text) ([Async_read], pr, ?s2) = Some ([], pr', s')"
      "ready HTTP_RESPONSE pr'" "state pr' = s_start_res" "answered zl msg ?s2 s'"
    using read_served [OF ok(2-4) _ _ s2, of pr] assms(2) by (auto simp: idle_def)
  then have "served_run zl (exchange_events zl (socket_open s) (socket_ssl s) ep x) ([], pr, s) =
      Some ([], pr', s')"
    using served_run_append [OF start] served_run_append [OF sent] by (simp add: exchange_events_def x)
  moreover have "concat ?blocks = source_bytes ?src"
    using source_blocks_content [of 1024 ?src] source_init [OF src] by simp
  moreover have "completions s' = completions ?s2 @ [(response_result zl (Some req) msg, No_error)]"
      "written s' = written ?s2"
    using read(4) s1(2) by (simp_all add: completions_def written_def answered_def)
  moreover have "completions ?s2 = completions s1" "written ?s2 = written s1 @ concat ?blocks"
    by (simp_all add: completions_effects written_effects no_completions all_written)
      (simp_all add: completions_def written_def)
  ultimately show ?thesis
    using read(2-4) s1 by (auto simp: idle_def x answered_def)
qed

lemma session_run:
  assumes "list_all (exchange_ok zl) xs" "idle (pr, s)"
  shows "\<exists>pr' s'. served_run zl (session_events zl (socket_open s) (socket_ssl s) ep xs) ([], pr, s) =
      Some ([], pr', s') \<and> idle (pr', s') \<and>
    completions s' = completions s @ map (\<lambda>x. (response_result zl (Some (fst x)) (snd x), No_error)) xs \<and>
    written s' = written s @ concat (map (\<lambda>x. request_text zl (fst x)) xs)"
  using assms
proof (induction xs arbitrary: pr s)
  case (Cons x xs)
  obtain pr1 s1 where run1: "served_run zl (exchange_events zl (socket_open s) (socket_ssl s) ep x) ([], pr, s) =
        Some ([], pr1, s1)"
    and s1: "idle (pr1, s1)" "socket_open s1" "socket_ssl s1 = socket_ssl s"
      "completions s1 = completions s @ [(response_result zl (Some (fst x)) (snd x), No_error)]"
      "written s1 = written s @ request_text zl (fst x)"
    using exchange_run [of zl x pr s ep] Cons.prems by auto
  obtain pr' s' where "served_run zl (session_events zl True (socket_ssl s) ep xs) ([], pr1, s1) = Some ([], pr', s')"
      "idle (pr', s')"
      "completions s' = completions s1 @ map (\<lambda>x. (response_result zl (Some (fst x)) (snd x), No_error)) xs"
      "written s' = written s1 @ concat (map (\<lambda>x. request_text zl (fst x)) xs)"
    using Cons.IH [OF _ s1(1)] Cons.prems(1) s1(2,3) by auto
  then show ?case
    using served_run_append [OF run1] s1(4,5) by auto
qed simp

lemma fresh_idle: "fresh_conn (pr, s) \<Longrightarrow> idle (pr, s) \<and> completions s = [] \<and> written s = []"
  using ready_init [of HTTP_RESPONSE zero_parser]
  by (simp add: fresh_conn_def idle_def completions_def written_def)

text \<open>
  C10: Over one connection, made when the first request needs it and kept, any number of requests are served one
  after the other.  In a run in which the network answers each operation the connection starts, and no other, each
  request is handed back, in order, with its own response; nothing is asked of the network that it has not
  answered; and what the connection writes is the requests in print, in order, byte for byte: method, path,
  the headers given, \<open>Host\<close>, \<open>Content-Length\<close> when there is a body, and the body in blocks of at most 1024 bytes.
  This is for any method but \<open>HEAD\<close> and printed responses of any status that fit the read buffer and whose body can
  be decompressed.
\<close>

theorem exchanges_in_order:
  assumes "fresh_conn (pr, s)" "list_all (exchange_ok zl) xs"
  shows "\<exists>pr' s'. served_run zl (session_events zl False (socket_ssl s) ep xs) ([], pr, s) = Some ([], pr', s') \<and>
    completions s' = map (\<lambda>(req, msg). (response_result zl (Some req) msg, No_error)) xs \<and>
    written s' = concat (map (\<lambda>(req, msg). print_message (request_message req (request_source zl req))) xs) \<and>
    \<not> has_callback s'"
proof -
  have "\<not> socket_open s"
    using assms(1) by (simp add: fresh_conn_def)
  then show ?thesis
    using session_run [OF assms(2), of pr s ep] fresh_idle [OF assms(1)]
    by (auto simp: idle_def case_prod_unfold request_text_def)
qed

text \<open>
  C14: A server with the same parser understands what a connection writes: given all the bytes of the
  requests of a session, the parser reports exactly the messages that were printed for these requests: the method,
  the path (the query of the URL is not sent), the headers given, \<open>Host\<close>, and the body as the data source
  gives it (compressed when the policy asked for it, and then without a \<open>Content-Encoding\<close>).
  The hypothesis is that each of these messages keeps to the syntax of HTTP, which the client does not
  check.
\<close>

theorem server_understands:
  assumes "fresh_conn (pr, s)" "list_all (exchange_ok zl) xs" "xs \<noteq> []"
    and "list_all (\<lambda>(req, msg). message_ok HTTP_REQUEST (request_message req (request_source zl req))) xs"
    and "length (concat (map (request_text zl \<circ> fst) xs)) < 2 ^ 64"
  shows "\<exists>pr' s' server'. served_run zl (session_events zl False (socket_ssl s) ep xs) ([], pr, s) =
      Some ([], pr', s') \<and>
    http_parser_execute recorder (written s') (http_parser_init server HTTP_REQUEST) [] =
      Some (Returned (length (written s')) server'
        (concat (map (\<lambda>(req, msg). message_events (request_message req (request_source zl req))) xs))) \<and>
    http_errno server' = HPE_OK"
proof -
  let ?msgs = "map (\<lambda>(req, msg). request_message req (request_source zl req)) xs"
  have "\<not> socket_open s"
    using assms(1) by (simp add: fresh_conn_def)
  then obtain pr' s' where run: "served_run zl (session_events zl False (socket_ssl s) ep xs) ([], pr, s) =
      Some ([], pr', s')"
    and w: "written s' = concat (map print_message ?msgs)"
    using session_run [OF assms(2), of pr s ep] fresh_idle [OF assms(1)]
    by (auto simp: request_text_def case_prod_unfold comp_def)
  have "?msgs \<noteq> []" "list_all (message_ok HTTP_REQUEST) ?msgs"
    "length (concat (map print_message ?msgs)) < 2 ^ 64"
    using assms(3-5) by (auto simp: list_all_iff request_text_def case_prod_unfold comp_def)
  then show ?thesis
    using execute_messages [of ?msgs HTTP_REQUEST server] run
    by (fastforce simp: w case_prod_unfold comp_def ready_def)
qed

text \<open>An example: two exchanges, the second over the connection the first one made.\<close>

definition example_session :: "(http_request \<times> message) list" where
  "example_session = [(example_request, example_response),
     (example_request\<lparr>m_http_method := POST, m_post_data := ''abc''\<rparr>, example_response)]"

lemma example_response_body: "response_body zl example_response = Some ''hello''"
  by (simp add: response_body_def message_headers_def example_response_def header_callback_def iequals_def
      ascii_tolower_def get_data_def data_sink_init_def trimmed_def)

lemma example_response_length: "length (print_message example_response) \<le> read_buffer_size"
proof -
  have "decimal 200 = ''200''" "decimal (Suc (Suc (Suc (Suc (Suc 0))))) = ''5''"
    by (simp_all add: decimal.simps [of 200] decimal.simps [of 20] decimal.simps [of 2]
        decimal.simps [of "Suc (Suc (Suc (Suc (Suc 0))))"] digit_char_def char_of_def bit_0)
  then show ?thesis
    by (simp add: example_response_def print_message_def print_head_def status_line_def header_line_def
        read_buffer_size_def)
qed

lemma example_session_ok:
  "fresh_conn (fst example_conn, snd example_conn)" "list_all (exchange_ok stored_zlib) example_session"
  using example_response_ok example_response_length
  by (simp_all add: example_response_body fresh_conn_def example_conn_def new_stack_def example_session_def exchange_ok_def
      data_source_init_def compress_data_source_def example_request_def)

theorem exchanges_in_order_witness:
  "\<exists>pr' s'. served_run stored_zlib (session_events stored_zlib False (socket_ssl (snd example_conn)) 0 example_session)
      ([], fst example_conn, snd example_conn) = Some ([], pr', s') \<and>
    completions s' = map (\<lambda>(req, msg). (response_result stored_zlib (Some req) msg, No_error)) example_session \<and>
    written s' = concat (map (\<lambda>(req, msg). print_message (request_message req (request_source stored_zlib req)))
      example_session) \<and> \<not> has_callback s'"
  by (rule exchanges_in_order [OF example_session_ok])

lemma example_requests_sent:
  "request_message example_request (request_source stored_zlib example_request) =
    (Request HTTP_GET ''/some/path'', [(''Host'', ''any.host.com'')], No_body)"
  "request_message (example_request\<lparr>m_http_method := POST, m_post_data := ''abc''\<rparr>)
      (request_source stored_zlib (example_request\<lparr>m_http_method := POST, m_post_data := ''abc''\<rparr>)) =
    (Request HTTP_POST ''/some/path'', [(''Host'', ''any.host.com'')], Sized ''abc'')"
  by (simp_all add: request_message_def request_source_def data_source_init_def compress_data_source_def
      example_request_def example_page_def)

lemma example_requests_valid:
  "message_ok HTTP_REQUEST (Request HTTP_GET ''/some/path'', [(''Host'', ''any.host.com'')], No_body)"
  "message_ok HTTP_REQUEST (Request HTTP_POST ''/some/path'', [(''Host'', ''any.host.com'')], Sized ''abc'')"
proof -
  have dec: "decimal 3 = ''3''" "decimal (Suc (Suc (Suc 0))) = ''3''"
    by (simp_all add: decimal.simps [of 3] decimal.simps [of "Suc (Suc (Suc 0))"] digit_char_def char_of_def bit_0)
  have "foldl parse_url_char s_req_spaces_before_url ''/some/path'' \<in> url_end_states"
    by (simp add: parse_url_char_def url_server_char_def char_class url_end_states_def)
  then show
    "message_ok HTTP_REQUEST (Request HTTP_GET ''/some/path'', [(''Host'', ''any.host.com'')], No_body)"
    "message_ok HTTP_REQUEST (Request HTTP_POST ''/some/path'', [(''Host'', ''any.host.com'')], Sized ''abc'')"
    by (simp_all add: message_ok_def plain_header_def field_name_def TOKEN_def tokens_def
        field_kind_def special_names_def CONNECTION_def PROXY_CONNECTION_def CONTENT_LENGTH_def
        TRANSFER_ENCODING_def UPGRADE_def value_first_def IS_HEADER_CHAR_def
        length_limit_def print_head_def request_line_def method_string_def method_strings_def
        header_line_def dec HTTP_MAX_HEADER_SIZE_def del: foldl_Cons)
qed

theorem server_understands_witness:
  "\<exists>pr' s' server'. served_run stored_zlib
      (session_events stored_zlib False (socket_ssl (snd example_conn)) 0 example_session)
      ([], fst example_conn, snd example_conn) = Some ([], pr', s') \<and>
    http_parser_execute recorder (written s') (http_parser_init zero_parser HTTP_REQUEST) [] =
      Some (Returned (length (written s')) server'
        (concat (map (\<lambda>(req, msg). message_events (request_message req (request_source stored_zlib req)))
          example_session))) \<and>
    http_errno server' = HPE_OK"
proof (rule server_understands [OF example_session_ok])
  show "example_session \<noteq> []"
    by (simp add: example_session_def)
  show "list_all (\<lambda>(req, msg). message_ok HTTP_REQUEST (request_message req (request_source stored_zlib req)))
      example_session"
    using example_requests_valid by (simp add: example_session_def example_requests_sent)
  have "decimal (Suc (Suc (Suc 0))) = ''3''"
    by (simp add: decimal.simps [of "Suc (Suc (Suc 0))"] digit_char_def char_of_def bit_0)
  then show "length (concat (map (request_text stored_zlib \<circ> fst) example_session)) < 2 ^ 64"
    by (simp add: example_session_def request_text_def example_requests_sent print_message_def print_head_def
        request_line_def header_line_def method_string_def method_strings_def)
qed

end
