(* ===== verification/Client_Exchange.thy ===== *)
theory Client_Exchange
  imports Client_Network Connection_Exchange
begin

text \<open>
  A request from the call of the application to the call of its handler, through every part of the client.
\<close>

section \<open>Runs of one connection inside the client\<close>

lemma served_run_logged:
  "served_run zl evs (ops, c) = Some (ops', c') \<Longrightarrow> list_all event_ok evs \<Longrightarrow>
    prefix (completions (snd c)) (completions (snd c'))"
proof (induction evs arbitrary: ops c)
  case (Cons ev evs)
  then obtain ops1 c1 where c1: "served_step zl ev (ops, c) = Some (ops1, c1)"
      "served_run zl evs (ops1, c1) = Some (ops', c')"
    by (auto split: option.splits)
  have "\<forall>req. ev \<noteq> Start req"
    using Cons.prems(2) by auto
  then have "prefix (completions (snd c)) (completions (snd c1))"
    using logged.step_keeps [of zl ev "fst c" "snd c" "fst c1" "snd c1" "completions (snd c)"]
      served_step_conn [OF c1(1)] by simp
  then show ?case
    using Cons.IH [OF c1(2)] Cons.prems(2) prefix_order.trans by auto
qed simp

lemma reported_trans:
  "prefix (completions s) (completions s') \<Longrightarrow> prefix (completions s') (completions s'') \<Longrightarrow>
    reported h s s' @ reported h s' s'' = reported h s s''"
  by (auto simp: reported_def prefix_def)

lemma handlers_run:
  assumes "client_served zl cast junk settings hs b ops c" "list_all event_ok evs"
    and "served_run zl evs (ops h, conns c h) = Some (ops', x)"
  shows "\<exists>c'. client_served zl cast junk settings hs b (ops(h := ops')) c' \<and> conns c' h = x \<and>
    conn_strand c' = conn_strand c \<and>
    manager c' = fold post_task (reported h (snd (conns c h)) (snd x)) (manager c)"
  using assms
proof (induction evs arbitrary: ops c)
  case Nil
  then have "ops' = ops h" "x = conns c h"
    by simp_all
  then show ?case
    using Nil(1) by (intro exI [of _ c]) (simp add: reported_def)
next
  case (Cons ev evs)
  obtain ops1 y where y: "served_step zl ev (ops h, conns c h) = Some (ops1, y)"
      "served_run zl evs (ops1, y) = Some (ops', x)"
    using Cons.prems(3) by (auto split: option.splits)
  let ?c = "after_handler h y c"
  have reach: "client_served zl cast junk settings hs b (ops(h := ops1)) ?c"
    using client_served.event [OF Cons.prems(1) _ y(1)] Cons.prems(2) by simp
  have "\<exists>c'. client_served zl cast junk settings hs b ((ops(h := ops1))(h := ops')) c' \<and> conns c' h = x \<and>
      conn_strand c' = conn_strand ?c \<and>
      manager c' = fold post_task (reported h (snd (conns ?c h)) (snd x)) (manager ?c)"
    by (rule Cons.IH [OF reach]) (use y(2) Cons.prems(2) in simp_all)
  then obtain c' where c': "client_served zl cast junk settings hs b (ops(h := ops')) c'" "conns c' h = x"
      "conn_strand c' = conn_strand ?c" "manager c' = fold post_task (reported h (snd y) (snd x)) (manager ?c)"
    unfolding fun_upd_upd by auto
  have "prefix (completions (snd (conns c h))) (completions (snd y))"
    using served_run_logged [of zl "[ev]" "ops h" "conns c h" ops1 y] y(1) Cons.prems(2) by simp
  moreover have "prefix (completions (snd y)) (completions (snd x))"
    using served_run_logged [OF y(2)] Cons.prems(2) by simp
  ultimately have all: "reported h (snd (conns c h)) (snd y) @ reported h (snd y) (snd x) =
      reported h (snd (conns c h)) (snd x)"
    by (rule reported_trans)
  have "manager c' = fold post_task (reported h (snd (conns c h)) (snd y) @ reported h (snd y) (snd x)) (manager c)"
    using c'(4) by (simp add: after_handler_def)
  moreover have "conn_strand c' = conn_strand c"
    using c'(3) by (simp add: after_handler_def)
  ultimately show ?case
    using c'(1,2) unfolding all by blast
qed

section \<open>Property\<close>

lemma begin_single: "index_state_begin [r] = Some r" "index_state_begin [] = None"
  by (simp_all add: index_state_begin_def)

text \<open>The first exchange of a connection, its start apart.\<close>

lemma first_exchange:
  assumes "exchange_ok zl (req, msg)" "fresh_conn (pr, s)"
  shows "\<exists>ops1 pr1 s1 pr' s'. served_step zl (Start req) ([], pr, s) = Some (ops1, pr1, s1) \<and>
    served_run zl (connecting False (socket_ssl s) ep @
      replicate (Suc (length (source_blocks 1024 (request_source zl req)))) (Written No_error) @
      [Received No_error (print_message msg)]) (ops1, pr1, s1) = Some ([], pr', s') \<and>
    completions s' = [(response_result zl (Some req) msg, No_error)] \<and> written s' = request_text zl req"
proof -
  note idle = fresh_idle [OF assms(2)]
  have "\<not> socket_open s"
    using assms(2) by (simp add: fresh_conn_def)
  then obtain pr' s' where "served_run zl (exchange_events zl False (socket_ssl s) ep (req, msg)) ([], pr, s) =
        Some ([], pr', s')"
      "completions s' = [(response_result zl (Some req) msg, No_error)]" "written s' = request_text zl req"
    using exchange_run [OF assms(1), of pr s ep] idle by auto
  then show ?thesis
    by (auto simp: exchange_events_def simp del: replicate_Suc split: option.splits)
qed

lemma events_ok:
  "length bytes \<le> read_buffer_size \<Longrightarrow>
    list_all event_ok (connecting opened ssl ep @ replicate n (Written No_error) @ [Received No_error bytes])"
  by (auto simp: connecting_def list_all_iff in_set_replicate)

text \<open>The connection a new client makes for its first request.\<close>

definition first_handle :: "http_request \<Rightarrow> http_stack" where
  "first_handle req = fst (get_connection (m_url req) (m_certificates req) new_connection_pool)"

lemma taken_up:
  assumes "max_parallel_requests settings \<noteq> 0"
  shows "\<exists>c r. client_served zl cast junk settings [handler] False (\<lambda>_. []) c \<and> conns c = new_connection junk \<and>
    conn_strand c = (\<lambda>_. [])(first_handle req := [Start_async req]) \<and> strand (manager c) = [] \<and> invoked (manager c) = [] \<and>
    m_requests (manager c) = [r] \<and> m_connection r = Some (first_handle req) \<and> m_completion_handler r = handler"
proof -
  let ?r = "new_request_data req handler [] 0" and ?c = "new_client junk settings" and ?h = "first_handle req"
  let ?c1 = "?c\<lparr>manager := client_execute_request req handler [] 0 (manager ?c)\<rparr>"
  let ?m = "execute_request ?r (new_request_manager settings)"
  have cap: "0 < unat (max_parallel_requests settings)"
    using assms by (simp add: unat_gt_0)
  obtain pool where get: "get_connection (m_url req) (m_certificates req) new_connection_pool = (?h, pool)"
    by (cases "get_connection (m_url req) (m_certificates req) new_connection_pool") (simp add: first_handle_def)
  have m: "?m = (new_request_manager settings)\<lparr>m_pool := pool,
      m_requests := [?r\<lparr>m_connection := Some ?h, m_request_state := in_progress\<rparr>], calls := [(?h, Start_async req)]\<rparr>"
    using cap get
    by (simp add: execute_request_def execute_waiting_requests_def new_request_manager_def begin_single
        new_request_data_def modify_def)
  have "client_served zl cast junk settings ([] @ [handler]) False (\<lambda>_. []) ?c1"
    by (rule client_served.execute [OF client_served.start]) simp
  then have "client_served zl cast junk settings [handler] (False \<or> (None :: url_error option) \<noteq> None) (\<lambda>_. [])
      (after_task ?m ?c1)"
    by (intro client_served.task [where t = "Execute_request ?r" and ts = "[]"])
      (simp_all add: client_execute_request_def post_task_def new_client_def new_request_manager_def)
  then show ?thesis
    by (intro exI [of _ "after_task ?m ?c1"] exI [of _ "?r\<lparr>m_connection := Some ?h, m_request_state := in_progress\<rparr>"])
      (simp add: m, simp add: after_task_def distribute_def new_client_def new_request_manager_def
        client_execute_request_def post_task_def new_request_data_def fun_eq_iff)
qed

lemma answered_once:
  assumes "client_served zl cast junk settings hs False ops c" "strand (manager c) = [On_request_completed res h No_error]"
    and "m_requests (manager c) = [r]" "m_connection r = Some h" "invoked (manager c) = []"
    and "result_status_code res < 301 \<or> 308 < result_status_code res"
  shows "\<exists>c'. client_served zl cast junk settings hs False ops c' \<and> conns c' = conns c \<and>
    conn_strand c' = conn_strand c \<and> strand (manager c') = [] \<and> m_requests (manager c') = [] \<and>
    invoked (manager c') = [(m_completion_handler r, create_request_result res No_error)]"
proof -
  let ?m = "(manager c)\<lparr>strand := []\<rparr>"
  have pe: "process_errors cast No_error res = Some (Inr (False, None))"
    using assms(6) by (auto simp: process_errors_def)
  obtain m1 where m1: "on_request_completed cast res h No_error ?m = Some (None, m1)"
      "strand m1 = [Execute_waiting_requests]" "m_requests m1 = []"
      "invoked m1 = [(m_completion_handler r, create_request_result res No_error)]" "calls m1 = calls (manager c)"
    using assms(3-5) pe
    by (simp add: on_request_completed_def index_connection_find_def handle_completed_request_def invoke_handler_def
        post_task_def erase_def)
  have reach1: "client_served zl cast junk settings hs False ops (after_task m1 c)"
    using client_served.task [OF assms(1,2), of None m1] m1(1) by simp
  let ?m1 = "(manager (after_task m1 c))\<lparr>strand := []\<rparr>"
  have idle: "execute_waiting_requests ?m1 = ?m1"
    using m1(3) by (simp add: after_task_def execute_waiting_requests_def begin_single)
  have "client_served zl cast junk settings hs False ops (after_task ?m1 (after_task m1 c))"
    using client_served.task [OF reach1, of Execute_waiting_requests "[]" None ?m1] m1(2) idle
    by (simp add: after_task_def)
  then show ?thesis
    using m1 by (intro exI [of _ "after_task ?m1 (after_task m1 c)"]) (simp add: after_task_def distribute_def fun_eq_iff)
qed

lemma answered_run:
  assumes "exchange_ok zl (req, msg)" "max_parallel_requests settings \<noteq> 0"
    and "start_status (fst msg) < 301 \<or> 308 < start_status (fst msg)"
  shows "\<exists>c. client_served zl cast junk settings [handler] False (\<lambda>_. []) c \<and> conn_strand c = (\<lambda>_. []) \<and>
    invoked (manager c) = [(handler, create_request_result (response_result zl (Some req) msg) No_error)] \<and>
    m_requests (manager c) = [] \<and> strand (manager c) = [] \<and>
    written (snd (conns c (first_handle req))) = print_message (request_message req (request_source zl req))"
proof -
  let ?h = "first_handle req" and ?res = "response_result zl (Some req) msg"
  obtain c r where c: "client_served zl cast junk settings [handler] False (\<lambda>_. []) c" "conns c = new_connection junk"
      "conn_strand c = (\<lambda>_. [])(?h := [Start_async req])" "strand (manager c) = []" "invoked (manager c) = []"
      "m_requests (manager c) = [r]" "m_connection r = Some ?h" "m_completion_handler r = handler"
    using taken_up [OF assms(2)] by blast
  obtain pr s where conn: "conns c ?h = (pr, s)"
    by fastforce
  have fresh: "fresh_conn (pr, s)"
    using conn c(2) by (auto simp: new_connection_def fresh_conn_def new_stack_def)
  note idle = fresh_idle [OF this]
  let ?rest = "connecting False (socket_ssl s) 0 @
    replicate (Suc (length (source_blocks 1024 (request_source zl req)))) (Written No_error) @
    [Received No_error (print_message msg)]"
  obtain ops1 pr1 s1 pr' s' where
      s1: "served_step zl (Start req) ([], pr, s) = Some (ops1, pr1, s1)" "served_run zl ?rest (ops1, pr1, s1) = Some ([], pr', s')"
    and s': "completions s' = [(?res, No_error)]" "written s' = request_text zl req"
    using first_exchange [OF assms(1) fresh, of 0] by auto
  let ?c1 = "after_handler ?h (pr1, s1) (c\<lparr>conn_strand := (\<lambda>_. [])\<rparr>)"
  have reach1: "client_served zl cast junk settings [handler] False ((\<lambda>_. [])(?h := ops1)) ?c1"
    using client_served.call [OF c(1), of ?h "Start_async req" "[]" ops1 "(pr1, s1)"] s1(1) conn c(3)
    by (simp add: fun_upd_idem_iff [THEN iffD2])
  have "completions s1 = []"
    using served_start [OF s1(1)] idle by simp
  then have rep: "reported ?h s s1 = []" "reported ?h s1 s' = [On_request_completed ?res ?h No_error]"
    using s' by (simp_all add: reported_def)
  have ok: "list_all event_ok ?rest"
    using assms(1) by (intro events_ok) (simp add: exchange_ok_def)
  have "(\<lambda>_. [])(?h := ops1, ?h := []) = (\<lambda>_. [] :: effect list)"
    by (simp add: fun_eq_iff)
  then obtain c2 where c2: "client_served zl cast junk settings [handler] False (\<lambda>_. []) c2"
      "conns c2 ?h = (pr', s')" "manager c2 = post_task (On_request_completed ?res ?h No_error) (manager c)"
      "conn_strand c2 = (\<lambda>_. [])"
    using handlers_run [OF reach1 ok, of ?h "[]" "(pr', s')"] s1(2) rep conn
    by (auto simp: after_handler_def)
  have "strand (manager c2) = [On_request_completed ?res ?h No_error]" "m_requests (manager c2) = [r]"
      "invoked (manager c2) = []" "result_status_code ?res < 301 \<or> 308 < result_status_code ?res"
    using c2(3) c(4-6) assms(3) by (simp_all add: post_task_def response_result_def)
  then obtain c3 where "client_served zl cast junk settings [handler] False (\<lambda>_. []) c3"
      "conns c3 = conns c2" "conn_strand c3 = conn_strand c2" "strand (manager c3) = []" "m_requests (manager c3) = []"
      "invoked (manager c3) = [(handler, create_request_result ?res No_error)]"
    using answered_once [OF c2(1), of ?res ?h r] c(7,8) by blast
  then show ?thesis
    using c2(2,4) s'(2) by (intro exI [of _ c3]) (simp add: request_text_def)
qed

text \<open>
  C3: A request is answered.  From a new client, on a network that answers what it is asked and nothing else, there is a
  run in which the application's request goes to a new connection, is written as it should be, its response is
  asked for and read, and the application's handler is called, once, with the status, the headers and the
  body of that response; nothing is left over, nor any operation of the network.  This is for every
  request but \<open>HEAD\<close> and every printed response, other than a redirection, that fits the read buffer and whose body
  can be decompressed.
\<close>

theorem client_answers:
  assumes "exchange_ok zl (req, msg)" "max_parallel_requests settings \<noteq> 0"
    and "start_status (fst msg) < 301 \<or> 308 < start_status (fst msg)"
  shows "\<exists>ops c. client_served zl cast junk settings [handler] False ops c \<and>
    invoked (manager c) = [(handler, create_request_result (response_result zl (Some req) msg) No_error)] \<and>
    m_requests (manager c) = [] \<and> strand (manager c) = [] \<and> ops (first_handle req) = [] \<and>
    written (snd (conns c (first_handle req))) = print_message (request_message req (request_source zl req))"
  using answered_run [OF assms, of cast junk handler] by auto

lemma example_exchange_ok: "exchange_ok stored_zlib (example_request, example_response)"
  using example_session_ok(2) by (simp add: example_session_def)

theorem client_answers_witness:
  "\<exists>ops c. client_served stored_zlib example_cast 0 default_settings [7] False ops c \<and>
    invoked (manager c) =
      [(7, create_request_result (response_result stored_zlib (Some example_request) example_response) No_error)] \<and>
    m_requests (manager c) = [] \<and> strand (manager c) = [] \<and> ops (first_handle example_request) = [] \<and>
    written (snd (conns c (first_handle example_request))) =
      print_message (request_message example_request (request_source stored_zlib example_request))"
  by (rule client_answers [OF example_exchange_ok]) (simp_all add: default_settings_def example_response_def)

text \<open>
  C39: No request stays unanswered.  On a network that answers what it is asked and nothing else, whatever is
  cancelled, times out, fails, is retried or is redirected: when nothing is under way any more (no task of
  the manager, no call of a connection and no operation of the network), every request the application has made was
  answered, its handler called once, and none is left in the container.  The hypotheses are that no handler of the
  manager has thrown and that the settings allow a request at all.
\<close>

theorem quiet_client_answered_all:
  assumes "client_served zl cast junk settings hs False ops c" "max_parallel_requests settings \<noteq> 0"
    and "strand (manager c) = []" "conn_strand c = (\<lambda>_. [])" "ops = (\<lambda>_. [])"
  shows "mset (map fst (invoked (manager c))) = mset hs \<and> distinct hs \<and> m_requests (manager c) = []"
proof -
  note reach = client_served_reach [OF assms(1)]
  let ?rs = "m_requests (manager c)"
  have m: "reach_ok settings hs (manager c)"
    using manager_reach_ok [OF client_manager [OF reach]] .
  then have settings: "m_settings (manager c) = settings"
    by (simp add: reach_ok_def)
  have "\<not> has_callback (snd (conns c h))" for h
    using client_served_ok [OF assms(1)] assms(5) by (auto simp: network_ok_def conn_ok_def dest!: spec [of _ h])
  then have none: "holding h ?rs = 0" for h
    using client_reach_ok [OF reach] assms(3,4) by (auto simp: client_ok_def busy_def)
  obtain hs' where hs': "mset hs = mset hs'" "manager_ok hs' 0 (manager c)"
    using m assms(3) by (auto simp: reach_ok_def)
  have waiting: "m_request_state r \<noteq> in_progress" if "r \<in> set ?rs" for r
  proof
    assume "m_request_state r = in_progress"
    moreover have "good_request (m_settings (manager c)) r"
      using hs'(2) that by (auto simp: manager_ok_def list_all_iff)
    ultimately obtain h where "m_connection r = Some h"
      by (auto simp: good_request_def)
    then show False
      using none [of h] that by (auto simp: holding_def filter_empty_conv)
  qed
  then have "index_state_count in_progress ?rs = 0" "pending ?rs = length ?rs"
    by (induction ?rs) (simp_all add: index_state_count_def pending_def filter_empty_conv)
  moreover have "0 < parallel_cap (manager c)"
    using assms(2) settings by (simp add: parallel_cap_def unat_gt_0)
  ultimately have "?rs = []"
    using hs'(2) by (simp add: manager_ok_def scheduled_def)
  then show ?thesis
    using hs' m by (simp add: manager_ok_def reach_ok_def)
qed

theorem quiet_client_answered_all_witness:
  "\<exists>c. client_served stored_zlib example_cast 0 default_settings [7] False (\<lambda>_. []) c \<and>
    strand (manager c) = [] \<and> conn_strand c = (\<lambda>_. []) \<and>
    mset (map fst (invoked (manager c))) = {#7#} \<and> m_requests (manager c) = []"
proof -
  have settings: "max_parallel_requests default_settings \<noteq> 0"
    by (simp add: default_settings_def)
  obtain c where c: "client_served stored_zlib example_cast 0 default_settings [7] False (\<lambda>_. []) c"
      "strand (manager c) = []" "conn_strand c = (\<lambda>_. [])"
    using answered_run [OF example_exchange_ok settings, of example_cast 0 7] by (auto simp: example_response_def)
  then show ?thesis
    using quiet_client_answered_all [OF c(1) settings c(2,3) refl] by auto
qed

end
