(* ===== verification/Tuple_Ptr.thy ===== *)
theory Tuple_Ptr
  imports Prelude
begin

text \<open>
  \<open>tuple_ptr.h\<close>: the shared pointers that keep the layers of a connection alive together.  The objects of a tuple
  share one control block; a pointer to the tuple or to one of its objects counts as an owner of it.

  The heap is explicit.  Every access to a control block looks it up, and \<open>None\<close> is the access to a block
  that was freed, or through a null pointer.  The operations are those of one thread; the counts are
  \<open>long\<close>, as integers, which that many pointers do not overflow.
\<close>

section \<open>Heap\<close>

text \<open>
  Objects and control blocks are numbers.  An object of a class that derives from \<open>shared_tuple_base\<close> is marked;
  \<open>base_cntrl\<close> is the member \<open>cntrl\<close> of that base.  What was destroyed and freed is logged.
\<close>

record control_block =
  shared_owners :: int
  shared_weak_owners :: int
  block_objects :: "(nat \<times> bool) list"

record heap =
  blocks :: "nat \<Rightarrow> control_block option"
  next_block :: nat
  base_cntrl :: "nat \<Rightarrow> nat option"
  destroyed :: "nat list"
  freed :: "nat list"

definition empty_heap :: heap where
  "empty_heap = \<lparr>blocks = (\<lambda>_. None), next_block = 0, base_cntrl = (\<lambda>_. None), destroyed = [], freed = []\<rparr>"

section \<open>Counts\<close>

definition add_shared :: "nat \<Rightarrow> heap \<Rightarrow> heap option" where
  "add_shared a hp = (case blocks hp a of
     None \<Rightarrow> None
   | Some b \<Rightarrow> Some (hp\<lparr>blocks := (blocks hp)(a \<mapsto> b\<lparr>shared_owners := shared_owners b + 1\<rparr>)\<rparr>))"

definition add_weak :: "nat \<Rightarrow> heap \<Rightarrow> heap option" where
  "add_weak a hp = (case blocks hp a of
     None \<Rightarrow> None
   | Some b \<Rightarrow> Some (hp\<lparr>blocks := (blocks hp)(a \<mapsto> b\<lparr>shared_weak_owners := shared_weak_owners b + 1\<rparr>)\<rparr>))"

definition use_count :: "control_block \<Rightarrow> int" where
  "use_count b = shared_owners b + 1"

definition on_zero_shared_weak :: "nat \<Rightarrow> heap \<Rightarrow> heap" where
  "on_zero_shared_weak a hp = hp\<lparr>blocks := (blocks hp)(a := None), freed := freed hp @ [a]\<rparr>"

definition release_weak :: "nat \<Rightarrow> heap \<Rightarrow> heap option" where
  "release_weak a hp = (case blocks hp a of
     None \<Rightarrow> None
   | Some b \<Rightarrow>
       if shared_weak_owners b = 0 then Some (on_zero_shared_weak a hp)
       else let hp = hp\<lparr>blocks := (blocks hp)(a \<mapsto> b\<lparr>shared_weak_owners := shared_weak_owners b - 1\<rparr>)\<rparr> in
         if shared_weak_owners b = 0 then Some (on_zero_shared_weak a hp) else Some hp)"

text \<open>Deleting an object: its destructor, and that of its base.\<close>

definition destroy_object :: "nat \<times> bool \<Rightarrow> heap \<Rightarrow> heap option" where
  "destroy_object x hp =
    (let hp = hp\<lparr>destroyed := destroyed hp @ [fst x]\<rparr> in
     if snd x then (case base_cntrl hp (fst x) of None \<Rightarrow> Some hp | Some a \<Rightarrow> release_weak a hp)
     else Some hp)"

primrec destroy_objects :: "(nat \<times> bool) list \<Rightarrow> heap \<Rightarrow> heap option" where
  "destroy_objects [] hp = Some hp"
| "destroy_objects (x # xs) hp = Option.bind (destroy_object x hp) (destroy_objects xs)"

definition on_zero_shared :: "nat \<Rightarrow> heap \<Rightarrow> heap option" where
  "on_zero_shared a hp = (case blocks hp a of None \<Rightarrow> None | Some b \<Rightarrow> destroy_objects (block_objects b) hp)"

definition count_release_shared :: "nat \<Rightarrow> heap \<Rightarrow> (bool \<times> heap) option" where
  "count_release_shared a hp = (case blocks hp a of
     None \<Rightarrow> None
   | Some b \<Rightarrow>
       let hp = hp\<lparr>blocks := (blocks hp)(a \<mapsto> b\<lparr>shared_owners := shared_owners b - 1\<rparr>)\<rparr> in
       if shared_owners b = 0 then map_option (Pair True) (on_zero_shared a hp) else Some (False, hp))"

definition release_shared :: "nat \<Rightarrow> heap \<Rightarrow> heap option" where
  "release_shared a hp = (case count_release_shared a hp of
     None \<Rightarrow> None
   | Some (zero, hp) \<Rightarrow> if zero then release_weak a hp else Some hp)"

section \<open>Pointers\<close>

record tuple_ptr =
  ptrs :: "nat list"
  cntrl :: "nat option"

definition null_ptr :: tuple_ptr where
  "null_ptr = \<lparr>ptrs = [], cntrl = None\<rparr>"

definition enable_weak_this :: "nat \<Rightarrow> nat \<times> bool \<Rightarrow> heap \<Rightarrow> heap option" where
  "enable_weak_this a x hp =
    (if \<not> snd x then Some hp
     else let set_base = (\<lambda>hp. add_weak a (hp\<lparr>base_cntrl := (base_cntrl hp)(fst x := Some a)\<rparr>)) in
       case base_cntrl hp (fst x) of
         None \<Rightarrow> set_base hp
       | Some old \<Rightarrow>
           (case blocks hp old of
              None \<Rightarrow> None
            | Some b \<Rightarrow> if use_count b = 0 then set_base hp else Some hp))"

primrec enable_all :: "nat \<Rightarrow> (nat \<times> bool) list \<Rightarrow> heap \<Rightarrow> heap option" where
  "enable_all a [] hp = Some hp"
| "enable_all a (x # xs) hp = Option.bind (enable_weak_this a x hp) (enable_all a xs)"

definition new_tuple_ptr :: "(nat \<times> bool) list \<Rightarrow> heap \<Rightarrow> (tuple_ptr \<times> heap) option" where
  "new_tuple_ptr xs hp =
    (let a = next_block hp;
         hp = hp\<lparr>blocks := (blocks hp)(a \<mapsto> \<lparr>shared_owners = 0, shared_weak_owners = 0, block_objects = xs\<rparr>),
                 next_block := a + 1\<rparr>
     in map_option (Pair \<lparr>ptrs = map fst xs, cntrl = Some a\<rparr>) (enable_all a xs hp))"

definition copy_ptr :: "tuple_ptr \<Rightarrow> heap \<Rightarrow> (tuple_ptr \<times> heap) option" where
  "copy_ptr r hp = (case cntrl r of None \<Rightarrow> Some (r, hp) | Some a \<Rightarrow> map_option (Pair r) (add_shared a hp))"

text \<open>The new pointer and what is left of the old one.\<close>

definition move_ptr :: "tuple_ptr \<Rightarrow> tuple_ptr \<times> tuple_ptr" where
  "move_ptr r = (r, \<lparr>ptrs = [], cntrl = None\<rparr>)"

definition destroy_ptr :: "tuple_ptr \<Rightarrow> heap \<Rightarrow> heap option" where
  "destroy_ptr p hp = (case cntrl p of None \<Rightarrow> Some hp | Some a \<Rightarrow> release_shared a hp)"

text \<open>\<open>tuple_ptr(r).swap( *this)\<close>: the copy is taken before the old pointer is destroyed.\<close>

definition assign_ptr :: "tuple_ptr \<Rightarrow> tuple_ptr \<Rightarrow> heap \<Rightarrow> (tuple_ptr \<times> heap) option" where
  "assign_ptr p r hp =
    Option.bind (copy_ptr r hp) (\<lambda>(q, hp). map_option (Pair q) (destroy_ptr p hp))"

definition reset_ptr :: "tuple_ptr \<Rightarrow> heap \<Rightarrow> (tuple_ptr \<times> heap) option" where
  "reset_ptr p hp = map_option (Pair null_ptr) (destroy_ptr p hp)"

definition element_ptr :: "nat \<Rightarrow> nat option \<Rightarrow> heap \<Rightarrow> (tuple_ptr \<times> heap) option" where
  "element_ptr x c hp = (case c of
     None \<Rightarrow> None
   | Some a \<Rightarrow> map_option (Pair \<lparr>ptrs = [x], cntrl = Some a\<rparr>) (add_shared a hp))"

definition get_ptr :: "nat \<Rightarrow> tuple_ptr \<Rightarrow> heap \<Rightarrow> (tuple_ptr \<times> heap) option" where
  "get_ptr n p hp = element_ptr (ptrs p ! n) (cntrl p) hp"

text \<open>The inner \<open>None\<close> is the exception \<open>bad_ptr\<close>.\<close>

definition shared_from_this :: "nat \<Rightarrow> heap \<Rightarrow> (tuple_ptr \<times> heap) option option" where
  "shared_from_this x hp = (case base_cntrl hp x of
     None \<Rightarrow> Some None
   | Some a \<Rightarrow>
       (case blocks hp a of
          None \<Rightarrow> None
        | Some b \<Rightarrow> if use_count b = 0 then Some None else map_option Some (element_ptr x (Some a) hp)))"

section \<open>Programs\<close>

text \<open>
  A program holds pointers and makes, copies, moves, assigns, resets and destroys them, takes a pointer to an object
  of a tuple, and calls \<open>shared_from_this\<close> of an object that is alive.
\<close>

datatype ptr_op =
    Make "(nat \<times> bool) list" | Copy nat | Move nat | Assign nat nat | Reset nat | Destroy nat | Element nat nat | This nat

fun ptr_step :: "ptr_op \<Rightarrow> heap \<times> tuple_ptr list \<Rightarrow> (heap \<times> tuple_ptr list) option" where
  "ptr_step (Make xs) (hp, ps) = map_option (\<lambda>(p, hp). (hp, ps @ [p])) (new_tuple_ptr xs hp)"
| "ptr_step (Copy i) (hp, ps) = map_option (\<lambda>(p, hp). (hp, ps @ [p])) (copy_ptr (ps ! i) hp)"
| "ptr_step (Move i) (hp, ps) = Some (hp, ps[i := snd (move_ptr (ps ! i))] @ [fst (move_ptr (ps ! i))])"
| "ptr_step (Assign i j) (hp, ps) = map_option (\<lambda>(p, hp). (hp, ps[i := p])) (assign_ptr (ps ! i) (ps ! j) hp)"
| "ptr_step (Reset i) (hp, ps) = map_option (\<lambda>(p, hp). (hp, ps[i := p])) (reset_ptr (ps ! i) hp)"
| "ptr_step (Destroy i) (hp, ps) = map_option (\<lambda>hp. (hp, take i ps @ drop (Suc i) ps)) (destroy_ptr (ps ! i) hp)"
| "ptr_step (Element i n) (hp, ps) = map_option (\<lambda>(p, hp). (hp, ps @ [p])) (get_ptr n (ps ! i) hp)"
| "ptr_step (This x) (hp, ps) =
    map_option (\<lambda>r. case r of None \<Rightarrow> (hp, ps) | Some (p, hp) \<Rightarrow> (hp, ps @ [p])) (shared_from_this x hp)"

section \<open>What the operations come to\<close>

definition marks :: "(nat \<times> bool) list \<Rightarrow> nat" where
  "marks xs = length (filter snd xs)"

lemma marks_simps [simp]: "marks [] = 0" "marks (x # xs) = (if snd x then 1 else 0) + marks xs"
  by (simp_all add: marks_def)

lemma destroy_objects_block:
  assumes "blocks hp a = Some b" "shared_weak_owners b = int (marks xs) + k" "0 \<le> k"
    and "\<And>x. (x, True) \<in> set xs \<Longrightarrow> base_cntrl hp x = Some a"
  shows "destroy_objects xs hp = Some (hp\<lparr>blocks := (blocks hp)(a \<mapsto> b\<lparr>shared_weak_owners := k\<rparr>),
    destroyed := destroyed hp @ map fst xs\<rparr>)"
  using assms
proof (induction xs arbitrary: hp b)
  case Nil
  then have "(blocks hp)(a \<mapsto> b\<lparr>shared_weak_owners := k\<rparr>) = blocks hp"
    by (simp add: fun_upd_idem)
  then show ?case
    by simp
next
  case (Cons x xs)
  let ?hp = "hp\<lparr>destroyed := destroyed hp @ [fst x]\<rparr>"
  show ?case
  proof (cases "snd x")
    case True
    let ?b = "b\<lparr>shared_weak_owners := shared_weak_owners b - 1\<rparr>"
    have "base_cntrl hp (fst x) = Some a"
      using Cons.prems(4) [of "fst x"] True by (cases x) simp
    then have "destroy_object x hp = Some (?hp\<lparr>blocks := (blocks hp)(a \<mapsto> ?b)\<rparr>)"
      using True Cons.prems(1-3) by (simp add: destroy_object_def release_weak_def)
    then show ?thesis
      using Cons.IH [of "?hp\<lparr>blocks := (blocks hp)(a \<mapsto> ?b)\<rparr>" ?b] Cons.prems True
      by (simp cong: if_cong)
  next
    case False
    then show ?thesis
      using Cons.IH [of ?hp b] Cons.prems by (simp add: destroy_object_def)
  qed
qed

lemma release_shared_block:
  assumes "blocks hp a = Some b" "shared_weak_owners b = int (marks (block_objects b))"
    and "\<And>x. (x, True) \<in> set (block_objects b) \<Longrightarrow> base_cntrl hp x = Some a"
  shows "release_shared a hp = Some
    (if shared_owners b = 0 then
       hp\<lparr>blocks := (blocks hp)(a := None), destroyed := destroyed hp @ map fst (block_objects b),
         freed := freed hp @ [a]\<rparr>
     else hp\<lparr>blocks := (blocks hp)(a \<mapsto> b\<lparr>shared_owners := shared_owners b - 1\<rparr>)\<rparr>)"
proof (cases "shared_owners b = 0")
  case True
  let ?b = "b\<lparr>shared_owners := -1\<rparr>"
  let ?hp = "hp\<lparr>blocks := (blocks hp)(a \<mapsto> ?b)\<rparr>"
  have "destroy_objects (block_objects b) ?hp = Some (?hp\<lparr>blocks := (blocks ?hp)(a \<mapsto> ?b\<lparr>shared_weak_owners := 0\<rparr>),
      destroyed := destroyed ?hp @ map fst (block_objects b)\<rparr>)"
    by (rule destroy_objects_block) (use assms in simp_all)
  then show ?thesis
    using True assms(1)
    by (simp add: release_shared_def count_release_shared_def on_zero_shared_def release_weak_def
        on_zero_shared_weak_def)
next
  case False
  then show ?thesis
    using assms(1) by (simp add: release_shared_def count_release_shared_def)
qed

lemma enable_all_block:
  assumes "blocks hp a = Some b" "\<And>x. (x, True) \<in> set xs \<Longrightarrow> base_cntrl hp x = None" "distinct (map fst xs)"
  shows "enable_all a xs hp = Some (hp
    \<lparr>blocks := (blocks hp)(a \<mapsto> b\<lparr>shared_weak_owners := shared_weak_owners b + int (marks xs)\<rparr>),
     base_cntrl := (\<lambda>x. if (x, True) \<in> set xs then Some a else base_cntrl hp x)\<rparr>)"
  using assms
proof (induction xs arbitrary: hp b)
  case Nil
  then show ?case
    by (simp add: fun_upd_idem)
next
  case (Cons x xs)
  show ?case
  proof (cases "snd x")
    case True
    let ?b = "b\<lparr>shared_weak_owners := shared_weak_owners b + 1\<rparr>"
    let ?hp = "hp\<lparr>base_cntrl := (base_cntrl hp)(fst x := Some a), blocks := (blocks hp)(a \<mapsto> ?b)\<rparr>"
    have "base_cntrl hp (fst x) = None"
      using Cons.prems(2) [of "fst x"] True by (cases x) simp
    then have "enable_weak_this a x hp = Some ?hp"
      using True Cons.prems(1) by (simp add: enable_weak_this_def add_weak_def)
    moreover have "base_cntrl ?hp y = None" if "(y, True) \<in> set xs" for y
    proof -
      have "y \<in> fst ` set xs"
        using that by force
      moreover have "fst x \<notin> set (map fst xs)"
        using Cons.prems(3) by simp
      ultimately have "y \<noteq> fst x"
        by (metis set_map)
      then show ?thesis
        using Cons.prems(2) [of y] that by simp
    qed
    moreover have "(\<lambda>y. if (y, True) \<in> set xs then Some a else ((base_cntrl hp)(fst x := Some a)) y) =
        (\<lambda>y. if (y, True) \<in> set (x # xs) then Some a else base_cntrl hp y)"
      using True by (cases x) auto
    ultimately show ?thesis
      using Cons.IH [of ?hp ?b] Cons.prems True by (simp add: add.commute add.left_commute cong: if_cong)
  next
    case False
    moreover have "(\<lambda>y. if (y, True) \<in> set xs then Some a else base_cntrl hp y) =
        (\<lambda>y. if (y, True) \<in> set (x # xs) then Some a else base_cntrl hp y)"
      using False by (cases x) auto
    ultimately show ?thesis
      using Cons.IH [of hp b] Cons.prems by (simp add: enable_weak_this_def)
  qed
qed

section \<open>The invariant\<close>

text \<open>
  \<open>own a\<close> pointers own block \<open>a\<close>, and \<open>made\<close> are the objects put into tuples so far: each is destroyed or in one
  block, and a block exists as long as it has owners.
\<close>

definition members :: "heap \<Rightarrow> nat \<Rightarrow> nat set" where
  "members hp a = (case blocks hp a of None \<Rightarrow> {} | Some b \<Rightarrow> fst ` set (block_objects b))"

definition block_ok :: "heap \<Rightarrow> nat \<Rightarrow> control_block \<Rightarrow> nat \<Rightarrow> bool" where
  "block_ok hp a b n \<longleftrightarrow> a < next_block hp \<and> use_count b = int n \<and> 0 < n \<and>
     shared_weak_owners b = int (marks (block_objects b)) \<and>
     distinct (map fst (block_objects b)) \<and> (\<forall>x. (x, True) \<in> set (block_objects b) \<longrightarrow> base_cntrl hp x = Some a)"

definition counts_ok :: "(nat \<Rightarrow> nat) \<Rightarrow> heap \<Rightarrow> bool" where
  "counts_ok own hp \<longleftrightarrow> (\<forall>a. case blocks hp a of Some b \<Rightarrow> block_ok hp a b (own a) | None \<Rightarrow> own a = 0)"

definition places_ok :: "nat set \<Rightarrow> heap \<Rightarrow> bool" where
  "places_ok made hp \<longleftrightarrow> (\<forall>a a'. a \<noteq> a' \<longrightarrow> members hp a \<inter> members hp a' = {}) \<and>
     (\<forall>x a. base_cntrl hp x = Some a \<longrightarrow> x \<in> set (destroyed hp) \<or> x \<in> members hp a) \<and>
     made = set (destroyed hp) \<union> (\<Union>a. members hp a) \<and> (\<forall>a. set (destroyed hp) \<inter> members hp a = {}) \<and>
     distinct (destroyed hp) \<and> distinct (freed hp) \<and>
     (\<forall>a. a \<in> set (freed hp) \<longleftrightarrow> a < next_block hp \<and> blocks hp a = None)"

definition heap_ok :: "nat set \<Rightarrow> (nat \<Rightarrow> nat) \<Rightarrow> heap \<Rightarrow> bool" where
  "heap_ok made own hp \<longleftrightarrow> counts_ok own hp \<and> places_ok made hp"

lemma counts_okD:
  assumes "counts_ok own hp"
  shows "blocks hp a = Some b \<Longrightarrow> block_ok hp a b (own a)" "blocks hp a = None \<Longrightarrow> own a = 0"
    "0 < own a \<Longrightarrow> \<exists>b. blocks hp a = Some b"
proof -
  have "case blocks hp a of Some b \<Rightarrow> block_ok hp a b (own a) | None \<Rightarrow> own a = 0"
    using assms unfolding counts_ok_def by blast
  then show "blocks hp a = Some b \<Longrightarrow> block_ok hp a b (own a)" "blocks hp a = None \<Longrightarrow> own a = 0"
      "0 < own a \<Longrightarrow> \<exists>b. blocks hp a = Some b"
    by (auto split: option.splits)
qed

lemma counts_okI:
  "(\<And>a b. blocks hp a = Some b \<Longrightarrow> block_ok hp a b (own a)) \<Longrightarrow> (\<And>a. blocks hp a = None \<Longrightarrow> own a = 0) \<Longrightarrow>
    counts_ok own hp"
  by (auto simp: counts_ok_def split: option.split)

text \<open>Changing the counts of a block moves no object.\<close>

lemma places_same:
  assumes "places_ok made hp" "blocks hp a = Some b" "block_objects b' = block_objects b"
  shows "places_ok made (hp\<lparr>blocks := (blocks hp)(a \<mapsto> b')\<rparr>)"
proof -
  have "members (hp\<lparr>blocks := (blocks hp)(a \<mapsto> b')\<rparr>) = members hp"
    using assms(2,3) by (intro ext) (simp add: members_def)
  then show ?thesis
    using assms(1,2) by (auto simp: places_ok_def)
qed

text \<open>One owner more of a block.\<close>

lemma add_shared_ok:
  assumes "heap_ok made own hp" "0 < own a"
  shows "\<exists>hp'. add_shared a hp = Some hp' \<and> heap_ok made (own(a := own a + 1)) hp' \<and> members hp' = members hp"
proof -
  obtain b where b: "blocks hp a = Some b"
    using assms counts_okD(3) unfolding heap_ok_def by blast
  let ?b = "b\<lparr>shared_owners := shared_owners b + 1\<rparr>"
  let ?hp = "hp\<lparr>blocks := (blocks hp)(a \<mapsto> ?b)\<rparr>"
  have "counts_ok (own(a := own a + 1)) ?hp"
  proof (rule counts_okI)
    fix c d assume "blocks ?hp c = Some d"
    then show "block_ok ?hp c d ((own(a := own a + 1)) c)"
      using counts_okD(1) [of own hp c] assms(1) b
      by (auto simp: heap_ok_def block_ok_def use_count_def split: if_splits)
  next
    fix c assume "blocks ?hp c = None"
    then show "(own(a := own a + 1)) c = 0"
      using counts_okD(2) [of own hp c] assms(1) by (auto simp: heap_ok_def split: if_splits)
  qed
  moreover have "members ?hp = members hp"
    using b by (intro ext) (simp add: members_def)
  ultimately show ?thesis
    using assms(1) b places_same [of made hp a b ?b] by (intro exI [of _ ?hp]) (simp add: heap_ok_def add_shared_def)
qed

text \<open>One owner less: the last one destroys the objects and frees the block.\<close>

lemma release_shared_ok:
  assumes "heap_ok made own hp" "0 < own a"
  shows "\<exists>hp'. release_shared a hp = Some hp' \<and> heap_ok made (own(a := own a - 1)) hp' \<and>
    (\<forall>c. 0 < (own(a := own a - 1)) c \<longrightarrow> members hp' c = members hp c)"
proof -
  obtain b where b: "blocks hp a = Some b"
    using assms counts_okD(3) unfolding heap_ok_def by blast
  have ok: "block_ok hp a b (own a)" and places: "places_ok made hp"
    using assms(1) b counts_okD(1) by (auto simp: heap_ok_def)
  let ?b = "b\<lparr>shared_owners := shared_owners b - 1\<rparr>"
  let ?hp = "if shared_owners b = 0 then
       hp\<lparr>blocks := (blocks hp)(a := None), destroyed := destroyed hp @ map fst (block_objects b),
         freed := freed hp @ [a]\<rparr>
     else hp\<lparr>blocks := (blocks hp)(a \<mapsto> ?b)\<rparr>"
  have run: "release_shared a hp = Some ?hp"
    using ok by (intro release_shared_block [OF b]) (auto simp: block_ok_def)
  have own: "shared_owners b = int (own a) - 1"
    using ok by (simp add: block_ok_def use_count_def)
  have "counts_ok (own(a := own a - 1)) ?hp"
  proof (rule counts_okI)
    fix c d assume "blocks ?hp c = Some d"
    then show "block_ok ?hp c d ((own(a := own a - 1)) c)"
      using counts_okD(1) [of own hp c] assms(1) b own
      by (auto simp: heap_ok_def block_ok_def use_count_def split: if_splits)
  next
    fix c assume "blocks ?hp c = None"
    then show "(own(a := own a - 1)) c = 0"
      using counts_okD(2) [of own hp c] assms(1) own by (auto simp: heap_ok_def split: if_splits)
  qed
  moreover have "places_ok made ?hp"
  proof (cases "shared_owners b = 0")
    case False
    then show ?thesis
      using places_same [OF places b, of ?b] by simp
  next
    case True
    have mem: "members ?hp c = (if c = a then {} else members hp c)" for c
      using True by (simp add: members_def)
    have a: "set (map fst (block_objects b)) = members hp a" "distinct (map fst (block_objects b))" "a < next_block hp"
      using b ok by (simp_all add: members_def block_ok_def)
    have dest: "destroyed ?hp = destroyed hp @ map fst (block_objects b)" "base_cntrl ?hp = base_cntrl hp"
        "freed ?hp = freed hp @ [a]" "next_block ?hp = next_block hp" "blocks ?hp = (blocks hp)(a := None)"
      using True by simp_all
    have set: "set (destroyed ?hp) = set (destroyed hp) \<union> members hp a"
      unfolding dest(1) set_append a(1) ..
    have disj: "members hp c \<inter> members hp c' = {}" if "c \<noteq> c'" for c c'
      using places that by (simp add: places_ok_def)
    have gone: "set (destroyed hp) \<inter> members hp c = {}" for c
      using places by (simp add: places_ok_def)
    show ?thesis
      unfolding places_ok_def
    proof (intro conjI allI impI)
      show "members ?hp c \<inter> members ?hp c' = {}" if "c \<noteq> c'" for c c'
        using disj [OF that] unfolding mem by simp
      show "x \<in> set (destroyed ?hp) \<or> x \<in> members ?hp c" if "base_cntrl ?hp x = Some c" for x c
      proof -
        have "x \<in> set (destroyed hp) \<or> x \<in> members hp c"
          using places that unfolding dest(2) by (simp add: places_ok_def)
        then show ?thesis
          unfolding mem set by auto
      qed
      have "(\<Union>c. members hp c) = members hp a \<union> (\<Union>c. members ?hp c)"
        unfolding mem by auto
      then show "made = set (destroyed ?hp) \<union> (\<Union>c. members ?hp c)"
        using places unfolding set by (auto simp: places_ok_def)
      show "set (destroyed ?hp) \<inter> members ?hp c = {}" for c
        using gone [of c] disj [of a c] unfolding mem set by auto
      show "distinct (destroyed ?hp)"
        unfolding dest(1) distinct_append a(1) using places a(2) gone [of a] by (simp add: places_ok_def)
      have "a \<notin> set (freed hp)"
        using places b by (auto simp: places_ok_def)
      then show "distinct (freed ?hp)"
        using places by (simp add: dest(3) places_ok_def)
      show "c \<in> set (freed ?hp) \<longleftrightarrow> c < next_block ?hp \<and> blocks ?hp c = None" for c
        unfolding dest(3-5) using places a(3) by (auto simp: places_ok_def)
    qed
  qed
  moreover have "members ?hp c = members hp c" if "0 < (own(a := own a - 1)) c" for c
    using that own b by (auto simp: members_def split: if_splits)
  ultimately show ?thesis
    using run by (intro exI [of _ ?hp]) (simp add: heap_ok_def)
qed

text \<open>A new tuple of new objects.\<close>

lemma new_tuple_ok:
  assumes "heap_ok made own hp" "distinct (map fst xs)" "fst ` set xs \<inter> made = {}"
  shows "\<exists>a hp'. new_tuple_ptr xs hp = Some (\<lparr>ptrs = map fst xs, cntrl = Some a\<rparr>, hp') \<and> own a = 0 \<and>
    heap_ok (made \<union> fst ` set xs) (own(a := 1)) hp' \<and> members hp' = (members hp)(a := fst ` set xs)"
proof -
  let ?a = "next_block hp"
  let ?b = "\<lparr>shared_owners = 0, shared_weak_owners = 0, block_objects = xs\<rparr>"
  let ?hp1 = "hp\<lparr>blocks := (blocks hp)(?a \<mapsto> ?b), next_block := ?a + 1\<rparr>"
  let ?b' = "?b\<lparr>shared_weak_owners := int (marks xs)\<rparr>"
  let ?hp = "?hp1\<lparr>blocks := (blocks hp)(?a \<mapsto> ?b'),
     base_cntrl := (\<lambda>x. if (x, True) \<in> set xs then Some ?a else base_cntrl hp x)\<rparr>"
  have places: "places_ok made hp" and counts: "counts_ok own hp"
    using assms(1) by (simp_all add: heap_ok_def)
  have new: "x \<notin> set (destroyed hp)" "x \<notin> members hp c" if "x \<in> fst ` set xs" for x c
    using places assms(3) that by (auto simp: places_ok_def)
  have base: "base_cntrl hp x = None" if "(x, True) \<in> set xs" for x
  proof (rule ccontr)
    assume "base_cntrl hp x \<noteq> None"
    then obtain c where "base_cntrl hp x = Some c"
      by blast
    moreover have "x \<in> fst ` set xs"
      using that by force
    ultimately show False
      using new(1) [of x] new(2) [of x c] places by (auto simp: places_ok_def)
  qed
  have unused: "blocks hp ?a = None" "own ?a = 0"
    using counts_okD(1,2) [OF counts, of ?a] by (cases "blocks hp ?a"; auto simp: block_ok_def)+
  have run: "new_tuple_ptr xs hp = Some (\<lparr>ptrs = map fst xs, cntrl = Some ?a\<rparr>, ?hp)"
    using enable_all_block [of ?hp1 ?a ?b xs] base assms(2) by (simp add: new_tuple_ptr_def Let_def cong: if_cong)
  have mem: "members ?hp = (members hp)(?a := fst ` set xs)"
    by (intro ext) (simp add: members_def)
  have "counts_ok (own(?a := 1)) ?hp"
  proof (rule counts_okI)
    fix c d assume "blocks ?hp c = Some d"
    then show "block_ok ?hp c d ((own(?a := 1)) c)"
      using counts_okD(1) [OF counts, of c d] assms(2) base
      by (cases "c = ?a") (auto simp: block_ok_def use_count_def)
  next
    fix c assume "blocks ?hp c = None"
    then show "(own(?a := 1)) c = 0"
      using counts_okD(2) [OF counts, of c] by (auto split: if_splits)
  qed
  moreover have "places_ok (made \<union> fst ` set xs) ?hp"
  proof -
    have "members hp ?a = {}"
      using unused by (simp add: members_def)
    then have "(\<Union>c. members ?hp c) = (\<Union>c. members hp c) \<union> fst ` set xs"
      unfolding mem by auto (metis empty_iff)
    moreover have "x \<in> set (destroyed hp) \<or> x \<in> members ?hp c" if "base_cntrl ?hp x = Some c" for x c
    proof (cases "(x, True) \<in> set xs")
      case True
      then show ?thesis
        using that unfolding mem by force
    next
      case False
      then have "x \<in> set (destroyed hp) \<or> x \<in> members hp c"
        using that places by (simp add: places_ok_def)
      then show ?thesis
        using \<open>members hp ?a = {}\<close> unfolding mem by auto
    qed
    moreover have "c \<in> set (freed hp) \<longleftrightarrow> c < ?a + 1 \<and> blocks ?hp c = None" for c
      using places unused by (auto simp: places_ok_def less_Suc_eq)
    moreover have "members ?hp c \<inter> members ?hp c' = {}" if "c \<noteq> c'" for c c'
      using that places new unfolding mem by (auto simp: places_ok_def)
    moreover have "set (destroyed hp) \<inter> members ?hp c = {}" for c
      using places new unfolding mem by (auto simp: places_ok_def)
    ultimately show ?thesis
      using places unfolding places_ok_def by (intro conjI allI impI) auto
  qed
  ultimately show ?thesis
    using run mem unused by (intro exI [of _ ?a] exI [of _ ?hp]) (simp add: heap_ok_def)
qed

section \<open>Runs\<close>

definition owns :: "tuple_ptr \<Rightarrow> nat \<Rightarrow> nat" where
  "owns p a = (if cntrl p = Some a then 1 else 0)"

definition owners :: "tuple_ptr list \<Rightarrow> nat \<Rightarrow> nat" where
  "owners ps a = length (filter (\<lambda>p. cntrl p = Some a) ps)"

lemma owners_simps [simp]:
  "owners [] a = 0" "owners (p # ps) a = owns p a + owners ps a" "owners (ps @ qs) a = owners ps a + owners qs a"
  by (simp_all add: owners_def owns_def)

lemma owners_nth:
  assumes "i < length ps"
  shows "owners ps a = owners (take i ps @ drop (Suc i) ps) a + owns (ps ! i) a"
    "owners (ps[i := q]) a = owners (take i ps @ drop (Suc i) ps) a + owns q a"
proof -
  show "owners ps a = owners (take i ps @ drop (Suc i) ps) a + owns (ps ! i) a"
    by (subst id_take_nth_drop [OF assms]) simp
  show "owners (ps[i := q]) a = owners (take i ps @ drop (Suc i) ps) a + owns q a"
    using assms by (simp add: upd_conv_take_nth_drop)
qed

definition pointer_ok :: "heap \<Rightarrow> tuple_ptr \<Rightarrow> bool" where
  "pointer_ok hp p \<longleftrightarrow> (case cntrl p of None \<Rightarrow> True | Some a \<Rightarrow> set (ptrs p) \<subseteq> members hp a)"

definition state_ok :: "nat set \<Rightarrow> heap \<times> tuple_ptr list \<Rightarrow> bool" where
  "state_ok made st \<longleftrightarrow> heap_ok made (owners (snd st)) (fst st) \<and> list_all (pointer_ok (fst st)) (snd st)"

text \<open>Copies and destructions, whoever the owners are.\<close>

lemma copy_ok:
  assumes "heap_ok made own hp" "\<And>a. owns p a \<le> own a"
  shows "\<exists>hp'. copy_ptr p hp = Some (p, hp') \<and> heap_ok made (\<lambda>a. own a + owns p a) hp' \<and> members hp' = members hp"
proof (cases "cntrl p")
  case None
  then show ?thesis
    using assms(1) by (simp add: copy_ptr_def owns_def)
next
  case (Some a)
  moreover have "(\<lambda>c. own c + owns p c) = own(a := own a + 1)"
    using Some by (intro ext) (simp add: owns_def)
  ultimately show ?thesis
    using add_shared_ok [OF assms(1), of a] assms(2) [of a] by (auto simp: copy_ptr_def owns_def)
qed

lemma destroy_ok:
  assumes "heap_ok made own hp" "\<And>a. owns p a \<le> own a"
  shows "\<exists>hp'. destroy_ptr p hp = Some hp' \<and> heap_ok made (\<lambda>a. own a - owns p a) hp' \<and>
    (\<forall>c. 0 < own c - owns p c \<longrightarrow> members hp' c = members hp c)"
proof (cases "cntrl p")
  case None
  then show ?thesis
    using assms(1) by (simp add: destroy_ptr_def owns_def)
next
  case (Some a)
  moreover have own: "(\<lambda>c. own c - owns p c) = own(a := own a - 1)"
    using Some by (intro ext) (simp add: owns_def)
  moreover have "0 < own a"
    using assms(2) [of a] Some by (simp add: owns_def)
  ultimately show ?thesis
    using release_shared_ok [OF assms(1), of a] by (simp add: destroy_ptr_def fun_cong [OF own])
qed

lemma element_ok:
  assumes "heap_ok made own hp" "0 < own a" "x \<in> members hp a"
  shows "\<exists>p hp'. element_ptr x (Some a) hp = Some (p, hp') \<and> heap_ok made (\<lambda>c. own c + owns p c) hp' \<and>
    members hp' = members hp \<and> pointer_ok hp p"
proof -
  let ?p = "\<lparr>ptrs = [x], cntrl = Some a\<rparr>"
  have "(\<lambda>c. own c + owns ?p c) = own(a := own a + 1)"
    by (intro ext) (simp add: owns_def)
  then show ?thesis
    using add_shared_ok [OF assms(1,2)] assms(3)
    by (intro exI [of _ ?p]) (auto simp: element_ptr_def pointer_ok_def)
qed

lemma pointers_kept:
  assumes "list_all (pointer_ok hp) ps" "\<And>c. 0 < owners ps c \<Longrightarrow> members hp' c = members hp c"
  shows "list_all (pointer_ok hp') ps"
proof -
  have "pointer_ok hp' p" if "p \<in> set ps" for p
  proof (cases "cntrl p")
    case (Some a)
    then have "0 < owners ps a"
      using that by (auto simp: owners_def filter_empty_conv)
    moreover have "pointer_ok hp p"
      using assms(1) that by (simp add: list_all_iff)
    ultimately show ?thesis
      using assms(2) [of a] Some by (simp add: pointer_ok_def)
  qed (simp add: pointer_ok_def)
  then show ?thesis
    by (simp add: list_all_iff)
qed

lemma pointer_kept: "members hp' = members hp \<Longrightarrow> pointer_ok hp' p = pointer_ok hp p"
  by (simp add: pointer_ok_def split: option.split)

text \<open>What the program may do.\<close>

fun op_ok :: "nat set \<Rightarrow> heap \<times> tuple_ptr list \<Rightarrow> ptr_op \<Rightarrow> bool" where
  "op_ok made (hp, ps) (Make xs) \<longleftrightarrow> distinct (map fst xs) \<and> fst ` set xs \<inter> made = {}"
| "op_ok made (hp, ps) (Copy i) \<longleftrightarrow> i < length ps"
| "op_ok made (hp, ps) (Move i) \<longleftrightarrow> i < length ps"
| "op_ok made (hp, ps) (Assign i j) \<longleftrightarrow> i < length ps \<and> j < length ps"
| "op_ok made (hp, ps) (Reset i) \<longleftrightarrow> i < length ps"
| "op_ok made (hp, ps) (Destroy i) \<longleftrightarrow> i < length ps"
| "op_ok made (hp, ps) (Element i n) \<longleftrightarrow> i < length ps \<and> cntrl (ps ! i) \<noteq> None \<and> n < length (ptrs (ps ! i))"
| "op_ok made (hp, ps) (This x) \<longleftrightarrow> x \<notin> set (destroyed hp)"

fun made_by :: "ptr_op \<Rightarrow> nat set" where
  "made_by (Make xs) = fst ` set xs"
| "made_by op = {}"

inductive ptr_reach :: "nat set \<Rightarrow> heap \<times> tuple_ptr list \<Rightarrow> bool" where
  start: "ptr_reach {} (empty_heap, [])"
| step: "ptr_reach made st \<Longrightarrow> op_ok made st op \<Longrightarrow> ptr_step op st = Some st' \<Longrightarrow> ptr_reach (made \<union> made_by op) st'"

lemma owns_le: "i < length ps \<Longrightarrow> owns (ps ! i) a \<le> owners ps a"
  using owners_nth(1) [of i ps a] by simp

lemma pointers_nth: "list_all P ps \<Longrightarrow> i < length ps \<Longrightarrow> P (ps ! i)"
  by (simp add: list_all_length)

lemma pointers_update: "list_all P ps \<Longrightarrow> P q \<Longrightarrow> list_all P (ps[i := q])"
  by (auto simp: list_all_iff dest!: set_update_subset_insert [THEN subsetD])

lemma step_make:
  assumes "state_ok made (hp, ps)" "distinct (map fst xs)" "fst ` set xs \<inter> made = {}"
  shows "\<exists>st'. ptr_step (Make xs) (hp, ps) = Some st' \<and> state_ok (made \<union> fst ` set xs) st'"
proof -
  have ok: "heap_ok made (owners ps) hp" "list_all (pointer_ok hp) ps"
    using assms(1) by (simp_all add: state_ok_def)
  obtain a hp' where new: "new_tuple_ptr xs hp = Some (\<lparr>ptrs = map fst xs, cntrl = Some a\<rparr>, hp')" "owners ps a = 0"
      "heap_ok (made \<union> fst ` set xs) ((owners ps)(a := 1)) hp'" "members hp' = (members hp)(a := fst ` set xs)"
    using new_tuple_ok [OF ok(1) assms(2,3)] by blast
  have "owners (ps @ [\<lparr>ptrs = map fst xs, cntrl = Some a\<rparr>]) = (owners ps)(a := 1)"
    using new(2) by (intro ext) (simp add: owns_def)
  moreover have "list_all (pointer_ok hp') ps"
    by (rule pointers_kept [OF ok(2)]) (use new(2,4) in auto)
  ultimately show ?thesis
    using new by (simp add: state_ok_def pointer_ok_def)
qed

lemma step_copy:
  assumes "state_ok made (hp, ps)" "i < length ps"
  shows "\<exists>st'. ptr_step (Copy i) (hp, ps) = Some st' \<and> state_ok made st'"
proof -
  have ok: "heap_ok made (owners ps) hp" "list_all (pointer_ok hp) ps"
    using assms(1) by (simp_all add: state_ok_def)
  obtain hp' where copy: "copy_ptr (ps ! i) hp = Some (ps ! i, hp')"
      "heap_ok made (\<lambda>a. owners ps a + owns (ps ! i) a) hp'" "members hp' = members hp"
    using copy_ok [OF ok(1) owns_le [OF assms(2)]] by blast
  have "owners (ps @ [ps ! i]) = (\<lambda>a. owners ps a + owns (ps ! i) a)"
    by (intro ext) simp
  moreover have "list_all (pointer_ok hp') (ps @ [ps ! i])"
    using ok(2) pointers_nth [OF ok(2) assms(2)] pointer_kept [OF copy(3)] by (simp add: list_all_iff)
  ultimately show ?thesis
    using copy by (simp add: state_ok_def)
qed

lemma step_move:
  assumes "state_ok made (hp, ps)" "i < length ps"
  shows "\<exists>st'. ptr_step (Move i) (hp, ps) = Some st' \<and> state_ok made st'"
proof -
  let ?null = "\<lparr>ptrs = [], cntrl = None\<rparr>"
  have ok: "heap_ok made (owners ps) hp" "list_all (pointer_ok hp) ps"
    using assms(1) by (simp_all add: state_ok_def)
  have "owners (ps[i := ?null] @ [ps ! i]) = owners ps"
    using owners_nth [OF assms(2)] by (intro ext) (simp add: owns_def)
  moreover have "list_all (pointer_ok hp) (ps[i := ?null] @ [ps ! i])"
    using pointers_update [OF ok(2), of ?null] pointers_nth [OF ok(2) assms(2)] by (simp add: pointer_ok_def)
  ultimately show ?thesis
    using ok(1) by (simp add: state_ok_def move_ptr_def)
qed

text \<open>A pointer that takes the place of another: the owners change by both.\<close>

lemma step_replace:
  assumes "heap_ok made (\<lambda>a. owners ps a + owns q a) hp" "list_all (pointer_ok hp) ps" "pointer_ok hp q" "i < length ps"
  shows "\<exists>hp'. destroy_ptr (ps ! i) hp = Some hp' \<and> state_ok made (hp', ps[i := q])"
proof -
  have le: "owns (ps ! i) a \<le> owners ps a + owns q a" for a
    using owns_le [OF assms(4), of a] by simp
  obtain hp' where d: "destroy_ptr (ps ! i) hp = Some hp'"
      "heap_ok made (\<lambda>a. owners ps a + owns q a - owns (ps ! i) a) hp'"
      "\<forall>c. 0 < owners ps c + owns q c - owns (ps ! i) c \<longrightarrow> members hp' c = members hp c"
    using destroy_ok [OF assms(1) le] by blast
  have own: "owners ps a + owns q a - owns (ps ! i) a = owners (ps[i := q]) a" for a
    using owners_nth(1) [OF assms(4), of a] owners_nth(2) [OF assms(4), of q a] by simp
  have "list_all (pointer_ok hp) (ps[i := q])"
    by (rule pointers_update [OF assms(2,3)])
  then have "list_all (pointer_ok hp') (ps[i := q])"
    by (rule pointers_kept) (use d(3) in \<open>simp add: own\<close>)
  then show ?thesis
    using d(1,2) by (simp add: state_ok_def own)
qed

lemma step_assign:
  assumes "state_ok made (hp, ps)" "i < length ps" "j < length ps"
  shows "\<exists>st'. ptr_step (Assign i j) (hp, ps) = Some st' \<and> state_ok made st'"
proof -
  have ok: "heap_ok made (owners ps) hp" "list_all (pointer_ok hp) ps"
    using assms(1) by (simp_all add: state_ok_def)
  obtain hp' where copy: "copy_ptr (ps ! j) hp = Some (ps ! j, hp')"
      "heap_ok made (\<lambda>a. owners ps a + owns (ps ! j) a) hp'" "members hp' = members hp"
    using copy_ok [OF ok(1) owns_le [OF assms(3)]] by blast
  have "list_all (pointer_ok hp') ps" "pointer_ok hp' (ps ! j)"
    using ok(2) pointers_nth [OF ok(2) assms(3)] pointer_kept [OF copy(3)] by (simp_all add: list_all_iff)
  then show ?thesis
    using step_replace [OF copy(2) _ _ assms(2)] copy(1) by (fastforce simp: assign_ptr_def)
qed

lemma step_reset:
  assumes "state_ok made (hp, ps)" "i < length ps"
  shows "\<exists>st'. ptr_step (Reset i) (hp, ps) = Some st' \<and> state_ok made st'"
proof -
  have "(\<lambda>a. owners ps a + owns null_ptr a) = owners ps"
    by (intro ext) (simp add: owns_def null_ptr_def)
  moreover have "pointer_ok hp null_ptr"
    by (simp add: pointer_ok_def null_ptr_def)
  ultimately show ?thesis
    using assms step_replace [of made ps null_ptr hp i] by (auto simp: state_ok_def reset_ptr_def)
qed

lemma step_destroy:
  assumes "state_ok made (hp, ps)" "i < length ps"
  shows "\<exists>st'. ptr_step (Destroy i) (hp, ps) = Some st' \<and> state_ok made st'"
proof -
  let ?ps = "take i ps @ drop (Suc i) ps"
  have ok: "heap_ok made (owners ps) hp" "list_all (pointer_ok hp) ps"
    using assms(1) by (simp_all add: state_ok_def)
  obtain hp' where d: "destroy_ptr (ps ! i) hp = Some hp'" "heap_ok made (\<lambda>a. owners ps a - owns (ps ! i) a) hp'"
      "\<forall>c. 0 < owners ps c - owns (ps ! i) c \<longrightarrow> members hp' c = members hp c"
    using destroy_ok [OF ok(1) owns_le [OF assms(2)]] by blast
  have own: "owners ps a - owns (ps ! i) a = owners ?ps a" for a
    using owners_nth(1) [OF assms(2), of a] by simp
  have "list_all (pointer_ok hp) ?ps"
    using ok(2) by (auto simp: list_all_iff dest: in_set_takeD in_set_dropD)
  then have "list_all (pointer_ok hp') ?ps"
    by (rule pointers_kept) (use d(3) in \<open>simp only: own\<close>)
  moreover have "(\<lambda>a. owners ps a - owns (ps ! i) a) = owners ?ps"
    by (intro ext) (rule own)
  ultimately show ?thesis
    using d(1,2) by (simp add: state_ok_def)
qed

lemma step_element:
  assumes "state_ok made (hp, ps)" "0 < owners ps a" "x \<in> members hp a"
  shows "\<exists>p hp'. element_ptr x (Some a) hp = Some (p, hp') \<and> state_ok made (hp', ps @ [p])"
proof -
  have ok: "heap_ok made (owners ps) hp" "list_all (pointer_ok hp) ps"
    using assms(1) by (simp_all add: state_ok_def)
  obtain p hp' where e: "element_ptr x (Some a) hp = Some (p, hp')" "heap_ok made (\<lambda>c. owners ps c + owns p c) hp'"
      "members hp' = members hp" "pointer_ok hp p"
    using element_ok [OF ok(1) assms(2,3)] by blast
  moreover have "owners (ps @ [p]) = (\<lambda>c. owners ps c + owns p c)"
    by (intro ext) simp
  moreover have "pointer_ok hp' q = pointer_ok hp q" for q
    by (rule pointer_kept [OF e(3)])
  ultimately show ?thesis
    using ok(2) by (auto simp: state_ok_def list_all_iff)
qed

lemma step_ok:
  assumes "state_ok made st" "op_ok made st op"
  shows "\<exists>st'. ptr_step op st = Some st' \<and> state_ok (made \<union> made_by op) st'"
proof -
  obtain hp ps where st: "st = (hp, ps)"
    by (cases st)
  note ok = assms(1) [unfolded st]
  have heap: "heap_ok made (owners ps) hp" "list_all (pointer_ok hp) ps"
    using ok by (simp_all add: state_ok_def)
  show ?thesis
  proof (cases op)
    case (Make xs)
    then show ?thesis
      using step_make [OF ok] assms(2) st by simp
  next
    case (Element i n)
    then have i: "i < length ps" "n < length (ptrs (ps ! i))"
      using assms(2) st by simp_all
    obtain a where a: "cntrl (ps ! i) = Some a"
      using assms(2) st Element by auto
    have "ptrs (ps ! i) ! n \<in> members hp a"
      using pointers_nth [OF heap(2) i(1)] a i(2) by (auto simp: pointer_ok_def)
    moreover have "0 < owners ps a"
      using owns_le [OF i(1), of a] a by (simp add: owns_def)
    ultimately obtain p hp' where "element_ptr (ptrs (ps ! i) ! n) (Some a) hp = Some (p, hp')"
        "state_ok made (hp', ps @ [p])"
      using step_element [OF ok] by blast
    then show ?thesis
      using a st Element by (simp add: get_ptr_def)
  next
    case (This x)
    show ?thesis
    proof (cases "base_cntrl hp x")
      case None
      then show ?thesis
        using ok st This by (simp add: shared_from_this_def)
    next
      case (Some a)
      then have x: "x \<in> members hp a"
        using heap(1) assms(2) st This by (auto simp: heap_ok_def places_ok_def)
      then obtain b where b: "blocks hp a = Some b"
        by (auto simp: members_def split: option.splits)
      have "block_ok hp a b (owners ps a)"
        using heap(1) counts_okD(1) b by (auto simp: heap_ok_def)
      then have pos: "0 < owners ps a" "use_count b \<noteq> 0"
        by (auto simp: block_ok_def)
      obtain p hp' where e: "element_ptr x (Some a) hp = Some (p, hp')" "state_ok made (hp', ps @ [p])"
        using step_element [OF ok pos(1) x] by blast
      then show ?thesis
        using Some b pos(2) st This by (simp add: shared_from_this_def)
    qed
  qed (use step_copy [OF ok] step_move [OF ok] step_assign [OF ok] step_reset [OF ok] step_destroy [OF ok] assms(2) st
      in simp_all)
qed

lemma empty_ok: "state_ok {} (empty_heap, [])"
  by (simp add: state_ok_def heap_ok_def counts_ok_def places_ok_def empty_heap_def members_def)

lemma ptr_reach_ok: "ptr_reach made st \<Longrightarrow> state_ok made st"
proof (induction rule: ptr_reach.induct)
  case start
  show ?case
    by (rule empty_ok)
next
  case (step made st op st')
  then show ?case
    using step_ok [of made st op] by simp
qed

section \<open>Properties\<close>

text \<open>
  C24: The pointers are safe.  Whatever a program does with them, in any order, no operation touches a control block that
  was freed: copies, moves, assignments (to itself too), resets, destructions, pointers to an element, and
  \<open>shared_from_this\<close> of an object that is alive.
\<close>

theorem pointers_safe:
  assumes "ptr_reach made st" "op_ok made st op"
  shows "ptr_step op st \<noteq> None"
  using step_ok [OF ptr_reach_ok [OF assms(1)] assms(2)] by auto

text \<open>
  C25: The objects of a tuple live exactly as long as there is a pointer to the tuple or to one of them: the block of a
  pointer exists and counts exactly the pointers that share it; what a pointer points to is not destroyed; no object is
  destroyed twice and no block freed twice.
\<close>

theorem objects_live_while_owned:
  assumes "ptr_reach made (hp, ps)"
  shows "list_all (\<lambda>p. case cntrl p of None \<Rightarrow> True
      | Some a \<Rightarrow> map_option use_count (blocks hp a) = Some (int (length (filter (\<lambda>q. cntrl q = Some a) ps))) \<and>
          set (ptrs p) \<inter> set (destroyed hp) = {}) ps \<and>
    distinct (destroyed hp) \<and> distinct (freed hp) \<and> set (destroyed hp) \<subseteq> made"
proof -
  have heap: "counts_ok (owners ps) hp" "places_ok made hp" "list_all (pointer_ok hp) ps"
    using ptr_reach_ok [OF assms] by (simp_all add: state_ok_def heap_ok_def)
  have "map_option use_count (blocks hp a) = Some (int (owners ps a)) \<and> set (ptrs p) \<inter> set (destroyed hp) = {}"
    if "p \<in> set ps" "cntrl p = Some a" for p a
  proof -
    have "0 < owners ps a"
      using that by (auto simp: owners_def filter_empty_conv)
    then obtain b where b: "blocks hp a = Some b"
      using counts_okD(3) [OF heap(1)] by blast
    have "pointer_ok hp p"
      using heap(3) that(1) by (simp add: list_all_iff)
    then have "set (ptrs p) \<subseteq> members hp a"
      using that(2) by (simp add: pointer_ok_def)
    moreover have "set (destroyed hp) \<inter> members hp a = {}"
      using heap(2) by (simp add: places_ok_def)
    ultimately show ?thesis
      using counts_okD(1) [OF heap(1) b] b by (auto simp: block_ok_def)
  qed
  then show ?thesis
    using heap(2) by (auto simp: list_all_iff owners_def places_ok_def split: option.split)
qed

text \<open>
  C26: Nothing leaks: when no pointer is left but null pointers, every object that was put into a tuple is destroyed and
  every control block is freed.
\<close>

theorem nothing_leaks:
  assumes "ptr_reach made (hp, ps)" "list_all (\<lambda>p. cntrl p = None) ps"
  shows "set (destroyed hp) = made \<and> set (freed hp) = {..<next_block hp}"
proof -
  have heap: "counts_ok (owners ps) hp" "places_ok made hp"
    using ptr_reach_ok [OF assms(1)] by (simp_all add: state_ok_def heap_ok_def)
  have "owners ps a = 0" for a
    using assms(2) by (auto simp: owners_def list_all_iff filter_empty_conv)
  then have none: "blocks hp a = None" for a
    using counts_okD(1) [OF heap(1), of a] by (cases "blocks hp a") (auto simp: block_ok_def)
  then have "members hp a = {}" for a
    by (simp add: members_def)
  then show ?thesis
    using heap(2) none by (auto simp: places_ok_def)
qed

text \<open>An example: a tuple of two objects, the second with a base, a second pointer from it, and then the end.\<close>

definition example_shared :: "heap \<times> tuple_ptr list" where
  "example_shared =
    (\<lparr>blocks = [0 \<mapsto> \<lparr>shared_owners = 1, shared_weak_owners = 1, block_objects = [(1, False), (2, True)]\<rparr>],
      next_block = 1, base_cntrl = [2 \<mapsto> 0], destroyed = [], freed = []\<rparr>,
     [\<lparr>ptrs = [1, 2], cntrl = Some 0\<rparr>, \<lparr>ptrs = [2], cntrl = Some 0\<rparr>])"

definition example_over :: "heap \<times> tuple_ptr list" where
  "example_over =
    (\<lparr>blocks = Map.empty, next_block = 1, base_cntrl = [2 \<mapsto> 0], destroyed = [1, 2], freed = [0]\<rparr>, [])"

lemma example_shared_reach: "ptr_reach {1, 2} example_shared"
proof -
  let ?one = "(\<lparr>blocks = [0 \<mapsto> \<lparr>shared_owners = 0, shared_weak_owners = 1, block_objects = [(1, False), (2, True)]\<rparr>],
      next_block = 1, base_cntrl = [2 \<mapsto> 0], destroyed = [], freed = []\<rparr>,
     [\<lparr>ptrs = [1, 2], cntrl = Some 0\<rparr>])"
  have "ptr_reach ({} \<union> made_by (Make [(1, False), (2, True)])) ?one"
    by (rule ptr_reach.step [OF ptr_reach.start])
      (simp_all add: new_tuple_ptr_def empty_heap_def enable_weak_this_def add_weak_def Let_def)
  then have one: "ptr_reach {1, 2} ?one"
    by (simp add: insert_commute)
  have "ptr_reach ({1, 2} \<union> made_by (This 2)) example_shared"
    by (rule ptr_reach.step [OF one])
      (simp_all add: shared_from_this_def use_count_def element_ptr_def add_shared_def example_shared_def)
  then show ?thesis
    by simp
qed

lemma example_over_reach: "ptr_reach {1, 2} example_over"
proof -
  let ?one = "(\<lparr>blocks = [0 \<mapsto> \<lparr>shared_owners = 0, shared_weak_owners = 1, block_objects = [(1, False), (2, True)]\<rparr>],
      next_block = 1, base_cntrl = [2 \<mapsto> 0], destroyed = [], freed = []\<rparr>,
     [\<lparr>ptrs = [2], cntrl = Some 0\<rparr>])"
  note defs = destroy_ptr_def release_shared_def count_release_shared_def on_zero_shared_def destroy_object_def
    release_weak_def on_zero_shared_weak_def
  have "ptr_reach ({1, 2} \<union> made_by (Destroy 0)) ?one"
    by (rule ptr_reach.step [OF example_shared_reach]) (simp_all add: example_shared_def defs)
  then have one: "ptr_reach {1, 2} ?one"
    by simp
  have "ptr_reach ({1, 2} \<union> made_by (Destroy 0)) example_over"
    by (rule ptr_reach.step [OF one]) (simp_all add: example_over_def defs)
  then show ?thesis
    by simp
qed

theorem pointers_safe_witness: "ptr_step (Assign 0 1) example_shared \<noteq> None"
  by (rule pointers_safe [OF example_shared_reach]) (simp add: example_shared_def)

theorem objects_live_while_owned_witness:
  "list_all (\<lambda>p. case cntrl p of None \<Rightarrow> True
      | Some a \<Rightarrow> map_option use_count (blocks (fst example_shared) a) =
            Some (int (length (filter (\<lambda>q. cntrl q = Some a) (snd example_shared)))) \<and>
          set (ptrs p) \<inter> set (destroyed (fst example_shared)) = {}) (snd example_shared) \<and>
    distinct (destroyed (fst example_shared)) \<and> distinct (freed (fst example_shared)) \<and>
    set (destroyed (fst example_shared)) \<subseteq> {1, 2}"
  by (rule objects_live_while_owned, unfold prod.collapse, rule example_shared_reach)

theorem nothing_leaks_witness:
  "set (destroyed (fst example_over)) = {1, 2} \<and> set (freed (fst example_over)) = {..<next_block (fst example_over)}"
  by (rule nothing_leaks [where ps = "snd example_over"], unfold prod.collapse, rule example_over_reach)
    (simp add: example_over_def)

end
