(* ===== verification/Layer_Stack.thy ===== *)
theory Layer_Stack
  imports Tuple_Ptr Connection_Pool
begin

text \<open>
  \<open>connection_pool.cpp\<close>, the layers of a connection: \<open>make_shared_stack\<close> allocates them, sets the plain pointers
  \<open>lower_layer\<close> and \<open>upper_layer\<close> by which they call each other, and puts them into one \<open>tuple_ptr\<close>.  The plain pointers
  keep nothing alive: that they never dangle is shown at the end.
\<close>

section \<open>Layers\<close>

text \<open>
  The classes with what their constructors are given: the shared data, a number, which holds the strand; the host and
  port; the host and the settings of the TLS layer.  All four derive from \<open>shared_tuple_base\<close>.  Constructors do not
  set the plain pointers: \<open>None\<close> is a pointer not set.
\<close>

datatype layer =
    Http_content nat host_port | Encoding | Http_client_connection nat | Tcp_socket nat
  | Ssl_socket nat "char list" ssl_settings

record layers =
  pointers :: heap
  layer_of :: "nat \<Rightarrow> layer option"
  lower_layer :: "nat \<Rightarrow> nat option"
  upper_layer :: "nat \<Rightarrow> nat option"
  next_object :: nat
  next_shared :: nat

definition no_layers :: layers where
  "no_layers = \<lparr>pointers = empty_heap, layer_of = (\<lambda>_. None), lower_layer = (\<lambda>_. None), upper_layer = (\<lambda>_. None),
     next_object = 0, next_shared = 0\<rparr>"

fun drop_first :: "nat list \<Rightarrow> nat list" where
  "drop_first (X # Xs) = Xs"
| "drop_first [] = []"

definition drop_last :: "nat list \<Rightarrow> nat list" where
  "drop_last Xs = map (\<lambda>i. Xs ! i) [0..<length Xs - 1]"

text \<open>A fold expression over a sequence of indices; a step through a null pointer is \<open>None\<close>.\<close>

primrec each :: "('i \<Rightarrow> 's \<Rightarrow> 's option) \<Rightarrow> 'i list \<Rightarrow> 's \<Rightarrow> 's option" where
  "each f [] s = Some s"
| "each f (i # is) s = Option.bind (f i s) (each f is)"

text \<open>The unique pointers \<open>us\<close> are null at first; each is set once.\<close>

definition new_layer :: "layer list \<Rightarrow> nat \<Rightarrow> nat option list \<times> layers \<Rightarrow> (nat option list \<times> layers) option" where
  "new_layer args i s =
    (let us = fst s; L = snd s; x = next_object L in
     Some (us[i := Some x], L\<lparr>layer_of := (layer_of L)(x \<mapsto> args ! i), next_object := x + 1\<rparr>))"

definition set_lower :: "nat option list \<Rightarrow> nat \<Rightarrow> layers \<Rightarrow> layers option" where
  "set_lower us j L = map_option (\<lambda>x. L\<lparr>lower_layer := (lower_layer L)(x := us ! (j + 1))\<rparr>) (us ! j)"

definition set_upper :: "nat option list \<Rightarrow> nat \<Rightarrow> layers \<Rightarrow> layers option" where
  "set_upper us i L = map_option (\<lambda>x. L\<lparr>upper_layer := (upper_layer L)(x := us ! (i - 1))\<rparr>) (us ! i)"

definition connect_layers :: "nat list \<Rightarrow> nat list \<Rightarrow> nat option list \<Rightarrow> layers \<Rightarrow> layers option" where
  "connect_layers is js us L = Option.bind (each (set_lower us) js L) (each (set_upper us) is)"

text \<open>In the end the unique pointers are released: none of them deletes a layer.\<close>

definition allocate_layers :: "layer list \<Rightarrow> nat list \<Rightarrow> layers \<Rightarrow> (tuple_ptr \<times> layers) option" where
  "allocate_layers args is L =
    Option.bind (each (new_layer args) is (replicate (length args) None, L)) (\<lambda>(us, L).
    Option.bind (connect_layers (drop_first is) (drop_last is) us L) (\<lambda>L.
    Option.bind (those us) (\<lambda>xs.
    map_option (\<lambda>(p, hp). (p, L\<lparr>pointers := hp\<rparr>)) (new_tuple_ptr (map (\<lambda>x. (x, True)) xs) (pointers L)))))"

definition make_shared_stack :: "layer list \<Rightarrow> layers \<Rightarrow> (tuple_ptr \<times> layers) option" where
  "make_shared_stack args L = allocate_layers args [0..<length args] L"

text \<open>
  \<open>create_stack\<close>: the pointer to the first layer is moved into the result; what is left of it, and the pointer to the
  tuple, are destroyed.
\<close>

definition stack_layers :: "url \<Rightarrow> ssl_settings \<Rightarrow> nat \<Rightarrow> layer list" where
  "stack_layers u ssl s =
    (if protocol u = ''https''
     then [Http_content s (host u, port u), Encoding, Http_client_connection s, Ssl_socket s (host u) ssl]
     else [Http_content s (host u, port u), Encoding, Http_client_connection s, Tcp_socket s])"

definition create_layers :: "url \<Rightarrow> ssl_settings \<Rightarrow> layers \<Rightarrow> (tuple_ptr \<times> layers) option" where
  "create_layers u ssl L =
    (let s = next_shared L in
     Option.bind (make_shared_stack (stack_layers u ssl s) (L\<lparr>next_shared := s + 1\<rparr>)) (\<lambda>(stack, L).
     Option.bind (get_ptr 0 stack (pointers L)) (\<lambda>(p, hp).
     Option.bind (destroy_ptr (snd (move_ptr p)) hp) (\<lambda>hp.
     map_option (\<lambda>hp. (fst (move_ptr p), L\<lparr>pointers := hp\<rparr>)) (destroy_ptr stack hp)))))"

section \<open>Programs\<close>

text \<open>A program makes connections and does with the pointers to them, and to their layers, what it likes.\<close>

inductive layer_reach :: "layers \<times> tuple_ptr list \<Rightarrow> bool" where
  start: "layer_reach (no_layers, [])"
| create: "layer_reach (L, ps) \<Longrightarrow> create_layers u ssl L = Some (h, L') \<Longrightarrow> layer_reach (L', ps @ [h])"
| use: "layer_reach (L, ps) \<Longrightarrow> \<not> (\<exists>xs. op = Make xs) \<Longrightarrow> op_ok {} (pointers L, ps) op \<Longrightarrow>
    ptr_step op (pointers L, ps) = Some (hp, ps') \<Longrightarrow> layer_reach (L\<lparr>pointers := hp\<rparr>, ps')"

text \<open>
  A whole stack: the four layers in order, with one shared data and the host of the connection, each pointing to its
  neighbours.
\<close>

fun layer_row :: "layer option list \<Rightarrow> bool" where
  "layer_row [Some (Http_content s hp), Some Encoding, Some (Http_client_connection t), Some (Tcp_socket v)] \<longleftrightarrow>
     t = s \<and> v = s"
| "layer_row [Some (Http_content s hp), Some Encoding, Some (Http_client_connection t), Some (Ssl_socket v h ssl)] \<longleftrightarrow>
     t = s \<and> v = s \<and> h = fst hp"
| "layer_row ls \<longleftrightarrow> False"

definition linked :: "layers \<Rightarrow> nat list \<Rightarrow> bool" where
  "linked L xs \<longleftrightarrow> layer_row (map (layer_of L) xs) \<and> map (lower_layer L) (butlast xs) = map Some (tl xs) \<and>
     map (upper_layer L) (tl xs) = map Some (butlast xs)"

section \<open>What the operations keep\<close>

text \<open>No operation but \<open>Make\<close> adds a block or changes which objects it has.\<close>

definition blocks_kept :: "heap \<Rightarrow> heap \<Rightarrow> bool" where
  "blocks_kept hp hp' \<longleftrightarrow>
    (\<forall>a b'. blocks hp' a = Some b' \<longrightarrow> (\<exists>b. blocks hp a = Some b \<and> block_objects b' = block_objects b))"

lemma blocks_kept_refl [simp]: "blocks_kept hp hp"
  by (simp add: blocks_kept_def)

lemma blocks_kept_trans: "blocks_kept hp hp' \<Longrightarrow> blocks_kept hp' hp'' \<Longrightarrow> blocks_kept hp hp''"
  unfolding blocks_kept_def by metis

lemma add_kept: "add_shared a hp = Some hp' \<Longrightarrow> blocks_kept hp hp'" "add_weak a hp = Some hp' \<Longrightarrow> blocks_kept hp hp'"
  by (auto simp: add_shared_def add_weak_def blocks_kept_def split: option.splits if_splits)

lemma release_weak_kept: "release_weak a hp = Some hp' \<Longrightarrow> blocks_kept hp hp'"
  by (auto simp: release_weak_def on_zero_shared_weak_def blocks_kept_def Let_def split: option.splits if_splits)

lemma destroy_objects_kept: "destroy_objects xs hp = Some hp' \<Longrightarrow> blocks_kept hp hp'"
proof (induction xs arbitrary: hp)
  case (Cons x xs)
  then obtain hp1 where hp1: "destroy_object x hp = Some hp1" "destroy_objects xs hp1 = Some hp'"
    by (auto split: bind_splits)
  have "blocks_kept (hp\<lparr>destroyed := destroyed hp @ [fst x]\<rparr>) hp1"
    using hp1(1) by (auto simp: destroy_object_def Let_def dest: release_weak_kept split: if_splits option.splits)
  then have "blocks_kept hp hp1"
    by (simp add: blocks_kept_def)
  then show ?case
    using Cons.IH [OF hp1(2)] by (rule blocks_kept_trans)
qed simp

lemma release_shared_kept:
  assumes "release_shared a hp = Some hp'"
  shows "blocks_kept hp hp'"
proof -
  obtain b where b: "blocks hp a = Some b"
    using assms by (auto simp: release_shared_def count_release_shared_def split: option.splits)
  let ?hp = "hp\<lparr>blocks := (blocks hp)(a \<mapsto> b\<lparr>shared_owners := shared_owners b - 1\<rparr>)\<rparr>"
  have one: "blocks_kept hp ?hp"
    using b by (simp add: blocks_kept_def)
  show ?thesis
  proof (cases "shared_owners b = 0")
    case True
    then obtain hp1 where hp1: "destroy_objects (block_objects b) ?hp = Some hp1" "release_weak a hp1 = Some hp'"
      using assms b
      by (auto simp: release_shared_def count_release_shared_def on_zero_shared_def split: option.splits)
    show ?thesis
      using one destroy_objects_kept [OF hp1(1)] release_weak_kept [OF hp1(2)] blocks_kept_trans by blast
  next
    case False
    then show ?thesis
      using assms b one by (simp add: release_shared_def count_release_shared_def)
  qed
qed

lemma pointer_ops_kept:
  "copy_ptr p hp = Some (q, hp') \<Longrightarrow> blocks_kept hp hp'" "destroy_ptr p hp = Some hp' \<Longrightarrow> blocks_kept hp hp'"
  "element_ptr x c hp = Some (q, hp') \<Longrightarrow> blocks_kept hp hp'"
  by (auto simp: copy_ptr_def destroy_ptr_def element_ptr_def dest: add_kept release_shared_kept split: option.splits)

lemma ptr_step_kept:
  assumes "ptr_step op (hp, ps) = Some (hp', ps')" "\<not> (\<exists>xs. op = Make xs)"
  shows "blocks_kept hp hp'"
proof (cases op)
  case (Assign i j)
  then show ?thesis
    using assms by (auto simp: assign_ptr_def dest: pointer_ops_kept intro: blocks_kept_trans split: bind_splits)
next
  case (This x)
  then show ?thesis
    using assms
    by (auto simp: shared_from_this_def dest: pointer_ops_kept split: option.splits if_splits)
qed (use assms in \<open>auto simp: reset_ptr_def get_ptr_def dest: pointer_ops_kept\<close>)

text \<open>Making a tuple adds one block, with the objects it is given.\<close>

lemma enable_all_kept: "enable_all a xs hp = Some hp' \<Longrightarrow> blocks_kept hp hp'"
proof (induction xs arbitrary: hp)
  case (Cons x xs)
  then obtain hp1 where hp1: "enable_weak_this a x hp = Some hp1" "enable_all a xs hp1 = Some hp'"
    by (auto split: bind_splits)
  have "blocks_kept (hp\<lparr>base_cntrl := (base_cntrl hp)(fst x := Some a)\<rparr>) hp1 \<or> hp1 = hp"
    using hp1(1) by (auto simp: enable_weak_this_def Let_def dest: add_kept split: if_splits option.splits)
  then have "blocks_kept hp hp1"
    by (auto simp: blocks_kept_def)
  then show ?case
    using Cons.IH [OF hp1(2)] by (rule blocks_kept_trans)
qed simp

lemma new_tuple_blocks:
  assumes "new_tuple_ptr xs hp = Some (p, hp')" "blocks hp' a = Some b"
  shows "block_objects b = xs \<or> (\<exists>b'. blocks hp a = Some b' \<and> block_objects b = block_objects b')"
proof -
  let ?hp = "hp\<lparr>blocks := (blocks hp)(next_block hp \<mapsto>
      \<lparr>shared_owners = 0, shared_weak_owners = 0, block_objects = xs\<rparr>), next_block := next_block hp + 1\<rparr>"
  have "blocks_kept ?hp hp'"
    using assms(1) by (auto simp: new_tuple_ptr_def Let_def dest: enable_all_kept)
  then show ?thesis
    using assms(2) by (auto simp: blocks_kept_def split: if_splits)
qed

section \<open>The invariant\<close>

definition layers_ok :: "layers \<Rightarrow> tuple_ptr list \<Rightarrow> bool" where
  "layers_ok L ps \<longleftrightarrow> state_ok {..<next_object L} (pointers L, ps) \<and>
    (\<forall>a b. blocks (pointers L) a = Some b \<longrightarrow> (\<exists>xs. block_objects b = map (\<lambda>x. (x, True)) xs \<and> linked L xs))"

lemma linked_kept:
  assumes "linked L xs" "\<And>x. x \<in> set xs \<Longrightarrow> layer_of L' x = layer_of L x \<and> lower_layer L' x = lower_layer L x \<and>
    upper_layer L' x = upper_layer L x"
  shows "linked L' xs"
proof -
  have eqs: "map (layer_of L') xs = map (layer_of L) xs"
      "map (lower_layer L') (butlast xs) = map (lower_layer L) (butlast xs)"
      "map (upper_layer L') (tl xs) = map (upper_layer L) (tl xs)"
    using assms(2) by (cases xs; auto dest: in_set_butlastD)+
  show ?thesis
    using assms(1) unfolding linked_def eqs .
qed

definition with_stack :: "layer list \<Rightarrow> layers \<Rightarrow> layers" where
  "with_stack args L = (let n = next_object L in
     L\<lparr>layer_of := (layer_of L)(n \<mapsto> args ! 0, n + 1 \<mapsto> args ! 1, n + 2 \<mapsto> args ! 2, n + 3 \<mapsto> args ! 3),
       next_object := n + 4, lower_layer := (lower_layer L)(n \<mapsto> n + 1, n + 1 \<mapsto> n + 2, n + 2 \<mapsto> n + 3),
       upper_layer := (upper_layer L)(n + 1 \<mapsto> n, n + 2 \<mapsto> n + 1, n + 3 \<mapsto> n + 2)\<rparr>)"

lemma make_shared_stack_four:
  assumes "length args = 4"
  shows "make_shared_stack args L = map_option (\<lambda>(p, hp). (p, (with_stack args L)\<lparr>pointers := hp\<rparr>))
    (new_tuple_ptr (map (\<lambda>x. (x, True)) [next_object L ..< next_object L + 4]) (pointers L))"
  by (simp add: make_shared_stack_def allocate_layers_def connect_layers_def drop_last_def set_lower_def set_upper_def
      new_layer_def with_stack_def Let_def assms upt_rec numeral_eq_Suc)

lemma linked_new:
  "linked (with_stack (stack_layers u ssl s) L) [next_object L ..< next_object L + 4]"
  by (simp add: linked_def with_stack_def stack_layers_def Let_def upt_rec numeral_eq_Suc)

lemma create_layers_ok:
  assumes "layers_ok L ps"
  shows "\<exists>h L'. create_layers u ssl L = Some (h, L') \<and> layers_ok L' (ps @ [h]) \<and>
    layer_of L' (hd (ptrs h)) = Some (Http_content (next_shared L) (host u, port u)) \<and> ptrs h = [next_object L] \<and>
    cntrl h \<noteq> None"
proof -
  let ?n = "next_object L"
  let ?args = "stack_layers u ssl (next_shared L)"
  let ?L = "with_stack ?args (L\<lparr>next_shared := next_shared L + 1\<rparr>)"
  let ?new = "[?n..<?n + 4]"
  let ?xs = "map (\<lambda>x. (x, True)) ?new"
  have heap: "heap_ok {..<?n} (owners ps) (pointers L)" "list_all (pointer_ok (pointers L)) ps"
    using assms by (simp_all add: layers_ok_def state_ok_def)
  have objs: "fst ` set ?xs = {?n..<?n + 4}"
    by force
  obtain a hp1 where t: "new_tuple_ptr ?xs (pointers L) = Some (\<lparr>ptrs = map fst ?xs, cntrl = Some a\<rparr>, hp1)" "owners ps a = 0"
      "heap_ok ({..<?n} \<union> fst ` set ?xs) ((owners ps)(a := 1)) hp1" "members hp1 = (members (pointers L))(a := fst ` set ?xs)"
    using new_tuple_ok [OF heap(1), of ?xs] by (force simp: o_def)
  let ?t = "\<lparr>ptrs = map fst ?xs, cntrl = Some a\<rparr>"
  obtain h hp2 where g: "element_ptr ?n (Some a) hp1 = Some (h, hp2)"
      "heap_ok ({..<?n} \<union> fst ` set ?xs) (\<lambda>c. ((owners ps)(a := 1)) c + owns h c) hp2" "members hp2 = members hp1"
    using element_ok [OF t(3), of a ?n] t(4) objs by auto
  have h: "h = \<lparr>ptrs = [?n], cntrl = Some a\<rparr>"
    using g(1) by (simp add: element_ptr_def)
  have le: "owns ?t c \<le> ((owners ps)(a := 1)) c + owns h c" for c
    by (simp add: owns_def)
  obtain hp3 where d: "destroy_ptr ?t hp2 = Some hp3"
      "heap_ok ({..<?n} \<union> fst ` set ?xs) (\<lambda>c. ((owners ps)(a := 1)) c + owns h c - owns ?t c) hp3"
      "\<forall>c. 0 < ((owners ps)(a := 1)) c + owns h c - owns ?t c \<longrightarrow> members hp3 c = members hp2 c"
    using destroy_ok [OF g(2), of ?t] le by blast
  have run: "create_layers u ssl L = Some (h, ?L\<lparr>pointers := hp3\<rparr>)"
    using t(1) g(1) d(1)
    by (simp add: create_layers_def make_shared_stack_four stack_layers_def Let_def get_ptr_def move_ptr_def
        destroy_ptr_def upt_rec numeral_eq_Suc o_def)
  have own: "((owners ps)(a := 1)) c + owns h c - owns ?t c = owners (ps @ [h]) c" for c
    using t(2) by (simp add: owns_def h)
  have "{..<?n} \<union> fst ` set ?xs = {..<?n + 4}"
    unfolding objs by auto
  moreover have "list_all (pointer_ok hp3) ps"
    by (rule pointers_kept [OF heap(2)]) (use d(3) g(3) t(2,4) own in \<open>auto simp: owns_def h\<close>)
  moreover have "pointer_ok hp3 h"
    using d(3) g(3) t(4) objs by (simp add: pointer_ok_def h owns_def)
  moreover have "(\<lambda>c. owners ps c + owns h c) = owners (ps @ [h])"
    by (intro ext) simp
  ultimately have ok: "state_ok {..<?n + 4} (hp3, ps @ [h])"
    using d(2) own by (simp add: state_ok_def)
  have "blocks_kept hp1 hp3"
    using g(1) d(1) by (meson pointer_ops_kept blocks_kept_trans)
  have "\<exists>xs. block_objects b = map (\<lambda>x. (x, True)) xs \<and> linked ?L xs" if b: "blocks hp3 c = Some b" for b c
  proof -
    obtain b1 where "blocks hp1 c = Some b1" "block_objects b = block_objects b1"
      using \<open>blocks_kept hp1 hp3\<close> b by (auto simp: blocks_kept_def)
    then consider "block_objects b = ?xs"
      | b0 where "blocks (pointers L) c = Some b0" "block_objects b = block_objects b0"
      using new_tuple_blocks [OF t(1)] by metis
    then show ?thesis
    proof cases
      case 1
      then show ?thesis
        using linked_new [of u ssl "next_shared L" "L\<lparr>next_shared := next_shared L + 1\<rparr>"] by auto
    next
      case 2
      obtain xs where xs: "block_objects b0 = map (\<lambda>x. (x, True)) xs" "linked L xs"
        using assms 2(1) by (auto simp: layers_ok_def)
      have "members (pointers L) c \<subseteq> {..<?n}"
        using heap(1) by (auto simp: heap_ok_def places_ok_def)
      then have "set xs \<subseteq> {..<?n}"
        using 2(1) xs(1) by (simp add: members_def image_image)
      then have "linked ?L xs"
        by (intro linked_kept [OF xs(2)]) (auto simp: with_stack_def Let_def)
      then show ?thesis
        using 2(2) xs(1) by auto
    qed
  qed
  then have "layers_ok (?L\<lparr>pointers := hp3\<rparr>) (ps @ [h])"
    using ok by (auto simp: layers_ok_def with_stack_def linked_def Let_def)
  then show ?thesis
    using run h by (auto simp: with_stack_def stack_layers_def Let_def)
qed

lemma use_ok:
  assumes "layers_ok L ps" "op_ok {} (pointers L, ps) op" "\<not> (\<exists>xs. op = Make xs)"
    "ptr_step op (pointers L, ps) = Some (hp, ps')"
  shows "layers_ok (L\<lparr>pointers := hp\<rparr>) ps'"
proof -
  let ?made = "{..<next_object L}"
  have "op_ok ?made (pointers L, ps) op" "made_by op = {}"
    using assms(2,3) by (cases op; simp)+
  then have "state_ok ?made (hp, ps')"
    using step_ok [of ?made "(pointers L, ps)" op] assms(1,4) by (simp add: layers_ok_def)
  moreover have "blocks_kept (pointers L) hp"
    using ptr_step_kept [OF assms(4,3)] .
  ultimately show ?thesis
    using assms(1) unfolding layers_ok_def blocks_kept_def linked_def by simp metis
qed

lemma layer_reach_ok: "layer_reach st \<Longrightarrow> layers_ok (fst st) (snd st)"
proof (induction rule: layer_reach.induct)
  case start
  show ?case
    using empty_ok by (simp add: layers_ok_def no_layers_def) (simp add: empty_heap_def)
next
  case (create L ps u ssl h L')
  then show ?case
    using create_layers_ok [of L ps u ssl] by auto
next
  case (use L ps op hp ps')
  then show ?case
    using use_ok by simp
qed

section \<open>Properties\<close>

text \<open>
  C27: Wherever the pointers to a connection and to its layers go, a layer that is pointed to belongs to a whole stack:
  its four layers, in the order of the code, with one shared data and the host of the connection, are all alive, and the
  plain pointers of each point to its neighbours.  So no call from layer to layer goes through a pointer that dangles
  or was not set.
\<close>

theorem layers_linked:
  assumes "layer_reach (L, ps)" "p \<in> set ps" "cntrl p \<noteq> None" "x \<in> set (ptrs p)"
  shows "\<exists>xs. x \<in> set xs \<and> linked L xs \<and> set xs \<inter> set (destroyed (pointers L)) = {}"
proof -
  have ok: "layers_ok L ps"
    using layer_reach_ok [OF assms(1)] by simp
  obtain a where a: "cntrl p = Some a"
    using assms(3) by blast
  have heap: "heap_ok {..<next_object L} (owners ps) (pointers L)" "list_all (pointer_ok (pointers L)) ps"
    using ok by (simp_all add: layers_ok_def state_ok_def)
  have "pointer_ok (pointers L) p"
    using heap(2) assms(2) by (simp add: list_all_iff)
  then have x: "x \<in> members (pointers L) a"
    using assms(4) a by (auto simp: pointer_ok_def)
  then obtain b where b: "blocks (pointers L) a = Some b"
    by (auto simp: members_def split: option.splits)
  then obtain xs where xs: "block_objects b = map (\<lambda>x. (x, True)) xs" "linked L xs"
    using ok by (auto simp: layers_ok_def)
  then have "set xs = members (pointers L) a"
    using b by (force simp: members_def)
  moreover have "set (destroyed (pointers L)) \<inter> members (pointers L) a = {}"
    using heap(1) by (simp add: heap_ok_def places_ok_def)
  ultimately show ?thesis
    using x xs(2) by (intro exI [of _ xs]) auto
qed

text \<open>
  An example: a connection with TLS, a pointer to its socket for a handler that is pending, and then the first pointer is
  dropped.
\<close>

definition example_url :: url where
  "example_url = \<lparr>protocol = ''https'', host = ''h'', port = 443, path = ''/'', query = []\<rparr>"

definition example_ssl :: ssl_settings where
  "example_ssl = \<lparr>client_private_key_file = [], client_certificate_file = [], certificate_authority_bundle_file = []\<rparr>"

definition example_heap :: heap where
  "example_heap = \<lparr>blocks = [0 \<mapsto> \<lparr>shared_owners = 0, shared_weak_owners = 4,
       block_objects = [(0, True), (1, True), (2, True), (3, True)]\<rparr>],
     next_block = 1, base_cntrl = [0 \<mapsto> 0, 1 \<mapsto> 0, 2 \<mapsto> 0, 3 \<mapsto> 0], destroyed = [], freed = []\<rparr>"

definition example_layers :: layers where
  "example_layers = (with_stack (stack_layers example_url example_ssl 0) (no_layers\<lparr>next_shared := 1\<rparr>))\<lparr>pointers := example_heap\<rparr>"

definition example_socket :: tuple_ptr where
  "example_socket = \<lparr>ptrs = [3], cntrl = Some 0\<rparr>"

lemma example_layers_reach: "layer_reach (example_layers, [example_socket])"
proof -
  note defs = destroy_ptr_def release_shared_def count_release_shared_def new_tuple_ptr_def empty_heap_def
    enable_weak_this_def add_weak_def add_shared_def element_ptr_def get_ptr_def move_ptr_def shared_from_this_def
    use_count_def Let_def
  let ?p = "\<lparr>ptrs = [0], cntrl = Some 0\<rparr>"
  let ?two = "example_heap\<lparr>blocks := [0 \<mapsto> \<lparr>shared_owners = 1, shared_weak_owners = 4,
       block_objects = [(0, True), (1, True), (2, True), (3, True)]\<rparr>]\<rparr>"
  have make: "create_layers example_url example_ssl no_layers = Some (?p, example_layers)"
    by (simp add: create_layers_def make_shared_stack_four stack_layers_def example_url_def example_layers_def with_stack_def
        no_layers_def example_heap_def upt_rec defs fun_upd_twist numeral_2_eq_2 numeral_3_eq_3)
  have one: "layer_reach (example_layers, [?p])"
    using layer_reach.create [OF layer_reach.start make] by simp
  have "layer_reach (example_layers\<lparr>pointers := ?two\<rparr>, [?p, example_socket])"
    by (rule layer_reach.use [OF one, of "This 3"])
      (simp_all add: example_layers_def example_heap_def example_socket_def defs)
  then have "layer_reach (example_layers\<lparr>pointers := ?two\<rparr>\<lparr>pointers := example_heap\<rparr>, [example_socket])"
    by (rule layer_reach.use [of _ _ "Destroy 0"])
      (simp_all add: example_layers_def example_heap_def example_socket_def defs)
  then show ?thesis
    by (simp add: example_layers_def)
qed

theorem layers_linked_witness:
  "\<exists>xs. 3 \<in> set xs \<and> linked example_layers xs \<and> set xs \<inter> set (destroyed (pointers example_layers)) = {}"
  by (rule layers_linked [OF example_layers_reach, of example_socket]) (simp_all add: example_socket_def)

end
