(* ===== verification/Coro_Handler.thy ===== *)
theory Coro_Handler
  imports Asio_Types
begin

text \<open>
  \<open>coro_handler.h\<close>: a request as something a coroutine awaits.  The completion handler and the awaiter share a
  record; the handler may be called before or after the coroutine suspends.  A coroutine handle is a number,
  and what the handler resumes is logged with the result it then finds.
\<close>

record shared_info =
  m_coro :: nat
  m_has_handle :: bool
  m_result :: http_request_result
  m_has_result :: bool
  resumed :: "(nat \<times> http_request_result) list"

text \<open>The handle and the result are not set by the constructor: \<open>junk\<close> is what they hold.\<close>

definition new_shared_info :: "nat \<times> http_request_result \<Rightarrow> shared_info" where
  "new_shared_info junk =
    \<lparr>m_coro = fst junk, m_has_handle = False, m_result = snd junk, m_has_result = False, resumed = []\<rparr>"

definition await_ready :: "shared_info \<Rightarrow> bool" where
  "await_ready s = m_has_result s"

definition await_resume :: "shared_info \<Rightarrow> http_request_result" where
  "await_resume s = m_result s"

definition await_suspend :: "nat \<Rightarrow> shared_info \<Rightarrow> shared_info" where
  "await_suspend coro s = s\<lparr>m_coro := coro, m_has_handle := True\<rparr>"

text \<open>\<open>completion_handler_type::operator()\<close>; resuming a coroutine makes it read the result.\<close>

definition completion_handler_call :: "http_request_result \<Rightarrow> shared_info \<Rightarrow> shared_info" where
  "completion_handler_call result s =
    (let s = s\<lparr>m_result := result\<rparr> in
     if m_has_handle s then s\<lparr>resumed := resumed s @ [(m_coro s, await_resume s)]\<rparr> else s)"

text \<open>\<open>co_await\<close>: goes on at once when the awaiter is ready, and suspends when it is not.\<close>

definition co_await :: "nat \<Rightarrow> shared_info \<Rightarrow> shared_info" where
  "co_await coro s =
    (if await_ready s then s\<lparr>resumed := resumed s @ [(coro, await_resume s)]\<rparr> else await_suspend coro s)"

datatype coro_event = Await nat | Complete http_request_result

primrec coro_step :: "coro_event \<Rightarrow> shared_info \<Rightarrow> shared_info" where
  "coro_step (Await coro) s = co_await coro s"
| "coro_step (Complete result) s = completion_handler_call result s"

definition awaits :: "coro_event list \<Rightarrow> nat list" where
  "awaits evs = concat (map (\<lambda>e. case e of Await coro \<Rightarrow> [coro] | _ \<Rightarrow> []) evs)"

lemma run_awaits:
  assumes "list_all (\<lambda>e. \<exists>coro. e = Await coro) evs" "\<not> m_has_result s"
  shows "fold coro_step evs s =
    (if awaits evs = [] then s else s\<lparr>m_coro := last (awaits evs), m_has_handle := True\<rparr>)"
  using assms
proof (induction evs arbitrary: s)
  case (Cons e evs)
  then obtain coro where e: "e = Await coro" "list_all (\<lambda>e. \<exists>coro. e = Await coro) evs"
    by auto
  then show ?case
    using Cons.IH [of "coro_step e s"] Cons.prems(2)
    by (simp add: co_await_def await_ready_def await_suspend_def awaits_def)
qed (simp add: awaits_def)

text \<open>
  C36: A coroutine that awaits a request is resumed, with the result, only when it suspends before the request is
  completed.  One that awaits after the completion suspends and is never resumed: the handler leaves
  \<open>m_has_result\<close> as it is, so the awaiter is never ready.
\<close>

theorem late_await_never_resumed:
  assumes "list_all (\<lambda>e. \<exists>coro. e = Await coro) (before @ later)"
  shows "resumed (fold coro_step (before @ [Complete result] @ later) (new_shared_info junk)) =
      (if awaits before = [] then [] else [(last (awaits before), result)]) \<and>
    \<not> await_ready (fold coro_step (before @ [Complete result] @ later) (new_shared_info junk))"
proof -
  have b: "list_all (\<lambda>e. \<exists>coro. e = Await coro) before" and l: "list_all (\<lambda>e. \<exists>coro. e = Await coro) later"
    using assms by simp_all
  let ?s = "fold coro_step before (new_shared_info junk)"
  have s: "\<not> m_has_result ?s" "resumed ?s = []" "m_has_handle ?s \<longleftrightarrow> awaits before \<noteq> []"
      "awaits before \<noteq> [] \<Longrightarrow> m_coro ?s = last (awaits before)"
    using run_awaits [OF b, of "new_shared_info junk"] by (auto simp: new_shared_info_def)
  let ?t = "completion_handler_call result ?s"
  have t: "\<not> m_has_result ?t" "resumed ?t = (if awaits before = [] then [] else [(last (awaits before), result)])"
    using s by (auto simp: completion_handler_call_def await_resume_def)
  show ?thesis
    using run_awaits [OF l t(1)] t by (simp add: await_ready_def)
qed

theorem late_await_never_resumed_witness:
  "resumed (fold coro_step ([] @ [Complete (error_result 0 No_error)] @ [Await 1]) (new_shared_info (0, error_result 0 eof))) =
      (if awaits [] = [] then [] else [(last (awaits []), error_result 0 No_error)]) \<and>
    \<not> await_ready (fold coro_step ([] @ [Complete (error_result 0 No_error)] @ [Await 1])
      (new_shared_info (0, error_result 0 eof)))"
  by (rule late_await_never_resumed) simp

end
