(* ===== verification/Spec2Isabelle.thy ===== *)
theory Spec2Isabelle
  imports Parser_Properties Url_Roundtrip Client_Exchange Layer_Stack Coro_Handler
begin

text \<open>
  \<^bold>\<open>The HTTP client library asio_http and the HTTP parser it embeds.\<close>

  \<^bold>\<open>The program.\<close>  An application calls \<open>http_client\<close>.  Its requests go to the \<open>request_manager\<close>, which runs on a
  strand of its own, keeps them in a container with three indices, starts the next one that waits as long as the
  settings allow, and retries, redirects, cancels or answers.  It takes connections from the
  \<open>connection_pool\<close> and gives them back.  A connection is a stack of four layers: \<open>http_content\<close> (timer, body
  source and sink, completion), \<open>encoding\<close> (which hands every call on), \<open>http_client_connection\<close> (printing of
  requests, callbacks of the parser) and a TCP or TLS socket; the layers are kept alive together by \<open>tuple_ptr\<close>.
  Responses are read by \<open>http_parser\<close>, a C state machine that is handed one buffer after the other.

  \<^bold>\<open>Theories.\<close>
  \<^item> \<open>Prelude\<close>, \<open>Numerals\<close>: bytes, C strings, parts of a buffer, flag words; numbers in text.
  \<^item> \<open>Http_Types\<close>, \<open>Http_Chars\<close>: \<open>http_parser.h\<close> and the tables and character classes of \<open>http_parser.c\<close>.
  \<^item> \<open>Parser_Macros\<close>, \<open>Start_Line\<close>, \<open>Url_Chars\<close>, \<open>Header_Lines\<close>, \<open>Message_Body\<close>, \<open>Parser_Execute\<close>: the function
    \<open>http_parser_execute\<close>, one definition for every case of its \<open>switch\<close>.  The locals of the function are the record
    \<open>locals\<close>; \<open>break\<close>, \<open>goto reexecute\<close>, \<open>goto error\<close>, \<open>return\<close> and a failed assertion are the constructors of
    \<open>flow\<close>.  Reading or handing over bytes that are not inside the buffer is \<open>Abort\<close>.
  \<^item> \<open>Parser_Client\<close>, \<open>Parser_Safety\<close>, \<open>Parser_Safety_Body\<close>, \<open>Parser_Properties\<close>: the locale \<open>parser_client\<close>
    of applications whose callbacks behave as documented; the invariant of the parser, and that every call returns.
    \<open>Parser_Growth\<close>: how many bytes of a body one call can hand over, by an application that counts them.
  \<^item> \<open>Parser_Numbers\<close>, \<open>Parser_Trace\<close>, \<open>Parser_Lines\<close>, \<open>Parser_Method\<close>, \<open>Parser_Headers\<close>, \<open>Parser_Values\<close>,
    \<open>Parser_Bodies\<close>, \<open>Parser_Messages\<close>: what runs over the parts of a message leave, and the round trips of
    printed requests and responses, on the application \<open>recorder\<close> that notes every callback.
  \<^item> \<open>Parser_Simulation\<close>: the locale \<open>similar_clients\<close>: on related applications the parser does related things.
  \<^item> \<open>Url_Parse\<close>, \<open>Url_Fields\<close>, \<open>Url_Roundtrip\<close>: \<open>http_parser_parse_url\<close>.
  \<^item> \<open>Asio_Url\<close>, \<open>Asio_Url_Laws\<close>: \<open>url.cpp\<close>; the regular expression is matched by backtracking in the order of
    the standard, and \<open>boost::lexical_cast\<close> is the parameter \<open>cast\<close>.
  \<^item> \<open>Asio_Types\<close>, \<open>Compression\<close>, \<open>Data_Transfer\<close>, \<open>Error_Handling\<close>: requests, results and error codes;
    \<open>compression.cpp\<close> over a parameter \<open>zlib\<close>, of which \<open>zlib_ok\<close> says what its manual promises; \<open>data_source\<close> and
    \<open>data_sink\<close>; \<open>http_error_handling.cpp\<close>.
  \<^item> \<open>Http_Connection\<close>, \<open>Connection_Steps\<close>, \<open>Connection_Laws\<close>, \<open>Connection_Response\<close>, \<open>Connection_Exchange\<close>: the
    layers of a connection as one state, a handler of the network library, the timer or the manager as a function
    on it, and what it asks of them as a log of effects.  The locale \<open>stack_invariant\<close> takes a predicate on
    stacks through all handlers; through \<open>similar_clients\<close> it also covers the callbacks of the parser.  A handler in
    which the decompression of a body does not return is \<open>None\<close>, as one in which the parser does not.
  \<^item> \<open>Network_Operations\<close>: the network as the library promises it.  In a \<^emph>\<open>served\<close> step what the network brings answers
    an operation that a handler has started (one of the effects) and that was not answered before, and brings no
    more bytes than the read buffer holds.  What is said of exchanges and of answers is said of served runs.
  \<^item> \<open>Connection_Pool\<close>: \<open>connection_pool.cpp\<close> and the locale \<open>handle_pool\<close> of what the manager relies on.
  \<^item> \<open>Request_Manager\<close>, \<open>Manager_Laws\<close>, \<open>Manager_Properties\<close>: \<open>request_manager.cpp\<close> and \<open>http_client.cpp\<close>.
  \<^item> \<open>Client_System\<close>, \<open>Client_Properties\<close>: the client as a whole.  The step relation \<open>client_reach\<close> interleaves the
    strand of the manager, the strands of the connections and the network, which may bring anything at any time.
  \<^item> \<open>Client_Network\<close>, \<open>Client_Exchange\<close>: the client on a network that answers what it is asked (\<open>client_served\<close>): what
    every pending request waits for, a request from call to answer, and that a client at rest has answered all.
  \<^item> \<open>Tuple_Ptr\<close>: \<open>tuple_ptr.h\<close> on an explicit heap.  \<open>Layer_Stack\<close>: the layers \<open>make_shared_stack\<close> allocates and
    the plain pointers between them.  \<open>Coro_Handler\<close>: \<open>coro_handler.h\<close>.

  \<^bold>\<open>What is shown.\<close>  The parser never fails an assertion and never leaves the buffer, whatever the input; printed
  messages are parsed back; URLs are taken apart and put together again.  A connection answers every request it is
  given once, with its own response, and none of its handlers gets stuck.  The manager keeps its limits, loses no
  request and leaves none waiting in vain.  The whole client composes the two: a connection is never used
  twice at a time, no request is forgotten, every pending request waits for exactly one operation of the network, a request
  is answered from the call of the application to the call of its handler, and when nothing is under way any more all
  are.  Pointers never touch freed memory and nothing leaks; the
  layers of a connection always reach their neighbours.  Where the code does not do what it
  means to do, a property states what it does.

  \<^bold>\<open>Bounds and fuel.\<close>  No definition has fuel.  The loop of \<open>http_parser_execute\<close> and the loops around zlib are partial
  functions into \<open>option\<close>, and that they return is proved, for zlib under the hypothesis \<open>zlib_ok\<close>: \<open>Z_OK\<close> means progress,
  the output of a stream is bounded (1032 times the input for \<open>inflate\<close>, \<open>deflateBound\<close> for \<open>deflate\<close>), and \<open>uncompress\<close>
  returns \<open>Z_BUF_ERROR\<close> only for output that does not fit.  The size that \<open>decompress_deflate\<close> doubles has 64 bits; for
  data of fewer than \<open>2 ^ 50\<close> bytes it does not wrap, and a connection that has received fewer than \<open>2 ^ 49\<close> bytes of a
  body does not reach them with the next read (\<open>Parser_Growth\<close>).  Machine integers of the parser, the manager and the requests are words of
  their width; \<open>size_t\<close> positions in a buffer are natural numbers, and the buffer is shorter than \<open>2 ^ 64\<close>.

  \<^bold>\<open>Assumptions.\<close>  One thread runs the \<open>io_context\<close>: the handler of the timer is not bound to the strand, and with more
  threads it races with the others.  Among requests of one state and one tick of the clock the container keeps the
  order of insertion.  A completion handler runs by itself; it may call the client again, which only posts.

  \<^bold>\<open>Not modelled.\<close>  The vendored logging library and the calls of it, timing statistics, \<open>future_handler.h\<close> (a
  \<open>std::promise\<close> with nothing of its own), the loading of certificates, the network library and zlib
  themselves, and tests and examples.
\<close>

end
